(* ===== verification/Prelude.thy ===== *)
theory Prelude
  imports Main "HOL-Library.Word"
begin

text \<open>
  Shared vocabulary of the development: machine integers, the result type of
  fallible Rust code, the sequencing of fallible steps, Rust's UTF-8 strings, and
  the generic lemmas on lists and words that the components use.

  \<^item> Rust's fixed-width integers are words of the same width. A signed integer is the
    word of its two's complement bits, read with \<^const>\<open>sint\<close>.
  \<^item> \<open>usize\<close> is 64 bits wide (the targets the crate supports); lengths and positions are
    naturals, and every place where a position can pass the machine range says so.
  \<^item> A Rust \<open>Result\<close> is \<open>'e fault + 'a\<close>: \<open>Err\<close> is the returned error, \<open>Panic\<close> the abort
    of an out-of-range index or slice, and \<open>NoFuel\<close> the outcome of a recursion over
    cyclic handles, where the program would not return.
\<close>

unbundle bit_operations_syntax

section \<open>Machine integers\<close>

type_synonym u8 = "8 word"
type_synonym u16 = "16 word"
type_synonym u32 = "32 word"
type_synonym u64 = "64 word"
type_synonym i32 = "32 word"
type_synonym i64 = "64 word"
type_synonym bytes = "8 word list"

abbreviation usize_top :: nat where
  "usize_top \<equiv> 2 ^ 64"

text \<open>No Rust allocation, and so no slice or vector, exceeds \<open>isize::MAX\<close> bytes.\<close>

abbreviation isize_top :: nat where
  "isize_top \<equiv> 2 ^ 63"

text \<open>\<open>n as u64\<close> on a \<open>usize\<close>, and \<open>x as usize\<close> on a \<open>u64\<close>.\<close>

abbreviation as_u64 :: "nat \<Rightarrow> u64" where
  "as_u64 n \<equiv> word_of_nat n"

abbreviation as_u32 :: "nat \<Rightarrow> u32" where
  "as_u32 n \<equiv> word_of_nat n"

abbreviation as_usize :: "'a::len word \<Rightarrow> nat" where
  "as_usize w \<equiv> unat w"

named_theorems codec_simps
  \<open>what a reader returns on the bytes its writer produced\<close>

named_theorems layout_simps
  \<open>the bytes a writer appends\<close>

section \<open>Fallible code\<close>

datatype 'e fault = Err 'e | Panic | NoFuel

type_synonym ('e, 'a) res = "'e fault + 'a"

text \<open>The \<open>?\<close> operator: continue with the value, return the error at once.\<close>

definition and_then :: "'e + 'a \<Rightarrow> ('a \<Rightarrow> 'e + 'b) \<Rightarrow> 'e + 'b" where
  "and_then m f = (case m of Inl e \<Rightarrow> Inl e | Inr x \<Rightarrow> f x)"

lemma and_then_Inl [simp]: "and_then (Inl e) f = Inl e"
  by (simp add: and_then_def)

lemma and_then_Inr [simp]: "and_then (Inr x) f = f x"
  by (simp add: and_then_def)

lemma and_then_eq_Inr: "and_then m f = Inr y \<longleftrightarrow> (\<exists>x. m = Inr x \<and> f x = Inr y)"
  by (cases m) auto

lemma and_then_eq_Inl:
  "and_then m f = Inl e \<longleftrightarrow> m = Inl e \<or> (\<exists>x. m = Inr x \<and> f x = Inl e)"
  by (cases m) auto

lemma and_then_assoc: "and_then (and_then m f) g = and_then m (\<lambda>x. and_then (f x) g)"
  by (cases m) auto

lemma and_then_cong [fundef_cong]:
  "m = m' \<Longrightarrow> (\<And>x. m' = Inr x \<Longrightarrow> f x = f' x) \<Longrightarrow> and_then m f = and_then m' f'"
  by (cases m') auto

text \<open>\<open>ok_or(e)\<close> on an option.\<close>

definition ok_or :: "'e \<Rightarrow> 'a option \<Rightarrow> 'e fault + 'a" where
  "ok_or e m = (case m of None \<Rightarrow> Inl (Err e) | Some x \<Rightarrow> Inr x)"

lemma ok_or_simps [simp]: "ok_or e None = Inl (Err e)" "ok_or e (Some x) = Inr x"
  by (simp_all add: ok_or_def)

lemma ok_or_eq_Inr [simp]: "ok_or e m = Inr x \<longleftrightarrow> m = Some x"
  by (cases m) auto

text \<open>Indexing \<open>xs[i]\<close>: out of range is a panic.\<close>

definition index :: "'a list \<Rightarrow> nat \<Rightarrow> 'e fault + 'a" where
  "index xs i = (if i < length xs then Inr (xs ! i) else Inl Panic)"

text \<open>The slice \<open>&xs[a..b]\<close>: a start past the end, or an end past the length, panics.\<close>

definition slice_of :: "'a list \<Rightarrow> nat \<Rightarrow> nat \<Rightarrow> 'e fault + 'a list" where
  "slice_of xs a b = (if a \<le> b \<and> b \<le> length xs then Inr (take (b - a) (drop a xs)) else Inl Panic)"

text \<open>\<open>xs.get(i)\<close>.\<close>

definition get_opt :: "'a list \<Rightarrow> nat \<Rightarrow> 'a option" where
  "get_opt xs i = (if i < length xs then Some (xs ! i) else None)"

section \<open>Sequences of steps\<close>

text \<open>
  A statement list whose calls all end in \<open>?\<close>: each step maps the state to an error or
  to the next state, and the first error ends the sequence.
\<close>

type_synonym ('e, 's) act = "'s \<Rightarrow> 'e fault + 's"

fun acts :: "('s \<Rightarrow> 'e + 's) list \<Rightarrow> 's \<Rightarrow> 'e + 's" where
  "acts [] s = Inr s"
| "acts (a # as) s = and_then (a s) (acts as)"

text \<open>A \<open>for\<close> loop over a list with a fallible body.\<close>

fun for_each :: "('a \<Rightarrow> 's \<Rightarrow> 'e + 's) \<Rightarrow> 'a list \<Rightarrow> 's \<Rightarrow> 'e + 's" where
  "for_each f [] s = Inr s"
| "for_each f (x # xs) s = and_then (f x s) (for_each f xs)"

definition act_if :: "bool \<Rightarrow> ('s \<Rightarrow> 'e + 's) \<Rightarrow> 's \<Rightarrow> 'e + 's" where
  "act_if b a s = (if b then a s else Inr s)"

lemma act_if_simps [simp]: "act_if True a = a" "act_if False a = Inr"
  by (auto simp: act_if_def)

lemma acts_append: "acts (xs @ ys) s = and_then (acts xs s) (acts ys)"
proof (induction xs arbitrary: s)
  case (Cons a xs)
  then have "acts (xs @ ys) = (\<lambda>s. and_then (acts xs s) (acts ys))" by blast
  then show ?case by (simp add: and_then_assoc)
qed simp

lemma for_each_acts: "for_each f xs = acts (map f xs)"
  by (induction xs) auto

lemma for_each_append: "for_each f (xs @ ys) s = and_then (for_each f xs s) (for_each f ys)"
  by (simp add: for_each_acts acts_append)

lemma for_each_cong [fundef_cong]:
  assumes "xs = ys" and "s = t" and "\<And>x u. x \<in> set ys \<Longrightarrow> f x u = g x u"
  shows "for_each f xs s = for_each g ys t"
proof -
  have "for_each f ys u = for_each g ys u" for u
    using assms(3)
  proof (induction ys arbitrary: u)
    case (Cons y ys)
    then show ?case by (cases "g y u") auto
  qed simp
  then show ?thesis using assms(1,2) by simp
qed

text \<open>An invariant that every step keeps holds after the sequence.\<close>

lemma acts_invariant:
  assumes "\<And>a s s'. a \<in> set as \<Longrightarrow> P s \<Longrightarrow> a s = Inr s' \<Longrightarrow> P s'"
    and "P s" and "acts as s = Inr s'"
  shows "P s'"
  using assms
proof (induction as arbitrary: s)
  case (Cons a as)
  from Cons.prems(3) obtain t where "a s = Inr t" and "acts as t = Inr s'"
    by (auto simp: and_then_eq_Inr)
  moreover have "P t" using Cons.prems(1,2) \<open>a s = Inr t\<close> by (meson list.set_intros(1))
  ultimately show ?case using Cons.IH Cons.prems(1) by (meson list.set_intros(2))
qed simp

lemma for_each_invariant:
  assumes "\<And>x s s'. x \<in> set xs \<Longrightarrow> P s \<Longrightarrow> f x s = Inr s' \<Longrightarrow> P s'"
    and "P s" and "for_each f xs s = Inr s'"
  shows "P s'"
  using acts_invariant [of "map f xs" P s s'] assms by (auto simp: for_each_acts)

section \<open>Strings\<close>

text \<open>
  A Rust \<open>str\<close> is a sequence of bytes that is valid UTF-8; here a \<^typ>\<open>string\<close>, whose
  characters are its bytes. \<open>utf8_valid\<close> is the check of \<open>str::from_utf8\<close>: the well-formed
  byte sequences of the Unicode standard (no overlong forms, no surrogates, at most
  U+10FFFF).
\<close>

definition as_bytes :: "string \<Rightarrow> bytes" where
  "as_bytes s = map (\<lambda>c. word_of_nat (of_char c)) s"

definition chars_of :: "bytes \<Rightarrow> string" where
  "chars_of bs = map (\<lambda>b. char_of (unat b)) bs"

definition cont_byte :: "u8 \<Rightarrow> bool" where
  "cont_byte b \<longleftrightarrow> 0x80 \<le> b \<and> b \<le> 0xBF"

fun utf8_valid :: "bytes \<Rightarrow> bool" where
  "utf8_valid [] = True"
| "utf8_valid (a # bs) =
    (if a < 0x80 then utf8_valid bs
     else if 0xC2 \<le> a \<and> a \<le> 0xDF then
       (case bs of b # cs \<Rightarrow> cont_byte b \<and> utf8_valid cs | _ \<Rightarrow> False)
     else if 0xE0 \<le> a \<and> a \<le> 0xEF then
       (case bs of b # c # cs \<Rightarrow>
          cont_byte b \<and> cont_byte c \<and> (a = 0xE0 \<longrightarrow> 0xA0 \<le> b) \<and> (a = 0xED \<longrightarrow> b \<le> 0x9F) \<and>
          utf8_valid cs
        | _ \<Rightarrow> False)
     else if 0xF0 \<le> a \<and> a \<le> 0xF4 then
       (case bs of b # c # d # cs \<Rightarrow>
          cont_byte b \<and> cont_byte c \<and> cont_byte d \<and> (a = 0xF0 \<longrightarrow> 0x90 \<le> b) \<and>
          (a = 0xF4 \<longrightarrow> b \<le> 0x8F) \<and> utf8_valid cs
        | _ \<Rightarrow> False)
     else False)"

definition from_utf8 :: "bytes \<Rightarrow> string option" where
  "from_utf8 bs = (if utf8_valid bs then Some (chars_of bs) else None)"

text \<open>The strings a Rust program can hold.\<close>

definition rust_str :: "string \<Rightarrow> bool" where
  "rust_str s \<longleftrightarrow> utf8_valid (as_bytes s)"

lemma length_as_bytes [simp]: "length (as_bytes s) = length s"
  by (simp add: as_bytes_def)

lemma chars_of_as_bytes [simp]: "chars_of (as_bytes s) = s"
proof -
  have "unat (word_of_nat (of_char c) :: u8) = of_char c" for c :: char
    by (simp add: unat_of_nat of_char_mod_256)
  then show ?thesis by (simp add: chars_of_def as_bytes_def map_idI comp_def)
qed

lemma from_utf8_as_bytes [simp]: "rust_str s \<Longrightarrow> from_utf8 (as_bytes s) = Some s"
  by (simp add: from_utf8_def rust_str_def)

section \<open>Decimal text\<close>

text \<open>\<open>Display\<close> of unsigned and signed integers.\<close>

function nat_digits :: "nat \<Rightarrow> string" where
  "nat_digits n = (if n < 10 then [char_of (48 + n)]
                   else nat_digits (n div 10) @ [char_of (48 + n mod 10)])"
  by pat_completeness auto
termination
  by (relation "measure id") auto

declare nat_digits.simps [simp del]

definition show_nat :: "nat \<Rightarrow> string" where
  "show_nat n = nat_digits n"

definition show_int :: "int \<Rightarrow> string" where
  "show_int i = (if i < 0 then CHR ''-'' # nat_digits (nat (- i)) else nat_digits (nat i))"

text \<open>\<open>items.join(sep)\<close>.\<close>

fun join :: "string \<Rightarrow> string list \<Rightarrow> string" where
  "join sep [] = []"
| "join sep [x] = x"
| "join sep (x # y # ys) = x @ sep @ join sep (y # ys)"

section \<open>Searching\<close>

text \<open>\<open>iter().find_map(f)\<close>.\<close>

fun find_map :: "('a \<Rightarrow> 'b option) \<Rightarrow> 'a list \<Rightarrow> 'b option" where
  "find_map f [] = None"
| "find_map f (x # xs) = (case f x of Some y \<Rightarrow> Some y | None \<Rightarrow> find_map f xs)"

lemma find_map_SomeD: "find_map f xs = Some y \<Longrightarrow> \<exists>x \<in> set xs. f x = Some y"
  by (induction xs) (auto split: option.splits)

lemma find_map_None: "find_map f xs = None \<longleftrightarrow> (\<forall>x \<in> set xs. f x = None)"
  by (induction xs) (auto split: option.splits)

section \<open>Generic lemmas\<close>

lemma unat_as_u64 [simp]: "n < usize_top \<Longrightarrow> unat (as_u64 n) = n"
  by (simp add: unat_of_nat)

lemma unat_as_u32 [simp]: "n < 2 ^ 32 \<Longrightarrow> unat (as_u32 n) = n"
  by (simp add: unat_of_nat)

lemma sum_list_map_length: "sum_list (map length xss) = length (concat xss)"
  by (simp add: length_concat)

lemma drop_append_length [simp]: "drop (length xs) (xs @ ys) = ys"
  by simp

lemma take_append_length [simp]: "take (length xs) (xs @ ys) = xs"
  by simp

end
