(* ===== verification/Enums.thy ===== *)
theory Enums
  imports Prelude
begin

text \<open>
  The constants of the bytecode format (\<open>cutile-ir/src/bytecode/enums.rs\<close>): section
  identifiers, type tags, debug tags, function flags, attribute tags, and the version
  triple with its order. Each Rust enum with a representation is a datatype and the
  function that gives its discriminant.
\<close>

definition ALIGNMENT_BYTE :: u8 where
  "ALIGNMENT_BYTE = 0xCB"

definition MAGIC :: bytes where
  "MAGIC = [0x7F, 0x54, 0x69, 0x6C, 0x65, 0x49, 0x52, 0x00]"

section \<open>Sections\<close>

datatype Section =
    Section_EndOfBytecode | Section_String | Section_Func | Section_Debug | Section_Constant
  | Section_Type | Section_Global | Section_Producer

fun section_id :: "Section \<Rightarrow> u8" where
  "section_id Section_EndOfBytecode = 0x00"
| "section_id Section_String = 0x01"
| "section_id Section_Func = 0x02"
| "section_id Section_Debug = 0x03"
| "section_id Section_Constant = 0x04"
| "section_id Section_Type = 0x05"
| "section_id Section_Global = 0x06"
| "section_id Section_Producer = 0x07"

definition NUM_SECTIONS :: nat where
  "NUM_SECTIONS = 8"

lemma section_id_less: "section_id s < 8"
  by (cases s) simp_all

lemma section_id_inject [simp]: "section_id s = section_id t \<longleftrightarrow> s = t"
  by (cases s; cases t) simp_all

section \<open>Type tags\<close>

datatype TypeTag =
    TypeTag_I1 | TypeTag_I8 | TypeTag_I16 | TypeTag_I32 | TypeTag_I64 | TypeTag_F16
  | TypeTag_BF16 | TypeTag_F32 | TypeTag_TF32 | TypeTag_F64 | TypeTag_F8E4M3FN
  | TypeTag_F8E5M2 | TypeTag_Pointer | TypeTag_Tile | TypeTag_TensorView
  | TypeTag_PartitionView | TypeTag_Func | TypeTag_Token | TypeTag_F8E8M0FNU
  | TypeTag_F4E2M1FN | TypeTag_GatherScatterView | TypeTag_StridedView | TypeTag_I4
  | TypeTag_F8E5M3FNU

fun type_tag_u8 :: "TypeTag \<Rightarrow> u8" where
  "type_tag_u8 TypeTag_I1 = 0"
| "type_tag_u8 TypeTag_I8 = 1"
| "type_tag_u8 TypeTag_I16 = 2"
| "type_tag_u8 TypeTag_I32 = 3"
| "type_tag_u8 TypeTag_I64 = 4"
| "type_tag_u8 TypeTag_F16 = 5"
| "type_tag_u8 TypeTag_BF16 = 6"
| "type_tag_u8 TypeTag_F32 = 7"
| "type_tag_u8 TypeTag_TF32 = 8"
| "type_tag_u8 TypeTag_F64 = 9"
| "type_tag_u8 TypeTag_F8E4M3FN = 10"
| "type_tag_u8 TypeTag_F8E5M2 = 11"
| "type_tag_u8 TypeTag_Pointer = 12"
| "type_tag_u8 TypeTag_Tile = 13"
| "type_tag_u8 TypeTag_TensorView = 14"
| "type_tag_u8 TypeTag_PartitionView = 15"
| "type_tag_u8 TypeTag_Func = 16"
| "type_tag_u8 TypeTag_Token = 17"
| "type_tag_u8 TypeTag_F8E8M0FNU = 18"
| "type_tag_u8 TypeTag_F4E2M1FN = 19"
| "type_tag_u8 TypeTag_GatherScatterView = 20"
| "type_tag_u8 TypeTag_StridedView = 21"
| "type_tag_u8 TypeTag_I4 = 22"
| "type_tag_u8 TypeTag_F8E5M3FNU = 0x82"

text \<open>\<open>TypeTag::X as u64\<close>.\<close>

definition type_tag_u64 :: "TypeTag \<Rightarrow> u64" where
  "type_tag_u64 t = ucast (type_tag_u8 t)"

lemma ucast_type_tag_u64 [simp]: "ucast (type_tag_u64 t) = type_tag_u8 t"
  by (cases t) (simp_all add: type_tag_u64_def)

section \<open>Debug tags\<close>

datatype DebugTag =
    DebugTag_Unknown | DebugTag_DICompileUnit | DebugTag_DIFile | DebugTag_DILexicalBlock
  | DebugTag_DILoc | DebugTag_DISubprogram | DebugTag_CallSite

fun debug_tag_u8 :: "DebugTag \<Rightarrow> u8" where
  "debug_tag_u8 DebugTag_Unknown = 0"
| "debug_tag_u8 DebugTag_DICompileUnit = 1"
| "debug_tag_u8 DebugTag_DIFile = 2"
| "debug_tag_u8 DebugTag_DILexicalBlock = 3"
| "debug_tag_u8 DebugTag_DILoc = 4"
| "debug_tag_u8 DebugTag_DISubprogram = 5"
| "debug_tag_u8 DebugTag_CallSite = 6"

section \<open>Function flags and attribute tags\<close>

datatype FunctionFlag =
  FunctionFlag_VisibilityPrivate | FunctionFlag_KindKernel | FunctionFlag_HasOptimizationHints

fun function_flag_u8 :: "FunctionFlag \<Rightarrow> u8" where
  "function_flag_u8 FunctionFlag_VisibilityPrivate = 0x01"
| "function_flag_u8 FunctionFlag_KindKernel = 0x02"
| "function_flag_u8 FunctionFlag_HasOptimizationHints = 0x04"

datatype AttributeTag =
    AttributeTag_Integer | AttributeTag_Float | AttributeTag_Bool | AttributeTag_Type
  | AttributeTag_String | AttributeTag_Array | AttributeTag_DenseElements
  | AttributeTag_DivBy | AttributeTag_SameElements | AttributeTag_Dictionary
  | AttributeTag_OptimizationHints | AttributeTag_Bounded

fun attribute_tag_u64 :: "AttributeTag \<Rightarrow> u64" where
  "attribute_tag_u64 AttributeTag_Integer = 1"
| "attribute_tag_u64 AttributeTag_Float = 2"
| "attribute_tag_u64 AttributeTag_Bool = 3"
| "attribute_tag_u64 AttributeTag_Type = 4"
| "attribute_tag_u64 AttributeTag_String = 5"
| "attribute_tag_u64 AttributeTag_Array = 6"
| "attribute_tag_u64 AttributeTag_DenseElements = 7"
| "attribute_tag_u64 AttributeTag_DivBy = 8"
| "attribute_tag_u64 AttributeTag_SameElements = 9"
| "attribute_tag_u64 AttributeTag_Dictionary = 10"
| "attribute_tag_u64 AttributeTag_OptimizationHints = 11"
| "attribute_tag_u64 AttributeTag_Bounded = 12"

section \<open>Bytecode version\<close>

datatype BytecodeVersion = BytecodeVersion (major: u8) (minor: u8) (tag: u16)

text \<open>
  \<open>Ord for BytecodeVersion\<close>: the major numbers first, then the minor, then the tag. The
  order is an instance of the library's class, so that the comparisons of the writer and
  the decoder read as in the source.
\<close>

instantiation BytecodeVersion :: linorder
begin

definition less_eq_BytecodeVersion :: "BytecodeVersion \<Rightarrow> BytecodeVersion \<Rightarrow> bool" where
  "less_eq_BytecodeVersion v w \<longleftrightarrow>
     major v < major w \<or> major v = major w \<and>
     (minor v < minor w \<or> minor v = minor w \<and> tag v \<le> tag w)"

definition less_BytecodeVersion :: "BytecodeVersion \<Rightarrow> BytecodeVersion \<Rightarrow> bool" where
  "less_BytecodeVersion v w \<longleftrightarrow>
     major v < major w \<or> major v = major w \<and>
     (minor v < minor w \<or> minor v = minor w \<and> tag v < tag w)"

instance
  by standard
    (auto simp: less_eq_BytecodeVersion_def less_BytecodeVersion_def BytecodeVersion.expand)

end

lemmas version_order = less_eq_BytecodeVersion_def less_BytecodeVersion_def

definition V13_2 :: BytecodeVersion where
  "V13_2 = BytecodeVersion 13 2 0"

definition V13_3 :: BytecodeVersion where
  "V13_3 = BytecodeVersion 13 3 0"

definition V13_4 :: BytecodeVersion where
  "V13_4 = BytecodeVersion 13 4 0"

definition CURRENT :: BytecodeVersion where
  "CURRENT = V13_4"

definition MIN_SUPPORTED :: BytecodeVersion where
  "MIN_SUPPORTED = V13_2"

definition SUPPORTED :: "BytecodeVersion list" where
  "SUPPORTED = [V13_2, V13_3, V13_4]"

lemmas version_consts = V13_2_def V13_3_def V13_4_def CURRENT_def MIN_SUPPORTED_def SUPPORTED_def

lemma versions_increase [simp]: "V13_2 < V13_3" "V13_3 < V13_4" "V13_2 < V13_4"
  by (simp_all add: version_order version_consts)

lemma versions_ge_simps [simp]:
  "\<not> V13_3 \<le> V13_2" "\<not> V13_4 \<le> V13_3" "\<not> V13_4 \<le> V13_2"
  "V13_2 \<le> V13_3" "V13_3 \<le> V13_4" "V13_2 \<le> V13_4"
  by (simp_all add: version_order version_consts)

text \<open>\<open>Display for BytecodeVersion\<close>.\<close>

definition show_version :: "BytecodeVersion \<Rightarrow> string" where
  "show_version v =
     (if tag v \<noteq> 0
      then show_nat (unat (major v)) @ ''.'' @ show_nat (unat (minor v)) @ ''.'' @ show_nat (unat (tag v))
      else show_nat (unat (major v)) @ ''.'' @ show_nat (unat (minor v)))"

end
