(* ===== verification/IrTypes.thy ===== *)
theory IrTypes
  imports Enums
begin

text \<open>
  The type system of Tile IR (\<open>cutile-ir/src/ir/types.rs\<close>): scalars, pointers, tiles,
  the four kinds of view, function types, tokens, and the pointer classification that
  wraps them. Structs are records, enums datatypes.
\<close>

text \<open>\<open>DYNAMIC\<close> is \<open>i64::MIN\<close>.\<close>

definition DYNAMIC :: i64 where
  "DYNAMIC = 0x8000000000000000"

datatype ScalarType =
    I1 | I4 | I8 | I16 | I32 | I64 | F16 | BF16 | F32 | TF32 | F64
  | F8E4M3FN | F8E5M2 | F8E8M0FNU | F4E2M1FN | F8E5M3FNU

fun byte_width :: "ScalarType \<Rightarrow> nat" where
  "byte_width I1 = 1"
| "byte_width I4 = 1"
| "byte_width I8 = 1"
| "byte_width F8E4M3FN = 1"
| "byte_width F8E5M2 = 1"
| "byte_width F8E8M0FNU = 1"
| "byte_width F4E2M1FN = 1"
| "byte_width F8E5M3FNU = 1"
| "byte_width I16 = 2"
| "byte_width F16 = 2"
| "byte_width BF16 = 2"
| "byte_width I32 = 4"
| "byte_width F32 = 4"
| "byte_width TF32 = 4"
| "byte_width I64 = 8"
| "byte_width F64 = 8"

fun type_tag :: "ScalarType \<Rightarrow> TypeTag" where
  "type_tag I1 = TypeTag_I1"
| "type_tag I4 = TypeTag_I4"
| "type_tag I8 = TypeTag_I8"
| "type_tag I16 = TypeTag_I16"
| "type_tag I32 = TypeTag_I32"
| "type_tag I64 = TypeTag_I64"
| "type_tag F16 = TypeTag_F16"
| "type_tag BF16 = TypeTag_BF16"
| "type_tag F32 = TypeTag_F32"
| "type_tag TF32 = TypeTag_TF32"
| "type_tag F64 = TypeTag_F64"
| "type_tag F8E4M3FN = TypeTag_F8E4M3FN"
| "type_tag F8E5M2 = TypeTag_F8E5M2"
| "type_tag F8E8M0FNU = TypeTag_F8E8M0FNU"
| "type_tag F4E2M1FN = TypeTag_F4E2M1FN"
| "type_tag F8E5M3FNU = TypeTag_F8E5M3FNU"

definition is_integer :: "ScalarType \<Rightarrow> bool" where
  "is_integer s \<longleftrightarrow> (case s of I1 \<Rightarrow> True | I4 \<Rightarrow> True | I8 \<Rightarrow> True | I16 \<Rightarrow> True | I32 \<Rightarrow> True
                        | I64 \<Rightarrow> True | _ \<Rightarrow> False)"

definition is_float :: "ScalarType \<Rightarrow> bool" where
  "is_float s \<longleftrightarrow> \<not> is_integer s"

section \<open>Compound types\<close>

record PointerType =
  pointee :: ScalarType

datatype TileElementType = TE_Scalar ScalarType | TE_Pointer PointerType

datatype PointerAttribute = PA_None

fun pointer_attribute_u8 :: "PointerAttribute \<Rightarrow> u8" where
  "pointer_attribute_u8 PA_None = 0"

record TileType =
  t_shape :: "i64 list"
  t_element_type :: TileElementType

record TensorViewType =
  tv_element_type :: ScalarType
  tv_shape :: "i64 list"
  tv_strides :: "i64 list"

datatype PaddingValue = Pad_Zero | Pad_NegZero | Pad_Nan | Pad_PosInf | Pad_NegInf

fun padding_value_u8 :: "PaddingValue \<Rightarrow> u8" where
  "padding_value_u8 Pad_Zero = 0"
| "padding_value_u8 Pad_NegZero = 1"
| "padding_value_u8 Pad_Nan = 2"
| "padding_value_u8 Pad_PosInf = 3"
| "padding_value_u8 Pad_NegInf = 4"

record PartitionViewType =
  pv_tile_shape :: "i32 list"
  pv_tensor_view :: TensorViewType
  pv_dim_map :: "i32 list"
  pv_padding_value :: "PaddingValue option"

record GatherScatterViewType =
  gsv_tile_shape :: "i32 list"
  gsv_tensor_view :: TensorViewType
  gsv_sparse_dim :: i32
  gsv_padding_value :: "PaddingValue option"

record StridedViewType =
  sv_tile_shape :: "i32 list"
  sv_traversal_strides :: "i32 list"
  sv_tensor_view :: TensorViewType
  sv_dim_map :: "i32 list"
  sv_padding_value :: "PaddingValue option"

text \<open>\<open>Ty_Func inputs results\<close> carries the two fields of \<open>FuncType\<close> directly.\<close>

datatype Type =
    Ty_Scalar ScalarType
  | Ty_Pointer PointerType
  | Ty_Tile TileType
  | Ty_TensorView TensorViewType
  | Ty_PartitionView PartitionViewType
  | Ty_GatherScatterView GatherScatterViewType
  | Ty_StridedView StridedViewType
  | Ty_Func "Type list" "Type list"
  | Ty_Token
  | Ty_WithPointerAttribute Type PointerAttribute

fun without_pointer_attribute :: "Type \<Rightarrow> Type" where
  "without_pointer_attribute (Ty_WithPointerAttribute base _) = without_pointer_attribute base"
| "without_pointer_attribute ty = ty"

definition with_pointer_attribute :: "Type \<Rightarrow> PointerAttribute \<Rightarrow> Type" where
  "with_pointer_attribute ty attribute =
     Ty_WithPointerAttribute (without_pointer_attribute ty) attribute"

fun pointer_attribute :: "Type \<Rightarrow> PointerAttribute option" where
  "pointer_attribute (Ty_WithPointerAttribute _ attr) = Some attr"
| "pointer_attribute _ = None"

text \<open>The classification wrapper never nests once it is set through the interface.\<close>

lemma without_pointer_attribute_idem [simp]:
  "without_pointer_attribute (without_pointer_attribute ty) = without_pointer_attribute ty"
  by (induction ty) simp_all

lemma pointer_attribute_without [simp]: "pointer_attribute (without_pointer_attribute ty) = None"
  by (induction ty) simp_all

lemma with_pointer_attribute_last:
  "with_pointer_attribute (with_pointer_attribute ty a) b = with_pointer_attribute ty b"
  by (simp add: with_pointer_attribute_def)

end
