(* ===== verification/Encoding.thy ===== *)
theory Encoding
  imports IrTypes
begin

text \<open>
  The byte-level encoder (\<open>cutile-ir/src/bytecode/encoding.rs\<close>): the writer's buffer,
  variable-length integers, zigzag, little-endian fixed-width integers, alignment
  padding, patching of reserved offsets, and the conversion of floats to their wire
  bits, with the 8-bit formats in full. The variable-length loop occurs three times in
  the source (\<open>write_varint\<close>, \<open>push_varint\<close> of \<open>debug_info.rs\<close>, and inline in
  \<open>write_section_header\<close>); the section header shares the model of the first, and the
  first two are modelled apart and proved equal.
\<close>

section \<open>The writer\<close>

record EncodingWriter =
  buf :: bytes
  required_alignment :: u64

definition writer_new :: EncodingWriter where
  "writer_new = \<lparr>buf = [], required_alignment = 1\<rparr>"

definition write_byte :: "u8 \<Rightarrow> EncodingWriter \<Rightarrow> EncodingWriter" where
  "write_byte b w = w\<lparr>buf := buf w @ [b]\<rparr>"

definition write_bytes :: "bytes \<Rightarrow> EncodingWriter \<Rightarrow> EncodingWriter" where
  "write_bytes data w = w\<lparr>buf := buf w @ data\<rparr>"

definition tell :: "EncodingWriter \<Rightarrow> nat" where
  "tell w = length (buf w)"

section \<open>Variable-length integers\<close>

lemma drop_bit_decreases:
  fixes v :: "'a::len word"
  assumes "drop_bit (Suc n) v \<noteq> 0"
  shows "unat (drop_bit (Suc n) v) < unat v"
proof -
  have "v \<noteq> 0" using assms by auto
  then have "0 < unat v" by (simp add: unat_gt_0)
  then have "unat v div 2 ^ Suc n < unat v"
    by (intro div_less_dividend) (use one_less_power [of "2::nat" "Suc n"] in auto)
  then show ?thesis by (simp only: unat_drop_bit_eq) (simp only: drop_bit_eq_div)
qed

text \<open>The loop of \<open>write_varint\<close>: seven bits a byte, the high bit marks that more follow.\<close>

function write_varint_loop :: "u64 \<Rightarrow> bytes \<Rightarrow> bytes" where
  "write_varint_loop value b =
     (let byte = ucast (value AND 0x7F) :: u8;
          value' = drop_bit 7 value;
          byte' = (if value' \<noteq> 0 then byte OR 0x80 else byte);
          b' = b @ [byte']
      in if value' = 0 then b' else write_varint_loop value' b')"
  by pat_completeness auto
termination
  by (relation "measure (\<lambda>(v, b). unat v)") (use drop_bit_decreases [of 6] in auto)

declare write_varint_loop.simps [simp del]

definition write_varint :: "u64 \<Rightarrow> EncodingWriter \<Rightarrow> EncodingWriter" where
  "write_varint value w = w\<lparr>buf := write_varint_loop value (buf w)\<rparr>"

text \<open>\<open>push_varint\<close> of the debug-info table: the same bytes, with the test moved.\<close>

function push_varint :: "bytes \<Rightarrow> u64 \<Rightarrow> bytes" where
  "push_varint b v =
     (let byte = ucast (v AND 0x7f) :: u8; v' = drop_bit 7 v
      in if v' = 0 then b @ [byte] else push_varint (b @ [byte OR 0x80]) v')"
  by pat_completeness auto
termination
  by (relation "measure (\<lambda>(b, v). unat v)") (use drop_bit_decreases [of 6] in auto)

declare push_varint.simps [simp del]

text \<open>Zigzag: \<open>(v << 1) ^ ((v as i64 >> 63) as u64)\<close>.\<close>

definition zigzag :: "i64 \<Rightarrow> u64" where
  "zigzag value = push_bit 1 value XOR signed_drop_bit 63 value"

definition write_signed_varint :: "i64 \<Rightarrow> EncodingWriter \<Rightarrow> EncodingWriter" where
  "write_signed_varint value w = write_varint (zigzag value) w"

section \<open>Little-endian fixed width\<close>

text \<open>\<open>to_le_bytes\<close> of an integer of \<open>n\<close> bytes.\<close>

primrec to_le :: "nat \<Rightarrow> 'a::len word \<Rightarrow> bytes" where
  "to_le 0 w = []"
| "to_le (Suc n) w = ucast w # to_le n (drop_bit 8 w)"

definition write_le_u8 :: "u8 \<Rightarrow> EncodingWriter \<Rightarrow> EncodingWriter" where
  "write_le_u8 value w = w\<lparr>buf := buf w @ [value]\<rparr>"

definition write_le_u16 :: "u16 \<Rightarrow> EncodingWriter \<Rightarrow> EncodingWriter" where
  "write_le_u16 value w = w\<lparr>buf := buf w @ to_le 2 value\<rparr>"

definition write_le_u32 :: "u32 \<Rightarrow> EncodingWriter \<Rightarrow> EncodingWriter" where
  "write_le_u32 value w = w\<lparr>buf := buf w @ to_le 4 value\<rparr>"

definition write_le_u64 :: "u64 \<Rightarrow> EncodingWriter \<Rightarrow> EncodingWriter" where
  "write_le_u64 value w = w\<lparr>buf := buf w @ to_le 8 value\<rparr>"

definition write_le_i32 :: "i32 \<Rightarrow> EncodingWriter \<Rightarrow> EncodingWriter" where
  "write_le_i32 value w = w\<lparr>buf := buf w @ to_le 4 value\<rparr>"

definition write_le_i64 :: "i64 \<Rightarrow> EncodingWriter \<Rightarrow> EncodingWriter" where
  "write_le_i64 value w = w\<lparr>buf := buf w @ to_le 8 value\<rparr>"

definition write_le_var_size_i64 :: "i64 list \<Rightarrow> EncodingWriter \<Rightarrow> EncodingWriter" where
  "write_le_var_size_i64 values w = fold write_le_i64 values (write_varint (as_u64 (length values)) w)"

definition write_le_var_size_i32 :: "i32 list \<Rightarrow> EncodingWriter \<Rightarrow> EncodingWriter" where
  "write_le_var_size_i32 values w = fold write_le_i32 values (write_varint (as_u64 (length values)) w)"

section \<open>Alignment and patching\<close>

text \<open>The number of padding bytes after \<open>pos\<close> bytes: \<open>(alignment - pos % alignment) % alignment\<close>.\<close>

definition padding_to :: "u64 \<Rightarrow> nat \<Rightarrow> nat" where
  "padding_to alignment pos = unat ((alignment - (as_u64 pos mod alignment)) mod alignment)"

definition align_to :: "u64 \<Rightarrow> EncodingWriter \<Rightarrow> EncodingWriter" where
  "align_to alignment w =
     (if alignment < 2 then w
      else w\<lparr>buf := buf w @ replicate (padding_to alignment (length (buf w))) ALIGNMENT_BYTE,
             required_alignment := max (required_alignment w) alignment\<rparr>)"

text \<open>
  \<open>patch_u32\<close> and \<open>patch_u64\<close>: \<open>buf[offset..offset + n].copy_from_slice(..)\<close>, a panic
  when the window does not lie in the buffer.
\<close>

definition patch_bytes :: "bytes \<Rightarrow> nat \<Rightarrow> bytes \<Rightarrow> 'e fault + bytes" where
  "patch_bytes b offset new =
     (if offset + length new \<le> length b
      then Inr (take offset b @ new @ drop (offset + length new) b) else Inl Panic)"

definition patch_u32 :: "bytes \<Rightarrow> nat \<Rightarrow> u32 \<Rightarrow> 'e fault + bytes" where
  "patch_u32 b offset value = patch_bytes b offset (to_le 4 value)"

definition patch_u64 :: "bytes \<Rightarrow> nat \<Rightarrow> u64 \<Rightarrow> 'e fault + bytes" where
  "patch_u64 b offset value = patch_bytes b offset (to_le 8 value)"

section \<open>Floats\<close>

text \<open>An \<open>f64\<close> is its IEEE 754 bit pattern, so \<open>to_bits\<close> is the identity.\<close>

type_synonym f64 = "64 word"

text \<open>Right shift with rounding to nearest, ties to even.\<close>

definition round_shift_right_ties_even :: "u64 \<Rightarrow> nat \<Rightarrow> u64" where
  "round_shift_right_ties_even value shift =
     (if shift = 0 then value
      else if shift \<ge> 64 then 0
      else let truncated = drop_bit shift value;
               remainder_mask = push_bit shift 1 - 1;
               remainder = value AND remainder_mask;
               half = push_bit (shift - 1) 1;
               should_round_up = remainder > half \<or> remainder = half \<and> truncated AND 1 = 1
           in truncated + of_bool should_round_up)"

text \<open>
  \<open>value as f32\<close>: round to nearest even, overflow to infinity. The payload of a
  converted NaN is not fixed by the language; the model keeps the upper payload bits and
  sets the quiet bit, which is what the supported targets do.
\<close>

definition f64_as_f32 :: "f64 \<Rightarrow> u32" where
  "f64_as_f32 value =
     (let sign = ucast (drop_bit 63 value) :: u32;
          e = unat (drop_bit 52 value AND 0x7FF);
          man = value AND (push_bit 52 1 - 1)
      in if e = 0x7FF then
           (if man = 0 then push_bit 31 sign OR 0x7F800000
            else push_bit 31 sign OR 0x7FC00000 OR ucast (drop_bit 29 man))
         else
           let significand = (if e = 0 then man else push_bit 52 1 OR man);
               target = int (max e 1) - 1023 + 127;
               magnitude =
                 (if target \<ge> 1
                  then word_of_int (target - 1) * 0x800000 +
                       ucast (round_shift_right_ties_even significand 29)
                  else ucast (round_shift_right_ties_even significand (29 + nat (1 - target))))
           in push_bit 31 sign OR (if target \<ge> 255 \<or> magnitude \<ge> 0x7F800000 then 0x7F800000 else magnitude))"

definition convert_to_f8 :: "f64 \<Rightarrow> nat \<Rightarrow> nat \<Rightarrow> int \<Rightarrow> bool \<Rightarrow> u8" where
  "convert_to_f8 value exp_bits man_bits bias nan_only_all_ones =
     (let bits = value;
          sign = ucast (drop_bit 63 bits AND 1) :: u8;
          f64_exp = uint (drop_bit 52 bits AND 0x7FF);
          f64_man = bits AND (push_bit 52 1 - 1);
          max_exp = 2 ^ exp_bits - 1 :: int;
          man_mask = push_bit man_bits 1 - 1 :: u8;
          sign_bit = push_bit 7 sign;
          exp_field = (\<lambda>e::int. push_bit man_bits (word_of_int e :: u8));
          max_finite =
            (if nan_only_all_ones then sign_bit OR exp_field max_exp OR (man_mask - 1)
             else sign_bit OR exp_field (max_exp - 1) OR man_mask)
      in if f64_exp = 0x7FF then
           (if f64_man \<noteq> 0 then
              (if nan_only_all_ones then sign_bit OR exp_field max_exp OR man_mask
               else sign_bit OR exp_field max_exp OR 1)
            else if \<not> nan_only_all_ones then sign_bit OR exp_field max_exp
            else max_finite)
         else if bits AND 0x7FFFFFFFFFFFFFFF = 0 then sign_bit
         else
           let (significand, unbiased) =
                 (if f64_exp = 0 then (f64_man, -1022)
                  else (push_bit 52 1 OR f64_man, f64_exp - 1023))
           in if significand = 0 then sign_bit
              else
                let target_exp = unbiased + bias
                in if target_exp > max_exp \<or> \<not> nan_only_all_ones \<and> target_exp \<ge> max_exp then
                     (if \<not> nan_only_all_ones then sign_bit OR exp_field max_exp else max_finite)
                   else if target_exp \<le> 0 then
                     let shift = 1 - target_exp;
                         subnormal_man = round_shift_right_ties_even significand
                                           (nat (52 - int man_bits + shift))
                     in if subnormal_man = 0 then sign_bit
                        else if subnormal_man \<ge> push_bit man_bits 1 then sign_bit OR push_bit man_bits 1
                        else sign_bit OR (ucast subnormal_man AND man_mask)
                   else
                     let rounded_significand = round_shift_right_ties_even significand (52 - man_bits);
                         mantissa0 = ucast rounded_significand AND man_mask;
                         carry = (rounded_significand = push_bit (man_bits + 1) 1);
                         target_exp' = (if carry then target_exp + 1 else target_exp);
                         mantissa = (if carry then 0 else mantissa0)
                     in if target_exp' > max_exp
                           \<or> nan_only_all_ones \<and> target_exp' = max_exp \<and> mantissa = man_mask
                        then max_finite
                        else if \<not> nan_only_all_ones \<and> target_exp' \<ge> max_exp
                        then sign_bit OR exp_field max_exp
                        else sign_bit OR exp_field target_exp' OR mantissa)"

definition f64_to_f8e4m3fn :: "f64 \<Rightarrow> u8" where
  "f64_to_f8e4m3fn value = convert_to_f8 value 4 3 7 True"

definition f64_to_f8e5m2 :: "f64 \<Rightarrow> u8" where
  "f64_to_f8e5m2 value = convert_to_f8 value 5 2 15 False"

text \<open>
  The conversions of the third-party crate \<open>half\<close> are parameters: the bit patterns of
  \<open>f16::from_f64\<close> and \<open>bf16::from_f64\<close>.
\<close>

record half_crate =
  f16_from_f64 :: "f64 \<Rightarrow> u16"
  bf16_from_f64 :: "f64 \<Rightarrow> u16"

definition write_ap_float :: "half_crate \<Rightarrow> f64 \<Rightarrow> Type \<Rightarrow> EncodingWriter \<Rightarrow> EncodingWriter" where
  "write_ap_float H value ty w =
     (case ty of
        Ty_Scalar s \<Rightarrow>
          (case s of
             F16 \<Rightarrow> write_signed_varint (ucast (f16_from_f64 H value)) w
           | BF16 \<Rightarrow> write_signed_varint (ucast (bf16_from_f64 H value)) w
           | F32 \<Rightarrow> write_signed_varint (ucast (f64_as_f32 value)) w
           | F64 \<Rightarrow> write_signed_varint value w
           | TF32 \<Rightarrow> write_signed_varint (ucast (f64_as_f32 value)) w
           | F8E4M3FN \<Rightarrow> write_byte (f64_to_f8e4m3fn value) w
           | F8E5M2 \<Rightarrow> write_byte (f64_to_f8e5m2 value) w
           | _ \<Rightarrow> write_signed_varint value w)
      | _ \<Rightarrow> write_signed_varint value w)"

section \<open>The bytes written\<close>

text \<open>The reference definition of the variable-length encoding.\<close>

function varint :: "u64 \<Rightarrow> bytes" where
  "varint v = (if drop_bit 7 v = 0 then [ucast v] else (ucast v OR 0x80) # varint (drop_bit 7 v))"
  by pat_completeness auto
termination
  by (relation "measure unat") (use drop_bit_decreases [of 6] in auto)

declare varint.simps [simp del]

lemma low7_all: "drop_bit 7 (v :: u64) = 0 \<Longrightarrow> (ucast (v AND 0x7F) :: u8) = ucast v"
proof -
  assume a: "drop_bit 7 v = 0"
  have "bit v n \<Longrightarrow> n < 7" for n
  proof (rule ccontr)
    assume "bit v n" and "\<not> n < 7"
    then have "bit (drop_bit 7 v) (n - 7)" by (simp add: bit_drop_bit_eq)
    with a show False by simp
  qed
  then have "v AND mask 7 = v" by (intro bit_word_eqI) (auto simp: bit_simps)
  then show ?thesis by (simp add: mask_eq_exp_minus_1)
qed

lemma low7_or: "(ucast ((v :: u64) AND 0x7F) OR 0x80 :: u8) = ucast v OR 0x80"
proof -
  have "(ucast (v AND mask 7) OR push_bit 7 1 :: u8) = ucast v OR push_bit 7 1"
  proof (rule bit_word_eqI)
    fix n assume "n < LENGTH(8)"
    then show "bit (ucast (v AND mask 7) OR push_bit 7 1 :: u8) n = bit (ucast v OR push_bit 7 1 :: u8) n"
      by (cases "n = 7") (auto simp: bit_simps)
  qed
  then show ?thesis by (simp add: mask_eq_exp_minus_1)
qed

lemma write_varint_loop_eq: "write_varint_loop v b = b @ varint v"
proof (induction v b rule: write_varint_loop.induct)
  case (1 v b)
  show ?case
    by (cases "drop_bit 7 v = 0")
      (simp_all add: write_varint_loop.simps [of v] varint.simps [of v] Let_def low7_all low7_or 1)
qed

lemma push_varint_eq: "push_varint b v = b @ varint v"
proof (induction b v rule: push_varint.induct)
  case (1 b v)
  show ?case
    by (cases "drop_bit 7 v = 0")
      (simp_all add: push_varint.simps [of b] varint.simps [of v] Let_def low7_all low7_or 1 [OF refl refl, unfolded low7_or])
qed
lemma push_varint_write_varint: "push_varint b v = write_varint_loop v b"
  by (simp add: push_varint_eq write_varint_loop_eq)

lemma varint_nonempty [simp]: "varint v \<noteq> []"
  by (subst varint.simps) simp

text \<open>Seven bits a byte: a 64-bit value takes at most ten.\<close>

lemma varint_length_le: "drop_bit (7 * n) v = 0 \<Longrightarrow> length (varint v) \<le> max 1 n"
proof (induction v arbitrary: n rule: varint.induct)
  case (1 v)
  show ?case
  proof (cases "drop_bit 7 v = 0")
    case True
    then show ?thesis by (simp add: varint.simps [of v])
  next
    case False
    then obtain k where n: "n = Suc k" using "1.prems" by (cases n) auto
    have "drop_bit (7 * k) (drop_bit 7 v) = 0" using "1.prems" n by (simp add: drop_bit_drop_bit add.commute)
    then have "length (varint (drop_bit 7 v)) \<le> max 1 k" by (rule "1.IH" [OF False])
    moreover have "k \<noteq> 0" using False "1.prems" n by (cases k) simp_all
    ultimately show ?thesis using False n by (simp add: varint.simps [of v])
  qed
qed

lemma varint_length: "length (varint v) \<le> 10"
proof -
  have "drop_bit (7 * 10) v = 0" by (rule bit_word_eqI) (simp add: bit_simps)
  then show ?thesis using varint_length_le [of 10 v] by simp
qed

lemma length_to_le [simp]: "length (to_le n w) = n"
  by (induction n arbitrary: w) simp_all

text \<open>What each writer operation appends; the alignment mark is not part of the bytes.\<close>

lemma buf_writer_new [layout_simps]: "buf writer_new = []"
  by (simp add: writer_new_def)

lemma buf_write_byte [layout_simps]: "buf (write_byte b w) = buf w @ [b]"
  by (simp add: write_byte_def)

lemma buf_write_bytes [layout_simps]: "buf (write_bytes bs w) = buf w @ bs"
  by (simp add: write_bytes_def)

lemma buf_write_varint [layout_simps]: "buf (write_varint v w) = buf w @ varint v"
  by (simp add: write_varint_def write_varint_loop_eq)

lemma buf_write_signed_varint [layout_simps]:
  "buf (write_signed_varint v w) = buf w @ varint (zigzag v)"
  by (simp add: write_signed_varint_def layout_simps)

lemma buf_write_le [layout_simps]:
  "buf (write_le_u32 u w) = buf w @ to_le 4 u"
  "buf (write_le_u64 v w) = buf w @ to_le 8 v"
  "buf (write_le_i32 u w) = buf w @ to_le 4 u"
  "buf (write_le_i64 v w) = buf w @ to_le 8 v"
  by (simp_all add: write_le_u32_def write_le_u64_def write_le_i32_def write_le_i64_def)

lemma buf_fold_appending:
  assumes "\<And>x w. buf (f x w) = buf w @ g x"
  shows "buf (fold f xs w) = buf w @ concat (map g xs)"
  by (induction xs arbitrary: w) (simp_all add: assms)

definition var_size_i64 :: "i64 list \<Rightarrow> bytes" where
  "var_size_i64 vs = varint (as_u64 (length vs)) @ concat (map (to_le 8) vs)"

definition var_size_i32 :: "i32 list \<Rightarrow> bytes" where
  "var_size_i32 vs = varint (as_u64 (length vs)) @ concat (map (to_le 4) vs)"

lemma buf_write_le_var_size [layout_simps]:
  "buf (write_le_var_size_i64 vs w) = buf w @ var_size_i64 vs"
  "buf (write_le_var_size_i32 us w) = buf w @ var_size_i32 us"
  by (simp_all add: write_le_var_size_i64_def write_le_var_size_i32_def var_size_i64_def
        var_size_i32_def layout_simps buf_fold_appending [where g = "to_le 8"]
        buf_fold_appending [where g = "to_le 4"])

end
