(* ===== verification/Reader.thy ===== *)
theory Reader
  imports Encoding
begin

text \<open>
  The low-level reader of the decoder (\<open>struct Reader\<close> in
  \<open>cutile-ir/src/bytecode/decoder.rs\<close>), the mirror of the encoder. A reader is a byte
  slice and a position; every read checks what is left. The interface between the two
  sides is the locale \<open>codec\<close>: a writer's bytes, read back at any position, give the
  value and advance the reader past exactly those bytes. Its interpretations on the
  model's own operations carry the round trips of every section.
\<close>

datatype decode_error =
    UnexpectedEnd | VarintOverflow | BadPadding u8 | InvalidMagic
  | ProducerIndexOutOfRange | DebugAttributeOffsets | DebugIndexOffsets | UnknownDebugTag u8

record Reader =
  data :: bytes
  pos :: nat

definition reader_new :: "bytes \<Rightarrow> Reader" where
  "reader_new d = \<lparr>data = d, pos = 0\<rparr>"

definition remaining :: "Reader \<Rightarrow> nat" where
  "remaining r = length (data r) - pos r"

definition read_byte :: "Reader \<Rightarrow> (decode_error, u8 \<times> Reader) res" where
  "read_byte r =
     (if pos r \<ge> length (data r) then Inl (Err UnexpectedEnd)
      else Inr (data r ! pos r, r\<lparr>pos := pos r + 1\<rparr>))"

text \<open>
  \<open>self.pos + n\<close> is \<open>usize\<close> arithmetic. Past the range it panics in a debug build; in a
  release build it wraps below \<open>pos\<close>, passes the length test, and the slice
  \<open>pos..pos + n\<close> panics.
\<close>

definition read_bytes :: "nat \<Rightarrow> Reader \<Rightarrow> (decode_error, bytes \<times> Reader) res" where
  "read_bytes n r =
     (if pos r + n \<ge> usize_top then Inl Panic
      else if pos r + n > length (data r) then Inl (Err UnexpectedEnd)
      else and_then (slice_of (data r) (pos r) (pos r + n))
             (\<lambda>slice. Inr (slice, r\<lparr>pos := pos r + n\<rparr>)))"

function read_varint_loop :: "u64 \<Rightarrow> nat \<Rightarrow> Reader \<Rightarrow> (decode_error, u64 \<times> Reader) res" where
  "read_varint_loop result shift r =
     and_then (read_byte r) (\<lambda>(b, r).
       let result' = result OR push_bit shift (ucast (b AND 0x7F))
       in if b AND 0x80 = 0 then Inr (result', r)
          else if shift + 7 > 63 then Inl (Err VarintOverflow)
          else read_varint_loop result' (shift + 7) r)"
  by pat_completeness auto
termination
  by (relation "measure (\<lambda>(res, sh, r). 70 - sh)") auto

declare read_varint_loop.simps [simp del]

definition read_varint :: "Reader \<Rightarrow> (decode_error, u64 \<times> Reader) res" where
  "read_varint r = read_varint_loop 0 0 r"

text \<open>Zigzag decoding: \<open>((v >> 1) as i64) ^ (-((v & 1) as i64))\<close>.\<close>

definition unzigzag :: "u64 \<Rightarrow> i64" where
  "unzigzag v = drop_bit 1 v XOR (- (v AND 1))"

definition read_signed_varint :: "Reader \<Rightarrow> (decode_error, i64 \<times> Reader) res" where
  "read_signed_varint r = and_then (read_varint r) (\<lambda>(v, r). Inr (unzigzag v, r))"

text \<open>\<open>from_le_bytes\<close>.\<close>

fun from_le :: "bytes \<Rightarrow> 'a::len word" where
  "from_le [] = 0"
| "from_le (b # bs) = ucast b OR push_bit 8 (from_le bs)"

definition read_le_u8 :: "Reader \<Rightarrow> (decode_error, u8 \<times> Reader) res" where
  "read_le_u8 r = read_byte r"

definition read_le_u16 :: "Reader \<Rightarrow> (decode_error, u16 \<times> Reader) res" where
  "read_le_u16 r = and_then (read_bytes 2 r) (\<lambda>(bs, r). Inr (from_le bs, r))"

definition read_le_u32 :: "Reader \<Rightarrow> (decode_error, u32 \<times> Reader) res" where
  "read_le_u32 r = and_then (read_bytes 4 r) (\<lambda>(bs, r). Inr (from_le bs, r))"

definition read_le_i64 :: "Reader \<Rightarrow> (decode_error, i64 \<times> Reader) res" where
  "read_le_i64 r = and_then (read_bytes 8 r) (\<lambda>(bs, r). Inr (from_le bs, r))"

definition read_le_i32 :: "Reader \<Rightarrow> (decode_error, i32 \<times> Reader) res" where
  "read_le_i32 r = and_then (read_bytes 4 r) (\<lambda>(bs, r). Inr (from_le bs, r))"

text \<open>
  \<open>u64::from_le_bytes(r.read_bytes(8)?.try_into().unwrap())\<close>, as the constant and debug
  sections read their tables.
\<close>

definition read_le_u64 :: "Reader \<Rightarrow> (decode_error, u64 \<times> Reader) res" where
  "read_le_u64 r = and_then (read_bytes 8 r) (\<lambda>(bs, r). Inr (from_le bs, r))"

fun skip_bytes :: "nat \<Rightarrow> Reader \<Rightarrow> (decode_error, Reader) res" where
  "skip_bytes 0 r = Inr r"
| "skip_bytes (Suc n) r =
     and_then (read_byte r) (\<lambda>(b, r).
       if b \<noteq> ALIGNMENT_BYTE then Inl (Err (BadPadding b)) else skip_bytes n r)"

definition skip_padding :: "u64 \<Rightarrow> Reader \<Rightarrow> (decode_error, Reader) res" where
  "skip_padding alignment r =
     (if alignment < 2 then Inr r else skip_bytes (padding_to alignment (pos r)) r)"

definition read_header :: "Reader \<Rightarrow> (decode_error, BytecodeVersion \<times> Reader) res" where
  "read_header r =
     and_then (read_bytes 8 r) (\<lambda>(magic, r).
       if magic \<noteq> MAGIC then Inl (Err InvalidMagic)
       else and_then (read_le_u8 r) (\<lambda>(ma, r).
            and_then (read_le_u8 r) (\<lambda>(mi, r).
            and_then (read_le_u16 r) (\<lambda>(tg, r).
              Inr (BytecodeVersion ma mi tg, r)))))"

record SectionHeader =
  sh_id :: u8
  sh_data_len :: nat

definition read_section_header :: "Reader \<Rightarrow> (decode_error, SectionHeader \<times> Reader) res" where
  "read_section_header r =
     and_then (read_byte r) (\<lambda>(id_and_align, r).
       let id = id_and_align AND 0x7F; has_alignment = (id_and_align AND 0x80 \<noteq> 0)
       in if id = section_id Section_EndOfBytecode
          then Inr (\<lparr>sh_id = id, sh_data_len = 0\<rparr>, r)
          else and_then (read_varint r) (\<lambda>(length, r).
                 and_then (if has_alignment
                           then and_then (read_varint r) (\<lambda>(alignment, r). skip_padding alignment r)
                           else Inr r)
                   (\<lambda>r. Inr (\<lparr>sh_id = id, sh_data_len = as_usize length\<rparr>, r))))"

section \<open>What is left to read\<close>

text \<open>
  \<open>at r bs\<close>: the reader is well formed and the bytes still to come are \<open>bs\<close>. A Rust
  slice is shorter than \<open>isize::MAX\<close>.
\<close>

definition at :: "Reader \<Rightarrow> bytes \<Rightarrow> bool" where
  "at r bs \<longleftrightarrow> pos r \<le> length (data r) \<and> length (data r) < isize_top \<and> drop (pos r) (data r) = bs"

definition advance :: "nat \<Rightarrow> Reader \<Rightarrow> Reader" where
  "advance n r = r\<lparr>pos := pos r + n\<rparr>"

lemma at_new: "length d < isize_top \<Longrightarrow> at (reader_new d) d"
  by (simp add: at_def reader_new_def)

lemma at_remaining: "at r bs \<Longrightarrow> remaining r = length bs"
  by (auto simp: at_def remaining_def)

lemma at_length: "at r bs \<Longrightarrow> pos r + length bs = length (data r)"
  by (auto simp: at_def)

lemma advance_advance [simp]: "advance m (advance n r) = advance (n + m) r"
  by (simp add: advance_def)

lemma advance_simps [simp]: "data (advance n r) = data r" "pos (advance n r) = pos r + n"
  by (simp_all add: advance_def)

lemma at_advance: "at r (xs @ ys) \<Longrightarrow> at (advance (length xs) r) ys"
proof -
  assume a: "at r (xs @ ys)"
  then have "pos r + length xs \<le> length (data r)" using at_length [OF a] by simp
  moreover have "drop (pos r + length xs) (data r) = ys"
    using a by (simp add: at_def add.commute [of "pos r"] flip: drop_drop)
  ultimately show ?thesis using a by (simp add: at_def)
qed

lemma at_advance_1: "at r (b # ys) \<Longrightarrow> at (advance 1 r) ys"
  using at_advance [of r "[b]" ys] by simp

lemma read_byte_at: "at r (b # bs) \<Longrightarrow> read_byte r = Inr (b, advance 1 r)"
proof -
  assume a: "at r (b # bs)"
  have l: "pos r < length (data r)" using at_length [OF a] by simp
  have "data r ! pos r = hd (drop (pos r) (data r))" using l by (simp add: hd_drop_conv_nth)
  also have "\<dots> = b" using a by (simp add: at_def)
  finally show ?thesis using l by (simp add: read_byte_def advance_def)
qed

lemma read_byte_at_end: "at r [] \<Longrightarrow> read_byte r = Inl (Err UnexpectedEnd)"
  by (auto simp: read_byte_def dest: at_length)

lemma read_bytes_at:
  assumes "at r (xs @ ys)" and "n = length xs"
  shows "read_bytes n r = Inr (xs, advance n r)"
proof -
  have "pos r + n \<le> length (data r)" using at_length [OF assms(1)] assms(2) by simp
  moreover have "length (data r) < isize_top" using assms(1) by (simp add: at_def)
  moreover have "take n (drop (pos r) (data r)) = xs" using assms by (simp add: at_def)
  ultimately show ?thesis by (simp add: read_bytes_def slice_of_def advance_def)
qed

section \<open>The interface of a wire format\<close>

text \<open>The loop \<open>for _ in 0..n { v.push(read()?) }\<close>.\<close>

fun read_many :: "(Reader \<Rightarrow> ('e, 'a \<times> Reader) res) \<Rightarrow> nat \<Rightarrow> Reader \<Rightarrow> ('e, 'a list \<times> Reader) res"
  where
  "read_many rd 0 r = Inr ([], r)"
| "read_many rd (Suc n) r =
     and_then (rd r) (\<lambda>(x, r). and_then (read_many rd n r) (\<lambda>(xs, r). Inr (x # xs, r)))"

locale codec =
  fixes enc :: "'a \<Rightarrow> bytes"
    and dec :: "Reader \<Rightarrow> (decode_error, 'a \<times> Reader) res"
  assumes decode_encoded: "at r (enc x @ rest) \<Longrightarrow> dec r = Inr (x, advance (length (enc x)) r)"
begin

lemma decode_encoded_end: "at r (enc x) \<Longrightarrow> dec r = Inr (x, advance (length (enc x)) r)"
  using decode_encoded [of r x "[]"] by simp

lemma read_many_encoded:
  "at r (concat (map enc xs) @ rest) \<Longrightarrow>
   read_many dec (length xs) r = Inr (xs, advance (length (concat (map enc xs))) r)"
proof (induction xs arbitrary: r)
  case (Cons x xs)
  then have a: "at r (enc x @ concat (map enc xs) @ rest)" by simp
  have "at (advance (length (enc x)) r) (concat (map enc xs) @ rest)"
    by (rule at_advance [OF a])
  then show ?case using Cons.IH decode_encoded [OF a] by simp
qed (simp add: advance_def)

text \<open>The encoding is injective and prefix-free: the next field starts in one place only.\<close>

lemma encoded_unique:
  assumes "enc x @ xs = enc y @ ys" and "length (enc x @ xs) < isize_top"
  shows "x = y \<and> xs = ys"
proof -
  have x: "at (reader_new (enc x @ xs)) (enc x @ xs)" using assms(2) by (rule at_new)
  then have y: "at (reader_new (enc x @ xs)) (enc y @ ys)" using assms(1) by simp
  have "x = y" using decode_encoded [OF x] decode_encoded [OF y] by simp
  with assms(1) show ?thesis by simp
qed

end

section \<open>Round trips of the primitive formats\<close>

interpretation byte: codec "\<lambda>b. [b]" read_byte
  by unfold_locales (simp add: read_byte_at)

lemma from_le_to_le: "(from_le (to_le n w) :: 'a::len word) = take_bit (8 * n) w"
proof (induction n arbitrary: w)
  case (Suc n)
  have "(ucast (ucast w :: u8) OR push_bit 8 (take_bit (8 * n) (drop_bit 8 w)) :: 'a word)
      = take_bit (8 * Suc n) w"
    by (rule bit_word_eqI) (auto simp: bit_simps)
  then show ?case by (simp add: Suc)
qed simp

lemma le_codec:
  assumes "LENGTH('a::len) = 8 * n" and "\<And>r. dec r = and_then (read_bytes n r) (\<lambda>(bs, r). Inr (from_le bs :: 'a word, r))"
  shows "codec (to_le n :: 'a word \<Rightarrow> bytes) dec"
proof
  fix r rest and x :: "'a word"
  assume a: "at r (to_le n x @ rest)"
  have "read_bytes n r = Inr (to_le n x, advance n r)" by (rule read_bytes_at [OF a]) simp
  then show "dec r = Inr (x, advance (length (to_le n x)) r)"
    using assms(1) by (simp add: assms(2) from_le_to_le take_bit_word_eq_self)
qed

interpretation le_u16: codec "to_le 2" read_le_u16
  by (rule le_codec) (simp_all add: read_le_u16_def)

interpretation le_u32: codec "to_le 4" read_le_u32
  by (rule le_codec) (simp_all add: read_le_u32_def)

interpretation le_u64: codec "to_le 8" read_le_u64
  by (rule le_codec) (simp_all add: read_le_u64_def)

interpretation le_i32: codec "to_le 4" read_le_i32
  by (rule le_codec) (simp_all add: read_le_i32_def)

interpretation le_i64: codec "to_le 8" read_le_i64
  by (rule le_codec) (simp_all add: read_le_i64_def)

text \<open>
  The variable-length reader, from any bit position: the value must fit in the bits that
  are left, and then the accumulator receives exactly its bits.
\<close>

lemma cont_bit_clear: "drop_bit 7 (v :: u64) = 0 \<Longrightarrow> (ucast v :: u8) AND 0x80 = 0"
proof -
  assume a: "drop_bit 7 v = 0"
  have "\<not> bit v 7"
  proof
    assume "bit v 7"
    then have "bit (drop_bit 7 v) 0" by (simp add: bit_drop_bit_eq)
    with a show False by simp
  qed
  moreover have "(ucast v :: u8) AND push_bit 7 1 = 0 \<longleftrightarrow> \<not> bit (ucast v :: u8) 7"
    using and_exp_eq_0_iff_not_bit [of "ucast v :: u8" 7] by simp
  ultimately show ?thesis by (simp add: bit_simps)
qed

lemma cont_bit_set: "(x OR 0x80 :: u8) AND 0x80 \<noteq> 0"
proof -
  have "bit (x OR 0x80 :: u8) 7" by (simp add: bit_simps)
  then show ?thesis using and_exp_eq_0_iff_not_bit [of "x OR 0x80 :: u8" 7] by simp
qed

lemma mask7_u8: "(0x7F :: u8) = mask 7"
  by (simp add: mask_eq_exp_minus_1)

lemma exp7_u8: "(0x80 :: u8) = 2 ^ 7"
  by simp

lemma low7_of_cont: "(ucast ((ucast v OR 0x80 :: u8) AND 0x7F) :: u64) = v AND mask 7"
  unfolding mask7_u8 exp7_u8
  by (rule bit_word_eqI)
    (auto simp only: bit_and_iff bit_or_iff bit_unsigned_iff bit_mask_iff bit_exp_iff possible_bit_word
       word_size len_of_numeral_defs; simp)

lemma low7_of_last: "drop_bit 7 (v :: u64) = 0 \<Longrightarrow> (ucast ((ucast v :: u8) AND 0x7F) :: u64) = v"
proof (rule bit_word_eqI)
  fix n assume a: "drop_bit 7 v = 0"
  have "bit v n \<Longrightarrow> n < 7"
  proof (rule ccontr)
    assume "bit v n" and "\<not> n < 7"
    then have "bit (drop_bit 7 v) (n - 7)" by (simp add: bit_drop_bit_eq)
    with a show False by simp
  qed
  then show "bit (ucast ((ucast v :: u8) AND 0x7F) :: u64) n = bit v n"
    unfolding mask7_u8
    by (auto simp only: bit_and_iff bit_unsigned_iff bit_mask_iff possible_bit_word; simp)
qed

lemma or_split_7: "(v :: u64) AND mask 7 OR push_bit 7 (drop_bit 7 v) = v"
proof (rule bit_word_eqI)
  fix n assume "n < LENGTH(64)"
  then show "bit (v AND mask 7 OR push_bit 7 (drop_bit 7 v)) n = bit v n"
    by (cases "n < 7") (auto simp: bit_simps)
qed

lemma drop_bit_7_room:
  fixes v :: u64
  assumes "drop_bit (64 - shift) v = 0" and "drop_bit 7 v \<noteq> 0" and "shift \<le> 63"
  shows "shift + 7 \<le> 63" and "drop_bit (64 - (shift + 7)) (drop_bit 7 v) = 0"
proof -
  show "shift + 7 \<le> 63"
  proof (rule ccontr)
    assume "\<not> shift + 7 \<le> 63"
    then have "drop_bit 7 v = drop_bit (7 - (64 - shift)) (drop_bit (64 - shift) v)"
      using assms(3) by (simp add: drop_bit_drop_bit)
    then show False using assms(1,2) by simp
  qed
  then show "drop_bit (64 - (shift + 7)) (drop_bit 7 v) = 0"
    using assms(1) by (simp add: drop_bit_drop_bit)
qed

lemma read_varint_loop_at:
  assumes "at r (varint v @ rest)" and "shift \<le> 63" and "drop_bit (64 - shift) v = 0"
  shows "read_varint_loop acc shift r = Inr (acc OR push_bit shift v, advance (length (varint v)) r)"
  using assms
proof (induction v arbitrary: acc shift r rule: varint.induct)
  case (1 v)
  show ?case
  proof (cases "drop_bit 7 v = 0")
    case True
    then have "read_byte r = Inr (ucast v, advance 1 r)"
      using "1.prems"(1) by (intro read_byte_at [where bs = rest]) (simp add: varint.simps [of v])
    then show ?thesis using True
      by (simp add: read_varint_loop.simps [of acc] varint.simps [of v] cont_bit_clear low7_of_last)
  next
    case False
    let ?r = "advance 1 r"
    have a: "at r ((ucast v OR 0x80) # varint (drop_bit 7 v) @ rest)"
      using "1.prems"(1) False by (simp add: varint.simps [of v])
    note room = drop_bit_7_room [OF "1.prems"(3) False "1.prems"(2)]
    let ?acc = "acc OR push_bit shift (v AND mask 7)"
    have "read_varint_loop acc shift r = read_varint_loop ?acc (shift + 7) ?r"
      using room(1) by (simp add: read_varint_loop.simps [of acc shift] read_byte_at [OF a] cont_bit_set low7_of_cont)
    also have "\<dots> = Inr (?acc OR push_bit (shift + 7) (drop_bit 7 v),
                       advance (length (varint (drop_bit 7 v))) ?r)"
      by (rule "1.IH" [OF False at_advance_1 [OF a] room])
    also have "?acc OR push_bit (shift + 7) (drop_bit 7 v) = acc OR push_bit shift v"
    proof -
      have "push_bit shift (v AND mask 7) OR push_bit (shift + 7) (drop_bit 7 v)
          = push_bit shift (v AND mask 7 OR push_bit 7 (drop_bit 7 v))"
        by (simp add: push_bit_or push_bit_push_bit)
      then show ?thesis by (simp only: or_split_7 or.assoc)
    qed
    finally show ?thesis using False by (simp add: varint.simps [of v])
  qed
qed

interpretation varint: codec varint read_varint
proof
  fix r v rest
  assume "at r (varint v @ rest)"
  from read_varint_loop_at [OF this, of 0 0] show
    "read_varint r = Inr (v, advance (length (varint v)) r)"
    by (simp add: read_varint_def)
qed

lemma unzigzag_zigzag [simp]: "unzigzag (zigzag v) = v"
proof (rule bit_word_eqI)
  fix n assume n: "n < LENGTH(64)"
  have z: "bit (zigzag v) k \<longleftrightarrow> (if k = 0 then bit v 63 else bit v (k - 1) \<noteq> bit v 63)" if "k < 64" for k
    using that unfolding zigzag_def bit_xor_iff bit_push_bit_iff bit_signed_drop_bit_iff
    by (auto simp: possible_bit_word)
  have "zigzag v AND 1 = of_bool (bit v 63)"
    using z [of 0] by (simp add: and_one_eq mod_2_eq_odd bit_0)
  then show "bit (unzigzag (zigzag v)) n = bit v n"
    using n z [of "Suc n"] bit_imp_le_length [of "zigzag v" 64]
    by (cases "n = 63") (auto simp: unzigzag_def bit_simps)
qed

text \<open>The reader sign-extends what the writer folded.\<close>

interpretation signed_varint: codec "\<lambda>v. varint (zigzag v)" read_signed_varint
proof
  fix r v rest
  assume "at r (varint (zigzag v) @ rest)"
  then show "read_signed_varint r = Inr (v, advance (length (varint (zigzag v))) r)"
    by (simp add: read_signed_varint_def varint.decode_encoded)
qed

lemma skip_bytes_at:
  "at r (replicate n ALIGNMENT_BYTE @ rest) \<Longrightarrow> skip_bytes n r = Inr (advance n r)"
proof (induction n arbitrary: r)
  case (Suc n)
  then have a: "at r (ALIGNMENT_BYTE # replicate n ALIGNMENT_BYTE @ rest)" by simp
  from Suc.IH [OF at_advance_1 [OF a]] show ?case by (simp add: read_byte_at [OF a])
qed (simp add: advance_def)

definition pad_bytes :: "u64 \<Rightarrow> nat \<Rightarrow> bytes" where
  "pad_bytes a p = (if a < 2 then [] else replicate (padding_to a p) ALIGNMENT_BYTE)"

lemma buf_align_to_pad [layout_simps]: "buf (align_to a w) = buf w @ pad_bytes a (length (buf w))"
  by (simp add: align_to_def pad_bytes_def)

lemma length_pad_bytes: "length (pad_bytes a p) \<le> unat a"
proof (cases "a < 2")
  case False
  then have "0 < a" by (auto simp: word_gt_0)
  then have "(a - as_u64 p mod a) mod a < a" by (rule word_mod_less_divisor)
  then show ?thesis using False by (simp add: pad_bytes_def padding_to_def word_less_nat_alt)
qed (simp add: pad_bytes_def)

lemma skip_padding_at:
  "at r (pad_bytes a (pos r) @ rest) \<Longrightarrow>
   skip_padding a r = Inr (advance (length (pad_bytes a (pos r))) r)"
  by (auto simp: skip_padding_def pad_bytes_def advance_def intro: skip_bytes_at [unfolded advance_def] split: if_splits)

text \<open>Padding brings the position to the next multiple of the alignment, and no further.\<close>

lemma unat_padding:
  assumes "1 < unat a" and "p < usize_top"
  shows "padding_to a p = (unat a - p mod unat a) mod unat a"
proof -
  have le: "p mod unat a < unat a" using assms(1) by simp
  have m: "unat (as_u64 p mod a) = p mod unat a" using assms(2) by (simp add: unat_mod_distrib)
  have "as_u64 p mod a \<le> a" using m le by (simp add: word_le_nat_alt)
  then have "unat (a - (as_u64 p mod a)) = unat a - p mod unat a"
    by (simp add: unat_sub m)
  then show ?thesis by (simp add: padding_to_def unat_mod_distrib)
qed

lemma padding_aligns:
  assumes "1 < unat a" and "p < usize_top"
  shows "(p + padding_to a p) mod unat a = 0" and "padding_to a p < unat a"
proof -
  show "padding_to a p < unat a" using assms by (simp add: unat_padding)
  have "p mod unat a \<le> unat a" using assms(1) by (simp add: less_imp_le)
  then have "(p + (unat a - p mod unat a)) mod unat a = 0"
    by (metis Nat.add_diff_assoc add.commute diff_add_inverse mod_add_self2 mod_mod_trivial
        minus_mod_eq_mult_div mod_mult_self1_is_0 add_diff_cancel_left' le_add_diff_inverse2 mod_add_left_eq)
  then show "(p + padding_to a p) mod unat a = 0"
    using assms by (simp add: unat_padding mod_add_right_eq)
qed

section \<open>Stepping through a payload\<close>

text \<open>
  A reader between what it has consumed and what is to come. In this form the round
  trips chain by rewriting alone: each read moves one encoded field from the right to
  the left.
\<close>

definition reader_at :: "bytes \<Rightarrow> bytes \<Rightarrow> Reader" where
  "reader_at pre suf = \<lparr>data = pre @ suf, pos = length pre\<rparr>"

named_theorems reader_steps
  \<open>reads of a reader that stands before an encoded field\<close>

lemma reader_new_at [reader_steps]: "reader_new d = reader_at [] d"
  by (simp add: reader_new_def reader_at_def)

lemma at_reader_at: "length pre + length suf < isize_top \<Longrightarrow> at (reader_at pre suf) suf"
  by (simp add: at_def reader_at_def)

lemma advance_reader_at: "advance (length xs) (reader_at pre (xs @ ys)) = reader_at (pre @ xs) ys"
  by (simp add: reader_at_def advance_def)

lemma remaining_reader_at [reader_steps]: "remaining (reader_at pre suf) = length suf"
  by (simp add: reader_at_def remaining_def)

lemma read_byte_step [reader_steps]: "read_byte (reader_at pre (b # bs)) = Inr (b, reader_at (pre @ [b]) bs)"
  by (simp add: reader_at_def read_byte_def)

lemma read_bytes_step:
  "n = length xs \<Longrightarrow> length pre + (length xs + length ys) < isize_top \<Longrightarrow>
   read_bytes n (reader_at pre (xs @ ys)) = Inr (xs, reader_at (pre @ xs) ys)"
  by (simp add: reader_at_def read_bytes_def slice_of_def)

lemma read_rest_step [reader_steps]:
  "length pre + length xs < isize_top \<Longrightarrow>
   read_bytes (length xs) (reader_at pre xs) = Inr (xs, reader_at (pre @ xs) [])"
  using read_bytes_step [of "length xs" xs pre "[]"] by simp

lemma skip_padding_step [reader_steps]:
  assumes "n = length pre"
    and "length pre + (length (pad_bytes a n) + length ys) < isize_top"
  shows "skip_padding a (reader_at pre (pad_bytes a n @ ys)) = Inr (reader_at (pre @ pad_bytes a n) ys)"
  using skip_padding_at [of "reader_at pre (pad_bytes a n @ ys)" a ys] assms
    at_reader_at [of pre "pad_bytes a n @ ys"] advance_reader_at [of "pad_bytes a n" pre ys]
  by (simp add: reader_at_def)

context codec
begin

lemma step:
  "length pre + (length (enc x) + length rest) < isize_top \<Longrightarrow>
   dec (reader_at pre (enc x @ rest)) = Inr (x, reader_at (pre @ enc x) rest)"
  using decode_encoded [of "reader_at pre (enc x @ rest)" x rest] at_reader_at [of pre "enc x @ rest"]
  by (simp add: advance_reader_at)

lemma step_end:
  "length pre + length (enc x) < isize_top \<Longrightarrow>
   dec (reader_at pre (enc x)) = Inr (x, reader_at (pre @ enc x) [])"
  using step [of pre x "[]"] by simp

lemma read_many_step:
  "n = length xs \<Longrightarrow> length pre + (length (concat (map enc xs)) + length rest) < isize_top \<Longrightarrow>
   read_many dec n (reader_at pre (concat (map enc xs) @ rest)) = Inr (xs, reader_at (pre @ concat (map enc xs)) rest)"
  using read_many_encoded [of "reader_at pre (concat (map enc xs) @ rest)" xs rest]
    at_reader_at [of pre "concat (map enc xs) @ rest"]
  by (simp add: advance_reader_at)

end

text \<open>The other direction: a reader that steps over every encoding is a codec.\<close>

lemma codecI:
  assumes "\<And>pre x rest. length pre + (length (enc x) + length rest) < isize_top \<Longrightarrow>
    dec (reader_at pre (enc x @ rest)) = Inr (x, reader_at (pre @ enc x) rest)"
  shows "codec enc dec"
proof
  fix r x rest assume a: "at r (enc x @ rest)"
  have r: "r = reader_at (take (pos r) (data r)) (enc x @ rest)"
    using a append_take_drop_id [of "pos r" "data r"] by (simp add: at_def reader_at_def min_absorb2)
  have "length (take (pos r) (data r)) + (length (enc x) + length rest) < isize_top"
    using a at_length [OF a] by (simp add: at_def min_absorb2)
  from assms [OF this] show "dec r = Inr (x, advance (length (enc x)) r)"
    using r advance_reader_at [of "enc x" "take (pos r) (data r)" rest] by simp
qed

declare varint.step [reader_steps] varint.step_end [reader_steps]

end
