(* ===== verification/Opcode.thy ===== *)
theory Opcode
  imports Enums
begin

text \<open>
  The frozen opcode assignments (\<open>cutile-ir/src/bytecode/opcode.rs\<close>): the operations, the
  number each has on the wire, its dialect name, and the result count the bytecode
  reader expects for the operations that do not write one.
\<close>

datatype (plugins only: size) Opcode =
    Op_AbsF | Op_AbsI | Op_AddF | Op_AddI | Op_AndI | Op_Assert | Op_Assume | Op_AtomicCAS
  | Op_AtomicRMW | Op_Bitcast | Op_Break | Op_Broadcast | Op_Cat | Op_Ceil | Op_CmpF | Op_CmpI
  | Op_Constant | Op_Continue | Op_Cos | Op_CosH | Op_DivF | Op_DivI | Op_Entry | Op_Exp
  | Op_Exp2 | Op_ExtI | Op_Extract | Op_Floor | Op_Fma | Op_For | Op_FToF | Op_FToI
  | Op_GetGlobal | Op_GetIndexSpaceShape | Op_GetNumTileBlocks | Op_GetTensorShape
  | Op_GetTileBlockId | Op_Global | Op_If | Op_IntToPtr | Op_Iota | Op_IToF | Op_JoinTokens
  | Op_LoadPtrTko | Op_LoadViewTko | Op_Log | Op_Log2 | Op_Loop | Op_MakePartitionView
  | Op_MakeTensorView | Op_MakeToken | Op_MaxF | Op_MaxI | Op_MinF | Op_MinI | Op_MmaF
  | Op_MmaI | Op_Module | Op_MulF | Op_MulhiI | Op_MulI | Op_NegF | Op_NegI | Op_Offset
  | Op_OrI | Op_Permute | Op_Pow | Op_Print | Op_PtrToInt | Op_PtrToPtr | Op_Reduce | Op_RemF
  | Op_RemI | Op_Reshape | Op_Return | Op_Rsqrt | Op_Scan | Op_Select | Op_ShLI | Op_ShRI
  | Op_Sin | Op_SinH | Op_Sqrt | Op_StorePtrTko | Op_StoreViewTko | Op_SubF | Op_SubI | Op_Tan
  | Op_TanH | Op_TruncI | Op_XOrI | Op_Yield | Op_Atan2 | Op_Pack | Op_Unpack | Op_Alloca
  | Op_MmaFScaled | Op_MakeGatherScatterView | Op_MakeStridedView | Op_AtomicRedViewTko
  | Op_Insert | Op_GdcLaunchDependentsTko | Op_GdcWaitTko | Op_FPowI | Op_MemoryFenceAliasTko

primrec as_u16 :: "Opcode \<Rightarrow> u16" where
  "as_u16 Op_AbsF = 0x00"
| "as_u16 Op_AbsI = 0x01"
| "as_u16 Op_AddF = 0x02"
| "as_u16 Op_AddI = 0x03"
| "as_u16 Op_AndI = 0x04"
| "as_u16 Op_Assert = 0x05"
| "as_u16 Op_Assume = 0x06"
| "as_u16 Op_AtomicCAS = 0x07"
| "as_u16 Op_AtomicRMW = 0x08"
| "as_u16 Op_Bitcast = 0x09"
| "as_u16 Op_Break = 0x0A"
| "as_u16 Op_Broadcast = 0x0B"
| "as_u16 Op_Cat = 0x0C"
| "as_u16 Op_Ceil = 0x0D"
| "as_u16 Op_CmpF = 0x0E"
| "as_u16 Op_CmpI = 0x0F"
| "as_u16 Op_Constant = 0x10"
| "as_u16 Op_Continue = 0x11"
| "as_u16 Op_Cos = 0x12"
| "as_u16 Op_CosH = 0x13"
| "as_u16 Op_DivF = 0x14"
| "as_u16 Op_DivI = 0x15"
| "as_u16 Op_Entry = 0x16"
| "as_u16 Op_Exp = 0x17"
| "as_u16 Op_Exp2 = 0x18"
| "as_u16 Op_ExtI = 0x25"
| "as_u16 Op_Extract = 0x26"
| "as_u16 Op_Floor = 0x27"
| "as_u16 Op_Fma = 0x28"
| "as_u16 Op_For = 0x29"
| "as_u16 Op_FToF = 0x2A"
| "as_u16 Op_FToI = 0x2B"
| "as_u16 Op_GetGlobal = 0x2C"
| "as_u16 Op_GetIndexSpaceShape = 0x2D"
| "as_u16 Op_GetNumTileBlocks = 0x2E"
| "as_u16 Op_GetTensorShape = 0x2F"
| "as_u16 Op_GetTileBlockId = 0x30"
| "as_u16 Op_Global = 0x31"
| "as_u16 Op_If = 0x32"
| "as_u16 Op_IntToPtr = 0x33"
| "as_u16 Op_Iota = 0x3A"
| "as_u16 Op_IToF = 0x3B"
| "as_u16 Op_JoinTokens = 0x3C"
| "as_u16 Op_LoadPtrTko = 0x3D"
| "as_u16 Op_LoadViewTko = 0x3E"
| "as_u16 Op_Log = 0x3F"
| "as_u16 Op_Log2 = 0x40"
| "as_u16 Op_Loop = 0x41"
| "as_u16 Op_MakePartitionView = 0x42"
| "as_u16 Op_MakeTensorView = 0x43"
| "as_u16 Op_MakeToken = 0x44"
| "as_u16 Op_MaxF = 0x45"
| "as_u16 Op_MaxI = 0x46"
| "as_u16 Op_MinF = 0x47"
| "as_u16 Op_MinI = 0x48"
| "as_u16 Op_MmaF = 0x49"
| "as_u16 Op_MmaI = 0x4A"
| "as_u16 Op_Module = 0x4B"
| "as_u16 Op_MulF = 0x4C"
| "as_u16 Op_MulhiI = 0x4D"
| "as_u16 Op_MulI = 0x4E"
| "as_u16 Op_NegF = 0x4F"
| "as_u16 Op_NegI = 0x50"
| "as_u16 Op_Offset = 0x51"
| "as_u16 Op_OrI = 0x52"
| "as_u16 Op_Permute = 0x53"
| "as_u16 Op_Pow = 0x54"
| "as_u16 Op_Print = 0x55"
| "as_u16 Op_PtrToInt = 0x56"
| "as_u16 Op_PtrToPtr = 0x57"
| "as_u16 Op_Reduce = 0x58"
| "as_u16 Op_RemF = 0x59"
| "as_u16 Op_RemI = 0x5A"
| "as_u16 Op_Reshape = 0x5B"
| "as_u16 Op_Return = 0x5C"
| "as_u16 Op_Rsqrt = 0x5D"
| "as_u16 Op_Scan = 0x5E"
| "as_u16 Op_Select = 0x5F"
| "as_u16 Op_ShLI = 0x60"
| "as_u16 Op_ShRI = 0x61"
| "as_u16 Op_Sin = 0x62"
| "as_u16 Op_SinH = 0x63"
| "as_u16 Op_Sqrt = 0x64"
| "as_u16 Op_StorePtrTko = 0x65"
| "as_u16 Op_StoreViewTko = 0x66"
| "as_u16 Op_SubF = 0x67"
| "as_u16 Op_SubI = 0x68"
| "as_u16 Op_Tan = 0x69"
| "as_u16 Op_TanH = 0x6A"
| "as_u16 Op_TruncI = 0x6B"
| "as_u16 Op_XOrI = 0x6C"
| "as_u16 Op_Yield = 0x6D"
| "as_u16 Op_Atan2 = 0x6E"
| "as_u16 Op_Pack = 0x6F"
| "as_u16 Op_Unpack = 0x70"
| "as_u16 Op_Alloca = 0x71"
| "as_u16 Op_MmaFScaled = 0x72"
| "as_u16 Op_MakeGatherScatterView = 0x73"
| "as_u16 Op_MakeStridedView = 0x74"
| "as_u16 Op_AtomicRedViewTko = 0x75"
| "as_u16 Op_Insert = 0x76"
| "as_u16 Op_GdcLaunchDependentsTko = 0x77"
| "as_u16 Op_GdcWaitTko = 0x78"
| "as_u16 Op_FPowI = 0x79"
| "as_u16 Op_MemoryFenceAliasTko = 0x7A"

primrec opcode_name :: "Opcode \<Rightarrow> string" where
  "opcode_name Op_AbsF = ''absf''"
| "opcode_name Op_AbsI = ''absi''"
| "opcode_name Op_AddF = ''addf''"
| "opcode_name Op_AddI = ''addi''"
| "opcode_name Op_AndI = ''andi''"
| "opcode_name Op_Assert = ''assert''"
| "opcode_name Op_Assume = ''assume''"
| "opcode_name Op_AtomicCAS = ''atomic_cas_tko''"
| "opcode_name Op_AtomicRMW = ''atomic_rmw_tko''"
| "opcode_name Op_Bitcast = ''bitcast''"
| "opcode_name Op_Break = ''break''"
| "opcode_name Op_Broadcast = ''broadcast''"
| "opcode_name Op_Cat = ''cat''"
| "opcode_name Op_Ceil = ''ceil''"
| "opcode_name Op_CmpF = ''cmpf''"
| "opcode_name Op_CmpI = ''cmpi''"
| "opcode_name Op_Constant = ''constant''"
| "opcode_name Op_Continue = ''continue''"
| "opcode_name Op_Cos = ''cos''"
| "opcode_name Op_CosH = ''cosh''"
| "opcode_name Op_DivF = ''divf''"
| "opcode_name Op_DivI = ''divi''"
| "opcode_name Op_Entry = ''entry''"
| "opcode_name Op_Exp = ''exp''"
| "opcode_name Op_Exp2 = ''exp2''"
| "opcode_name Op_ExtI = ''exti''"
| "opcode_name Op_Extract = ''extract''"
| "opcode_name Op_Floor = ''floor''"
| "opcode_name Op_Fma = ''fma''"
| "opcode_name Op_For = ''for''"
| "opcode_name Op_FToF = ''ftof''"
| "opcode_name Op_FToI = ''ftoi''"
| "opcode_name Op_GetGlobal = ''get_global''"
| "opcode_name Op_GetIndexSpaceShape = ''get_index_space_shape''"
| "opcode_name Op_GetNumTileBlocks = ''get_num_tile_blocks''"
| "opcode_name Op_GetTensorShape = ''get_tensor_shape''"
| "opcode_name Op_GetTileBlockId = ''get_tile_block_id''"
| "opcode_name Op_Global = ''global''"
| "opcode_name Op_If = ''if''"
| "opcode_name Op_IntToPtr = ''int_to_ptr''"
| "opcode_name Op_Iota = ''iota''"
| "opcode_name Op_IToF = ''itof''"
| "opcode_name Op_JoinTokens = ''join_tokens''"
| "opcode_name Op_LoadPtrTko = ''load_ptr_tko''"
| "opcode_name Op_LoadViewTko = ''load_view_tko''"
| "opcode_name Op_Log = ''log''"
| "opcode_name Op_Log2 = ''log2''"
| "opcode_name Op_Loop = ''loop''"
| "opcode_name Op_MakePartitionView = ''make_partition_view''"
| "opcode_name Op_MakeTensorView = ''make_tensor_view''"
| "opcode_name Op_MakeToken = ''make_token''"
| "opcode_name Op_MaxF = ''maxf''"
| "opcode_name Op_MaxI = ''maxi''"
| "opcode_name Op_MinF = ''minf''"
| "opcode_name Op_MinI = ''mini''"
| "opcode_name Op_MmaF = ''mmaf''"
| "opcode_name Op_MmaI = ''mmai''"
| "opcode_name Op_Module = ''module''"
| "opcode_name Op_MulF = ''mulf''"
| "opcode_name Op_MulhiI = ''mulhii''"
| "opcode_name Op_MulI = ''muli''"
| "opcode_name Op_NegF = ''negf''"
| "opcode_name Op_NegI = ''negi''"
| "opcode_name Op_Offset = ''offset''"
| "opcode_name Op_OrI = ''ori''"
| "opcode_name Op_Permute = ''permute''"
| "opcode_name Op_Pow = ''pow''"
| "opcode_name Op_Print = ''print_tko''"
| "opcode_name Op_PtrToInt = ''ptr_to_int''"
| "opcode_name Op_PtrToPtr = ''ptr_to_ptr''"
| "opcode_name Op_Reduce = ''reduce''"
| "opcode_name Op_RemF = ''remf''"
| "opcode_name Op_RemI = ''remi''"
| "opcode_name Op_Reshape = ''reshape''"
| "opcode_name Op_Return = ''return''"
| "opcode_name Op_Rsqrt = ''rsqrt''"
| "opcode_name Op_Scan = ''scan''"
| "opcode_name Op_Select = ''select''"
| "opcode_name Op_ShLI = ''shli''"
| "opcode_name Op_ShRI = ''shri''"
| "opcode_name Op_Sin = ''sin''"
| "opcode_name Op_SinH = ''sinh''"
| "opcode_name Op_Sqrt = ''sqrt''"
| "opcode_name Op_StorePtrTko = ''store_ptr_tko''"
| "opcode_name Op_StoreViewTko = ''store_view_tko''"
| "opcode_name Op_SubF = ''subf''"
| "opcode_name Op_SubI = ''subi''"
| "opcode_name Op_Tan = ''tan''"
| "opcode_name Op_TanH = ''tanh''"
| "opcode_name Op_TruncI = ''trunci''"
| "opcode_name Op_XOrI = ''xori''"
| "opcode_name Op_Yield = ''yield''"
| "opcode_name Op_Atan2 = ''atan2''"
| "opcode_name Op_Pack = ''pack''"
| "opcode_name Op_Unpack = ''unpack''"
| "opcode_name Op_Alloca = ''alloca''"
| "opcode_name Op_MmaFScaled = ''mmaf_scaled''"
| "opcode_name Op_MakeGatherScatterView = ''make_gather_scatter_view''"
| "opcode_name Op_MakeStridedView = ''make_strided_view''"
| "opcode_name Op_AtomicRedViewTko = ''atomic_red_view_tko''"
| "opcode_name Op_Insert = ''insert''"
| "opcode_name Op_GdcLaunchDependentsTko = ''gdc_launch_dependents_tko''"
| "opcode_name Op_GdcWaitTko = ''gdc_wait_tko''"
| "opcode_name Op_FPowI = ''fpowi''"
| "opcode_name Op_MemoryFenceAliasTko = ''memory_fence_alias_tko''"

text \<open>\<open>None\<close>: the operation writes its result count.\<close>

primrec fixed_result_count :: "Opcode \<Rightarrow> nat option" where
  "fixed_result_count Op_AbsF = Some 1"
| "fixed_result_count Op_AbsI = Some 1"
| "fixed_result_count Op_AddF = Some 1"
| "fixed_result_count Op_AddI = Some 1"
| "fixed_result_count Op_AndI = Some 1"
| "fixed_result_count Op_Assert = Some 0"
| "fixed_result_count Op_Assume = Some 1"
| "fixed_result_count Op_AtomicCAS = Some 2"
| "fixed_result_count Op_AtomicRMW = Some 2"
| "fixed_result_count Op_Bitcast = Some 1"
| "fixed_result_count Op_Break = None"
| "fixed_result_count Op_Broadcast = Some 1"
| "fixed_result_count Op_Cat = Some 1"
| "fixed_result_count Op_Ceil = Some 1"
| "fixed_result_count Op_CmpF = Some 1"
| "fixed_result_count Op_CmpI = Some 1"
| "fixed_result_count Op_Constant = Some 1"
| "fixed_result_count Op_Continue = None"
| "fixed_result_count Op_Cos = Some 1"
| "fixed_result_count Op_CosH = Some 1"
| "fixed_result_count Op_DivF = Some 1"
| "fixed_result_count Op_DivI = Some 1"
| "fixed_result_count Op_Entry = Some 0"
| "fixed_result_count Op_Exp = Some 1"
| "fixed_result_count Op_Exp2 = Some 1"
| "fixed_result_count Op_ExtI = Some 1"
| "fixed_result_count Op_Extract = None"
| "fixed_result_count Op_Floor = Some 1"
| "fixed_result_count Op_Fma = Some 1"
| "fixed_result_count Op_For = None"
| "fixed_result_count Op_FToF = Some 1"
| "fixed_result_count Op_FToI = Some 1"
| "fixed_result_count Op_GetGlobal = Some 1"
| "fixed_result_count Op_GetIndexSpaceShape = None"
| "fixed_result_count Op_GetNumTileBlocks = Some 3"
| "fixed_result_count Op_GetTensorShape = None"
| "fixed_result_count Op_GetTileBlockId = Some 3"
| "fixed_result_count Op_Global = Some 0"
| "fixed_result_count Op_If = None"
| "fixed_result_count Op_IntToPtr = Some 1"
| "fixed_result_count Op_Iota = Some 1"
| "fixed_result_count Op_IToF = Some 1"
| "fixed_result_count Op_JoinTokens = None"
| "fixed_result_count Op_LoadPtrTko = Some 2"
| "fixed_result_count Op_LoadViewTko = None"
| "fixed_result_count Op_Log = Some 1"
| "fixed_result_count Op_Log2 = Some 1"
| "fixed_result_count Op_Loop = None"
| "fixed_result_count Op_MakePartitionView = Some 1"
| "fixed_result_count Op_MakeTensorView = None"
| "fixed_result_count Op_MakeToken = Some 1"
| "fixed_result_count Op_MaxF = Some 1"
| "fixed_result_count Op_MaxI = Some 1"
| "fixed_result_count Op_MinF = Some 1"
| "fixed_result_count Op_MinI = Some 1"
| "fixed_result_count Op_MmaF = Some 1"
| "fixed_result_count Op_MmaI = Some 1"
| "fixed_result_count Op_Module = Some 0"
| "fixed_result_count Op_MulF = Some 1"
| "fixed_result_count Op_MulhiI = Some 1"
| "fixed_result_count Op_MulI = Some 1"
| "fixed_result_count Op_NegF = Some 1"
| "fixed_result_count Op_NegI = Some 1"
| "fixed_result_count Op_Offset = Some 1"
| "fixed_result_count Op_OrI = Some 1"
| "fixed_result_count Op_Permute = Some 1"
| "fixed_result_count Op_Pow = Some 1"
| "fixed_result_count Op_Print = None"
| "fixed_result_count Op_PtrToInt = Some 1"
| "fixed_result_count Op_PtrToPtr = Some 1"
| "fixed_result_count Op_Reduce = None"
| "fixed_result_count Op_RemF = Some 1"
| "fixed_result_count Op_RemI = Some 1"
| "fixed_result_count Op_Reshape = Some 1"
| "fixed_result_count Op_Return = None"
| "fixed_result_count Op_Rsqrt = Some 1"
| "fixed_result_count Op_Scan = None"
| "fixed_result_count Op_Select = Some 1"
| "fixed_result_count Op_ShLI = Some 1"
| "fixed_result_count Op_ShRI = Some 1"
| "fixed_result_count Op_Sin = Some 1"
| "fixed_result_count Op_SinH = Some 1"
| "fixed_result_count Op_Sqrt = Some 1"
| "fixed_result_count Op_StorePtrTko = Some 1"
| "fixed_result_count Op_StoreViewTko = None"
| "fixed_result_count Op_SubF = Some 1"
| "fixed_result_count Op_SubI = Some 1"
| "fixed_result_count Op_Tan = Some 1"
| "fixed_result_count Op_TanH = Some 1"
| "fixed_result_count Op_TruncI = Some 1"
| "fixed_result_count Op_XOrI = Some 1"
| "fixed_result_count Op_Yield = None"
| "fixed_result_count Op_Atan2 = Some 1"
| "fixed_result_count Op_Pack = Some 1"
| "fixed_result_count Op_Unpack = Some 1"
| "fixed_result_count Op_Alloca = Some 1"
| "fixed_result_count Op_MmaFScaled = Some 1"
| "fixed_result_count Op_MakeGatherScatterView = Some 1"
| "fixed_result_count Op_MakeStridedView = Some 1"
| "fixed_result_count Op_AtomicRedViewTko = Some 1"
| "fixed_result_count Op_Insert = None"
| "fixed_result_count Op_GdcLaunchDependentsTko = Some 1"
| "fixed_result_count Op_GdcWaitTko = Some 1"
| "fixed_result_count Op_FPowI = Some 1"
| "fixed_result_count Op_MemoryFenceAliasTko = Some 1"

section \<open>The numbering is injective\<close>

text \<open>The opcode of a wire number, as a reader would look it up.\<close>

definition all_opcodes :: "Opcode list" where
  "all_opcodes =
    [Op_AbsF, Op_AbsI, Op_AddF, Op_AddI, Op_AndI, Op_Assert, Op_Assume, Op_AtomicCAS,
     Op_AtomicRMW, Op_Bitcast, Op_Break, Op_Broadcast, Op_Cat, Op_Ceil, Op_CmpF, Op_CmpI,
     Op_Constant, Op_Continue, Op_Cos, Op_CosH, Op_DivF, Op_DivI, Op_Entry, Op_Exp, Op_Exp2,
     Op_ExtI, Op_Extract, Op_Floor, Op_Fma, Op_For, Op_FToF, Op_FToI, Op_GetGlobal,
     Op_GetIndexSpaceShape, Op_GetNumTileBlocks, Op_GetTensorShape, Op_GetTileBlockId,
     Op_Global, Op_If, Op_IntToPtr, Op_Iota, Op_IToF, Op_JoinTokens, Op_LoadPtrTko,
     Op_LoadViewTko, Op_Log, Op_Log2, Op_Loop, Op_MakePartitionView, Op_MakeTensorView,
     Op_MakeToken, Op_MaxF, Op_MaxI, Op_MinF, Op_MinI, Op_MmaF, Op_MmaI, Op_Module, Op_MulF,
     Op_MulhiI, Op_MulI, Op_NegF, Op_NegI, Op_Offset, Op_OrI, Op_Permute, Op_Pow, Op_Print,
     Op_PtrToInt, Op_PtrToPtr, Op_Reduce, Op_RemF, Op_RemI, Op_Reshape, Op_Return, Op_Rsqrt,
     Op_Scan, Op_Select, Op_ShLI, Op_ShRI, Op_Sin, Op_SinH, Op_Sqrt, Op_StorePtrTko,
     Op_StoreViewTko, Op_SubF, Op_SubI, Op_Tan, Op_TanH, Op_TruncI, Op_XOrI, Op_Yield,
     Op_Atan2, Op_Pack, Op_Unpack, Op_Alloca, Op_MmaFScaled, Op_MakeGatherScatterView,
     Op_MakeStridedView, Op_AtomicRedViewTko, Op_Insert, Op_GdcLaunchDependentsTko,
     Op_GdcWaitTko, Op_FPowI, Op_MemoryFenceAliasTko]"

definition opcode_of :: "u16 \<Rightarrow> Opcode option" where
  "opcode_of n = find (\<lambda>op. as_u16 op = n) all_opcodes"

lemma opcode_of_as_u16 [simp]: "opcode_of (as_u16 op) = Some op"
  by (cases op) (simp_all add: opcode_of_def all_opcodes_def)

lemma as_u16_inject: "as_u16 a = as_u16 b \<longleftrightarrow> a = b"
  by (metis opcode_of_as_u16 option.inject)

lemma all_opcodes_complete: "op \<in> set all_opcodes"
  by (metis find_Some_iff nth_mem opcode_of_as_u16 opcode_of_def)

lemma as_u16_public_range: "as_u16 op \<le> 0xFFF"
  by (cases op) simp_all

end
