(* ===== verification/IrModule.thy ===== *)
theory IrModule
  imports IrTypes Opcode Encoding
begin

text \<open>
  The IR container: attributes, locations, values, operations, blocks, regions and the
  module that owns them in arenas (\<open>cutile-ir/src/ir/{attr,location,value,op,block,region,
  module}.rs\<close>). Handles are indices
  into the arenas; a handle outside its arena makes the accessor panic.
\<close>

section \<open>Attributes\<close>

record DivBy =
  divisor :: u64
  every :: "i64 option"
  along :: "i64 option"

record SameElements =
  se_values :: "i64 list"

record Bounded =
  lb :: "i64 option"
  ub :: "i64 option"

record DenseElements =
  de_element_type :: Type
  de_shape :: "i64 list"
  de_data :: bytes

text \<open>\<open>Attr_OptimizationHints\<close> carries the \<open>entries\<close> of the Rust struct directly.\<close>

datatype Attribute =
    Attr_Integer i64 Type
  | Attr_Float f64 Type
  | Attr_Bool bool
  | Attr_Type Type
  | Attr_String string
  | Attr_Array "Attribute list"
  | Attr_DenseElements DenseElements
  | Attr_DenseI32Array "i32 list"
  | Attr_DivBy DivBy
  | Attr_SameElements SameElements
  | Attr_Dictionary "(string \<times> Attribute) list"
  | Attr_OptimizationHints "(string \<times> (string \<times> Attribute) list) list"
  | Attr_Bounded Bounded

definition dense_bool_array :: "bool list \<Rightarrow> Attribute" where
  "dense_bool_array vs = Attr_Array (map Attr_Bool vs)"

definition attr_int :: "i64 \<Rightarrow> ScalarType \<Rightarrow> Attribute" where
  "attr_int v ty = Attr_Integer v (Ty_Scalar ty)"

definition attr_i32 :: "i64 \<Rightarrow> Attribute" where
  "attr_i32 v = Attr_Integer v (Ty_Scalar I32)"

definition attr_float :: "f64 \<Rightarrow> ScalarType \<Rightarrow> Attribute" where
  "attr_float v ty = Attr_Float v (Ty_Scalar ty)"

section \<open>Source locations\<close>

record DIFile =
  df_name :: string
  df_directory :: string

record DICompileUnit =
  cu_file :: DIFile

record DISubprogram =
  sp_file :: DIFile
  sp_line :: u32
  sp_name :: string
  sp_linkage_name :: string
  sp_compile_unit :: DICompileUnit
  sp_scope_line :: u32

text \<open>\<open>LexicalBlock scope file line column\<close> carries the fields of \<open>DILexicalBlock\<close>.\<close>

datatype DebugScope =
    Subprogram DISubprogram
  | LexicalBlock DebugScope DIFile u32 u32

record DebugInfoLoc =
  di_filename :: string
  di_line :: u32
  di_column :: u32
  di_scope :: DebugScope

datatype Location =
    Loc_Unknown
  | Loc_FileLineCol string u32 u32
  | Loc_DebugInfo DebugInfoLoc
  | Loc_CallSite Location Location

section \<open>Values, operations, blocks, regions\<close>

datatype Value = Value u32
datatype OpId = OpId u32
datatype BlockId = BlockId u32
datatype RegionId = RegionId u32

datatype ValueProducer =
    OpResult OpId u32
  | BlockArg BlockId u32

record ValueData =
  vd_ty :: Type
  vd_producer :: ValueProducer

record Operation =
  opcode :: Opcode
  operands :: "Value list"
  result_types :: "Type list"
  attributes :: "(string \<times> Attribute) list"
  op_regions :: "RegionId list"
  location :: Location

record Block =
  args :: "(Value \<times> Type) list"
  ops :: "OpId list"

record Region =
  rg_blocks :: "BlockId list"

datatype SymbolVisibility = Vis_Public | Vis_Private

fun symbol_visibility_u8 :: "SymbolVisibility \<Rightarrow> u8" where
  "symbol_visibility_u8 Vis_Public = 0"
| "symbol_visibility_u8 Vis_Private = 1"

record Global =
  sym_name :: string
  g_value :: DenseElements
  alignment :: u64
  g_constant :: bool
  symbol_visibility :: SymbolVisibility

record Module =
  mod_name :: string
  producer :: "string option"
  mod_values :: "ValueData list"
  operations :: "Operation list"
  blocks :: "Block list"
  regions :: "Region list"
  mod_functions :: "OpId list"
  globals :: "Global list"

definition module_new :: "string \<Rightarrow> Module" where
  "module_new n = \<lparr>mod_name = n, producer = None, mod_values = [], operations = [], blocks = [],
                   regions = [], mod_functions = [], globals = []\<rparr>"

definition alloc_value :: "Type \<Rightarrow> ValueProducer \<Rightarrow> Module \<Rightarrow> Value \<times> Module" where
  "alloc_value ty pr m =
     (Value (as_u32 (length (mod_values m))),
      m\<lparr>mod_values := mod_values m @ [\<lparr>vd_ty = ty, vd_producer = pr\<rparr>]\<rparr>)"

definition num_values :: "Module \<Rightarrow> nat" where
  "num_values m = length (mod_values m)"

fun value_data :: "Module \<Rightarrow> Value \<Rightarrow> 'e fault + ValueData" where
  "value_data m (Value i) = index (mod_values m) (as_usize i)"

definition value_type :: "Module \<Rightarrow> Value \<Rightarrow> 'e fault + Type" where
  "value_type m v = and_then (value_data m v) (\<lambda>d. Inr (vd_ty d))"

definition alloc_op :: "Operation \<Rightarrow> Module \<Rightarrow> OpId \<times> Module" where
  "alloc_op opn m = (OpId (as_u32 (length (operations m))), m\<lparr>operations := operations m @ [opn]\<rparr>)"

fun op :: "Module \<Rightarrow> OpId \<Rightarrow> 'e fault + Operation" where
  "op m (OpId i) = index (operations m) (as_usize i)"

definition alloc_block :: "Block \<Rightarrow> Module \<Rightarrow> BlockId \<times> Module" where
  "alloc_block b m = (BlockId (as_u32 (length (blocks m))), m\<lparr>blocks := blocks m @ [b]\<rparr>)"

fun block :: "Module \<Rightarrow> BlockId \<Rightarrow> 'e fault + Block" where
  "block m (BlockId i) = index (blocks m) (as_usize i)"

definition alloc_region :: "Region \<Rightarrow> Module \<Rightarrow> RegionId \<times> Module" where
  "alloc_region r m = (RegionId (as_u32 (length (regions m))), m\<lparr>regions := regions m @ [r]\<rparr>)"

fun region :: "Module \<Rightarrow> RegionId \<Rightarrow> 'e fault + Region" where
  "region m (RegionId i) = index (regions m) (as_usize i)"

text \<open>
  \<open>Module::find_op_result\<close> and the writer's \<open>find_result_value\<close> are the same linear scan:
  the first value produced as result \<open>ri\<close> of the operation.
\<close>

fun find_from :: "ValueProducer \<Rightarrow> ValueData list \<Rightarrow> nat \<Rightarrow> Value option" where
  "find_from p [] i = None"
| "find_from p (d # ds) i = (if vd_producer d = p then Some (Value (as_u32 i)) else find_from p ds (Suc i))"

definition find_op_result :: "Module \<Rightarrow> OpId \<Rightarrow> u32 \<Rightarrow> Value option" where
  "find_op_result m opid ri = find_from (OpResult opid ri) (mod_values m) 0"

end
