(* ===== verification/Requirements.thy ===== *)
theory Requirements
  imports IrModule
begin

text \<open>
  Which bytecode version and GPU architecture each language feature, scalar type,
  opcode and attribute needs (\<open>cutile-ir/src/requirements.rs\<close>). The checks of a requirement
  against a target are in \<open>Capabilities\<close>.
\<close>

datatype Architecture = Any | AtLeast u32 | Only u32

record Requirement =
  since :: BytecodeVersion
  architecture :: Architecture

datatype (plugins only: size) Feature =
    Feat_Baseline | Feat_Allocation | Feat_Packing | Feat_ScaledMma | Feat_GatherScatterView
  | Feat_StridedView | Feat_AtomicRedView | Feat_Insert | Feat_IntegerPower | Feat_GdcTokens
  | Feat_AliasFence | Feat_Int4 | Feat_Fp8 | Feat_E8Scale | Feat_Fp4 | Feat_F8E5M3FNU
  | Feat_NewScaleMma | Feat_PointerAttribute | Feat_NearestAway | Feat_ExtendedFloatRounding
  | Feat_SaturatingFToI | Feat_Inbounds | Feat_FastAccumulation | Feat_ExpRounding
  | Feat_Producer | Feat_GlobalConstant | Feat_GlobalVisibility | Feat_WorkerWarps
  | Feat_ClusterCta | Feat_WorkerWarpsRestricted | Feat_Bf16AtomicAdd | Feat_LoopReturn
  | Feat_HopperTarget | Feat_RubinTarget | Feat_ProgrammaticDependentLaunch

primrec feature_name :: "Feature \<Rightarrow> string" where
  "feature_name Feat_Baseline = ''baseline Tile IR''"
| "feature_name Feat_Allocation = ''alloca''"
| "feature_name Feat_Packing = ''pack/unpack''"
| "feature_name Feat_ScaledMma = ''block-scaled MMA''"
| "feature_name Feat_GatherScatterView = ''gather_scatter_view''"
| "feature_name Feat_StridedView = ''strided_view''"
| "feature_name Feat_AtomicRedView = ''atomic_red_view_tko''"
| "feature_name Feat_Insert = ''insert''"
| "feature_name Feat_IntegerPower = ''fpowi''"
| "feature_name Feat_GdcTokens = ''GDC tokens''"
| "feature_name Feat_AliasFence = ''memory_fence_alias_tko''"
| "feature_name Feat_Int4 = ''i4''"
| "feature_name Feat_Fp8 = ''f8E4M3FN/f8E5M2''"
| "feature_name Feat_E8Scale = ''f8E8M0FNU''"
| "feature_name Feat_Fp4 = ''f4E2M1FN''"
| "feature_name Feat_F8E5M3FNU = ''f8E5M3FNU''"
| "feature_name Feat_NewScaleMma = ''cuda_tile.mmaf_scaled with f8E5M3FNU scales''"
| "feature_name Feat_PointerAttribute = ''ptr_attr''"
| "feature_name Feat_NearestAway = ''rounding_mode=nearest_away''"
| "feature_name Feat_ExtendedFloatRounding = ''ftof additional rounding modes (type-dependent)''"
| "feature_name Feat_SaturatingFToI = ''ftoi.saturating''"
| "feature_name Feat_Inbounds = ''inbounds=true''"
| "feature_name Feat_FastAccumulation = ''mmaf.fast_acc''"
| "feature_name Feat_ExpRounding = ''exp.rounding_mode (non-approximate)''"
| "feature_name Feat_Producer = ''module.producer''"
| "feature_name Feat_GlobalConstant = ''global.constant''"
| "feature_name Feat_GlobalVisibility = ''global.symbol_visibility''"
| "feature_name Feat_WorkerWarps = ''num_worker_warps_per_cta''"
| "feature_name Feat_ClusterCta = ''num_cta_in_cga greater than 1''"
| "feature_name Feat_WorkerWarpsRestricted = ''num_worker_warps_per_cta restricted to 4 or 8''"
| "feature_name Feat_Bf16AtomicAdd = ''bf16 atomic add''"
| "feature_name Feat_LoopReturn = ''return inside loop''"
| "feature_name Feat_HopperTarget = ''target sm_90''"
| "feature_name Feat_RubinTarget = ''target sm_107''"
| "feature_name Feat_ProgrammaticDependentLaunch = ''programmatic dependent launch''"

primrec requirement :: "Feature \<Rightarrow> Requirement" where
  "requirement Feat_Baseline = \<lparr>since = V13_2, architecture = (AtLeast 80)\<rparr>"
| "requirement Feat_Allocation = \<lparr>since = V13_3, architecture = Any\<rparr>"
| "requirement Feat_Packing = \<lparr>since = V13_3, architecture = Any\<rparr>"
| "requirement Feat_ScaledMma = \<lparr>since = V13_3, architecture = (AtLeast 100)\<rparr>"
| "requirement Feat_GatherScatterView = \<lparr>since = V13_3, architecture = Any\<rparr>"
| "requirement Feat_StridedView = \<lparr>since = V13_3, architecture = Any\<rparr>"
| "requirement Feat_AtomicRedView = \<lparr>since = V13_3, architecture = Any\<rparr>"
| "requirement Feat_Insert = \<lparr>since = V13_4, architecture = Any\<rparr>"
| "requirement Feat_IntegerPower = \<lparr>since = V13_4, architecture = Any\<rparr>"
| "requirement Feat_GdcTokens = \<lparr>since = V13_4, architecture = Any\<rparr>"
| "requirement Feat_AliasFence = \<lparr>since = V13_4, architecture = Any\<rparr>"
| "requirement Feat_Int4 = \<lparr>since = V13_3, architecture = Any\<rparr>"
| "requirement Feat_Fp8 = \<lparr>since = V13_2, architecture = (AtLeast 90)\<rparr>"
| "requirement Feat_E8Scale = \<lparr>since = V13_2, architecture = (AtLeast 100)\<rparr>"
| "requirement Feat_Fp4 = \<lparr>since = V13_3, architecture = (AtLeast 100)\<rparr>"
| "requirement Feat_F8E5M3FNU = \<lparr>since = V13_4, architecture = (AtLeast 107)\<rparr>"
| "requirement Feat_NewScaleMma = \<lparr>since = V13_4, architecture = (Only 107)\<rparr>"
| "requirement Feat_PointerAttribute = \<lparr>since = V13_4, architecture = Any\<rparr>"
| "requirement Feat_NearestAway = \<lparr>since = V13_4, architecture = Any\<rparr>"
| "requirement Feat_ExtendedFloatRounding = \<lparr>since = V13_4, architecture = Any\<rparr>"
| "requirement Feat_SaturatingFToI = \<lparr>since = V13_4, architecture = Any\<rparr>"
| "requirement Feat_Inbounds = \<lparr>since = V13_4, architecture = Any\<rparr>"
| "requirement Feat_FastAccumulation = \<lparr>since = V13_3, architecture = Any\<rparr>"
| "requirement Feat_ExpRounding = \<lparr>since = V13_3, architecture = Any\<rparr>"
| "requirement Feat_Producer = \<lparr>since = V13_3, architecture = Any\<rparr>"
| "requirement Feat_GlobalConstant = \<lparr>since = V13_3, architecture = Any\<rparr>"
| "requirement Feat_GlobalVisibility = \<lparr>since = V13_3, architecture = Any\<rparr>"
| "requirement Feat_WorkerWarps = \<lparr>since = V13_3, architecture = Any\<rparr>"
| "requirement Feat_ClusterCta = \<lparr>since = V13_2, architecture = (AtLeast 90)\<rparr>"
| "requirement Feat_WorkerWarpsRestricted = \<lparr>since = V13_4, architecture = Any\<rparr>"
| "requirement Feat_Bf16AtomicAdd = \<lparr>since = V13_3, architecture = (AtLeast 90)\<rparr>"
| "requirement Feat_LoopReturn = \<lparr>since = V13_4, architecture = Any\<rparr>"
| "requirement Feat_HopperTarget = \<lparr>since = V13_3, architecture = (Only 90)\<rparr>"
| "requirement Feat_RubinTarget = \<lparr>since = V13_4, architecture = (Only 107)\<rparr>"
| "requirement Feat_ProgrammaticDependentLaunch = \<lparr>since = V13_4, architecture = (AtLeast 90)\<rparr>"

definition feature_since :: "Feature \<Rightarrow> BytecodeVersion" where
  "feature_since f = since (requirement f)"

definition TARGETS :: "(u32 \<times> Feature) list" where
  "TARGETS =
     [(80, Feat_Baseline),
      (86, Feat_Baseline),
      (87, Feat_Baseline),
      (88, Feat_Baseline),
      (89, Feat_Baseline),
      (90, Feat_HopperTarget),
      (100, Feat_Baseline),
      (103, Feat_Baseline),
      (107, Feat_RubinTarget),
      (110, Feat_Baseline),
      (120, Feat_Baseline),
      (121, Feat_Baseline)]"

definition target_requirement :: "u32 \<Rightarrow> Requirement option" where
  "target_requirement sm = map_option (\<lambda>(_, f). requirement f) (find (\<lambda>(t, _). t = sm) TARGETS)"

fun scalar_feature :: "ScalarType \<Rightarrow> Feature" where
  "scalar_feature I4 = Feat_Int4"
| "scalar_feature F8E4M3FN = Feat_Fp8"
| "scalar_feature F8E5M2 = Feat_Fp8"
| "scalar_feature F8E8M0FNU = Feat_E8Scale"
| "scalar_feature F4E2M1FN = Feat_Fp4"
| "scalar_feature F8E5M3FNU = Feat_F8E5M3FNU"
| "scalar_feature _ = Feat_Baseline"

definition scalar_requirement :: "ScalarType \<Rightarrow> Requirement" where
  "scalar_requirement s = requirement (scalar_feature s)"

text \<open>\<open>ScalarType::minimum_version\<close>.\<close>

definition minimum_version :: "ScalarType \<Rightarrow> BytecodeVersion" where
  "minimum_version s = since (scalar_requirement s)"

definition attribute_feature :: "Opcode \<Rightarrow> string \<Rightarrow> Attribute \<Rightarrow> Feature option" where
  "attribute_feature oc n a =
     (if n = ''rounding_mode'' \<and> (case a of Attr_Integer k _ \<Rightarrow> k = 7 | _ \<Rightarrow> False) then Some Feat_NearestAway
      else if n = ''saturating'' \<and> a = Attr_Bool True then Some Feat_SaturatingFToI
      else if n = ''inbounds'' \<and> (case a of Attr_Array vs \<Rightarrow> Attr_Bool True \<in> set vs | _ \<Rightarrow> False)
        then Some Feat_Inbounds
      else if n = ''fast_acc'' \<and> a = Attr_Bool True then Some Feat_FastAccumulation
      else if n = ''producer'' then Some Feat_Producer
      else if n = ''rounding_mode'' \<and> oc = Op_Exp
          \<and> (case a of Attr_Integer k _ \<Rightarrow> k \<noteq> 5 | _ \<Rightarrow> False) then Some Feat_ExpRounding
      else None)"

primrec opcode_feature :: "Opcode \<Rightarrow> Feature" where
  "opcode_feature Op_AbsF = Feat_Baseline"
| "opcode_feature Op_AbsI = Feat_Baseline"
| "opcode_feature Op_AddF = Feat_Baseline"
| "opcode_feature Op_AddI = Feat_Baseline"
| "opcode_feature Op_AndI = Feat_Baseline"
| "opcode_feature Op_Assert = Feat_Baseline"
| "opcode_feature Op_Assume = Feat_Baseline"
| "opcode_feature Op_AtomicCAS = Feat_Baseline"
| "opcode_feature Op_AtomicRMW = Feat_Baseline"
| "opcode_feature Op_Bitcast = Feat_Baseline"
| "opcode_feature Op_Break = Feat_Baseline"
| "opcode_feature Op_Broadcast = Feat_Baseline"
| "opcode_feature Op_Cat = Feat_Baseline"
| "opcode_feature Op_Ceil = Feat_Baseline"
| "opcode_feature Op_CmpF = Feat_Baseline"
| "opcode_feature Op_CmpI = Feat_Baseline"
| "opcode_feature Op_Constant = Feat_Baseline"
| "opcode_feature Op_Continue = Feat_Baseline"
| "opcode_feature Op_Cos = Feat_Baseline"
| "opcode_feature Op_CosH = Feat_Baseline"
| "opcode_feature Op_DivF = Feat_Baseline"
| "opcode_feature Op_DivI = Feat_Baseline"
| "opcode_feature Op_Entry = Feat_Baseline"
| "opcode_feature Op_Exp = Feat_Baseline"
| "opcode_feature Op_Exp2 = Feat_Baseline"
| "opcode_feature Op_ExtI = Feat_Baseline"
| "opcode_feature Op_Extract = Feat_Baseline"
| "opcode_feature Op_Floor = Feat_Baseline"
| "opcode_feature Op_Fma = Feat_Baseline"
| "opcode_feature Op_For = Feat_Baseline"
| "opcode_feature Op_FToF = Feat_Baseline"
| "opcode_feature Op_FToI = Feat_Baseline"
| "opcode_feature Op_GetGlobal = Feat_Baseline"
| "opcode_feature Op_GetIndexSpaceShape = Feat_Baseline"
| "opcode_feature Op_GetNumTileBlocks = Feat_Baseline"
| "opcode_feature Op_GetTensorShape = Feat_Baseline"
| "opcode_feature Op_GetTileBlockId = Feat_Baseline"
| "opcode_feature Op_Global = Feat_Baseline"
| "opcode_feature Op_If = Feat_Baseline"
| "opcode_feature Op_IntToPtr = Feat_Baseline"
| "opcode_feature Op_Iota = Feat_Baseline"
| "opcode_feature Op_IToF = Feat_Baseline"
| "opcode_feature Op_JoinTokens = Feat_Baseline"
| "opcode_feature Op_LoadPtrTko = Feat_Baseline"
| "opcode_feature Op_LoadViewTko = Feat_Baseline"
| "opcode_feature Op_Log = Feat_Baseline"
| "opcode_feature Op_Log2 = Feat_Baseline"
| "opcode_feature Op_Loop = Feat_Baseline"
| "opcode_feature Op_MakePartitionView = Feat_Baseline"
| "opcode_feature Op_MakeTensorView = Feat_Baseline"
| "opcode_feature Op_MakeToken = Feat_Baseline"
| "opcode_feature Op_MaxF = Feat_Baseline"
| "opcode_feature Op_MaxI = Feat_Baseline"
| "opcode_feature Op_MinF = Feat_Baseline"
| "opcode_feature Op_MinI = Feat_Baseline"
| "opcode_feature Op_MmaF = Feat_Baseline"
| "opcode_feature Op_MmaI = Feat_Baseline"
| "opcode_feature Op_Module = Feat_Baseline"
| "opcode_feature Op_MulF = Feat_Baseline"
| "opcode_feature Op_MulhiI = Feat_Baseline"
| "opcode_feature Op_MulI = Feat_Baseline"
| "opcode_feature Op_NegF = Feat_Baseline"
| "opcode_feature Op_NegI = Feat_Baseline"
| "opcode_feature Op_Offset = Feat_Baseline"
| "opcode_feature Op_OrI = Feat_Baseline"
| "opcode_feature Op_Permute = Feat_Baseline"
| "opcode_feature Op_Pow = Feat_Baseline"
| "opcode_feature Op_Print = Feat_Baseline"
| "opcode_feature Op_PtrToInt = Feat_Baseline"
| "opcode_feature Op_PtrToPtr = Feat_Baseline"
| "opcode_feature Op_Reduce = Feat_Baseline"
| "opcode_feature Op_RemF = Feat_Baseline"
| "opcode_feature Op_RemI = Feat_Baseline"
| "opcode_feature Op_Reshape = Feat_Baseline"
| "opcode_feature Op_Return = Feat_Baseline"
| "opcode_feature Op_Rsqrt = Feat_Baseline"
| "opcode_feature Op_Scan = Feat_Baseline"
| "opcode_feature Op_Select = Feat_Baseline"
| "opcode_feature Op_ShLI = Feat_Baseline"
| "opcode_feature Op_ShRI = Feat_Baseline"
| "opcode_feature Op_Sin = Feat_Baseline"
| "opcode_feature Op_SinH = Feat_Baseline"
| "opcode_feature Op_Sqrt = Feat_Baseline"
| "opcode_feature Op_StorePtrTko = Feat_Baseline"
| "opcode_feature Op_StoreViewTko = Feat_Baseline"
| "opcode_feature Op_SubF = Feat_Baseline"
| "opcode_feature Op_SubI = Feat_Baseline"
| "opcode_feature Op_Tan = Feat_Baseline"
| "opcode_feature Op_TanH = Feat_Baseline"
| "opcode_feature Op_TruncI = Feat_Baseline"
| "opcode_feature Op_XOrI = Feat_Baseline"
| "opcode_feature Op_Yield = Feat_Baseline"
| "opcode_feature Op_Atan2 = Feat_Baseline"
| "opcode_feature Op_Pack = Feat_Packing"
| "opcode_feature Op_Unpack = Feat_Packing"
| "opcode_feature Op_Alloca = Feat_Allocation"
| "opcode_feature Op_MmaFScaled = Feat_ScaledMma"
| "opcode_feature Op_MakeGatherScatterView = Feat_GatherScatterView"
| "opcode_feature Op_MakeStridedView = Feat_StridedView"
| "opcode_feature Op_AtomicRedViewTko = Feat_AtomicRedView"
| "opcode_feature Op_Insert = Feat_Insert"
| "opcode_feature Op_GdcLaunchDependentsTko = Feat_GdcTokens"
| "opcode_feature Op_GdcWaitTko = Feat_GdcTokens"
| "opcode_feature Op_FPowI = Feat_IntegerPower"
| "opcode_feature Op_MemoryFenceAliasTko = Feat_AliasFence"

definition opcode_requirement :: "Opcode \<Rightarrow> Requirement" where
  "opcode_requirement oc = requirement (opcode_feature oc)"

section \<open>Facts\<close>

lemmas requirement_defs = feature_since_def opcode_requirement_def scalar_requirement_def minimum_version_def

lemma feature_since_supported: "feature_since f \<in> set SUPPORTED"
  by (cases f) (simp_all add: feature_since_def SUPPORTED_def)

lemma feature_since_min: "MIN_SUPPORTED \<le> feature_since f"
  using feature_since_supported [of f] by (auto simp: SUPPORTED_def versions_ge_simps MIN_SUPPORTED_def)

lemma targets_distinct: "distinct (map fst TARGETS)"
  by (simp add: TARGETS_def)

lemma target_requirement_iff:
  "target_requirement sm = Some r \<longleftrightarrow> (\<exists>f. (sm, f) \<in> set TARGETS \<and> r = requirement f)"
  by (auto simp: target_requirement_def TARGETS_def)

end
