(* ===== verification/Interning.thy ===== *)
theory Interning
  imports Requirements
begin

text \<open>
  The tables the writer shares between sections: \<open>StringManager\<close>, \<open>TypeManager\<close> and
  \<open>ConstantManager\<close> of \<open>cutile-ir/src/bytecode/writer.rs\<close>, and \<open>DebugAttrTable\<close> of
  \<open>cutile-ir/src/bytecode/debug_info.rs\<close>. The first two and the last intern: equal keys
  share one index and an index never changes. That contract is the locale \<open>interner\<close>,
  with an interpretation for each of the three tables. The type table has the further
  invariant that a type's components come before it.
\<close>

section \<open>Strings\<close>

text \<open>An \<open>IndexMap\<close> is an association list in insertion order.\<close>

record StringManager =
  str_map :: "(string \<times> u64) list"

definition strings_new :: StringManager where
  "strings_new = \<lparr>str_map = []\<rparr>"

definition string_get_or_insert :: "string \<Rightarrow> StringManager \<Rightarrow> u64 \<times> StringManager" where
  "string_get_or_insert s m =
     (case map_of (str_map m) s of
        Some idx \<Rightarrow> (idx, m)
      | None \<Rightarrow> let idx = as_u64 (length (str_map m)) in (idx, \<lparr>str_map = str_map m @ [(s, idx)]\<rparr>))"

section \<open>Types\<close>

record TypeManager =
  ty_list :: "Type list"
  ty_map :: "Type \<Rightarrow> u64 option"

definition types_new :: TypeManager where
  "types_new = \<lparr>ty_list = [], ty_map = (\<lambda>_. None)\<rparr>"

fun pointer_dependency :: "Type \<Rightarrow> Type option" where
  "pointer_dependency (Ty_Tile t) =
     (case t_element_type t of TE_Pointer p \<Rightarrow> Some (Ty_Pointer p) | _ \<Rightarrow> None)"
| "pointer_dependency (Ty_PartitionView v) = Some (Ty_TensorView (pv_tensor_view v))"
| "pointer_dependency (Ty_GatherScatterView v) = Some (Ty_TensorView (gsv_tensor_view v))"
| "pointer_dependency (Ty_StridedView v) = Some (Ty_TensorView (sv_tensor_view v))"
| "pointer_dependency _ = None"

text \<open>
  The types \<open>register_deps\<close> registers before a type, in the order of its calls.
\<close>

fun register_deps :: "Type \<Rightarrow> Type list" where
  "register_deps (Ty_WithPointerAttribute base attr) =
     (case base of
        Ty_Pointer p \<Rightarrow> [Ty_Scalar (pointee p)]
      | Ty_TensorView tv \<Rightarrow> [Ty_Scalar (tv_element_type tv)]
      | _ \<Rightarrow> (case pointer_dependency base of
                Some dependency \<Rightarrow> [with_pointer_attribute dependency attr]
              | None \<Rightarrow> []))"
| "register_deps (Ty_Pointer p) = [Ty_Scalar (pointee p)]"
| "register_deps (Ty_Tile t) =
     (case t_element_type t of TE_Scalar s \<Rightarrow> [Ty_Scalar s] | TE_Pointer p \<Rightarrow> [Ty_Pointer p])"
| "register_deps (Ty_TensorView tv) = [Ty_Scalar (tv_element_type tv)]"
| "register_deps (Ty_PartitionView pv) = [Ty_TensorView (pv_tensor_view pv)]"
| "register_deps (Ty_GatherScatterView gsv) = [Ty_TensorView (gsv_tensor_view gsv)]"
| "register_deps (Ty_StridedView sv) = [Ty_TensorView (sv_tensor_view sv)]"
| "register_deps (Ty_Func ins outs) = ins @ outs"
| "register_deps (Ty_Scalar _) = []"
| "register_deps Ty_Token = []"

text \<open>The nesting depth of a type, which every dependency decreases.\<close>

fun type_rank :: "Type \<Rightarrow> nat" where
  "type_rank (Ty_Scalar _) = 0"
| "type_rank Ty_Token = 0"
| "type_rank (Ty_Pointer _) = 1"
| "type_rank (Ty_TensorView _) = 1"
| "type_rank (Ty_Tile _) = 2"
| "type_rank (Ty_PartitionView _) = 2"
| "type_rank (Ty_GatherScatterView _) = 2"
| "type_rank (Ty_StridedView _) = 2"
| "type_rank (Ty_WithPointerAttribute base _) = Suc (type_rank base)"
| "type_rank (Ty_Func ins outs) = Suc (sum_list (map type_rank ins) + sum_list (map type_rank outs))"

lemma pointer_dependency_rank: "pointer_dependency ty = Some d \<Longrightarrow> type_rank d < type_rank ty"
  by (cases ty rule: pointer_dependency.cases) (auto split: TileElementType.splits)

lemma pointer_dependency_shape:
  "pointer_dependency ty = Some d \<Longrightarrow> (\<exists>p. d = Ty_Pointer p) \<or> (\<exists>tv. d = Ty_TensorView tv)"
  by (cases ty rule: pointer_dependency.cases) (auto split: TileElementType.splits)

lemma register_deps_rank: "d \<in> set (register_deps ty) \<Longrightarrow> type_rank d < type_rank ty"
proof (cases ty rule: register_deps.cases)
  case (1 base attr)
  moreover assume "d \<in> set (register_deps ty)"
  ultimately show ?thesis
    by (auto split: Type.splits option.splits TileElementType.splits dest!: pointer_dependency_rank pointer_dependency_shape
      simp: with_pointer_attribute_def)
next
  case (8 ins outs)
  moreover assume "d \<in> set (register_deps ty)"
  ultimately show ?thesis
    using member_le_sum_list [of "type_rank d" "map type_rank ins"]
      member_le_sum_list [of "type_rank d" "map type_rank outs"] by auto
qed (auto split: TileElementType.splits)

function type_get_or_insert :: "Type \<Rightarrow> TypeManager \<Rightarrow> u64 \<times> TypeManager" where
  "type_get_or_insert ty m =
     (case ty_map m ty of
        Some idx \<Rightarrow> (idx, m)
      | None \<Rightarrow>
          let m = fold (\<lambda>d m. snd (type_get_or_insert d m)) (register_deps ty) m;
              idx = as_u64 (length (ty_list m))
          in (idx, \<lparr>ty_list = ty_list m @ [ty], ty_map = (ty_map m)(ty \<mapsto> idx)\<rparr>))"
  by pat_completeness auto
termination
  by (relation "measure (\<lambda>(ty, m). type_rank ty)") (auto dest: register_deps_rank)

declare type_get_or_insert.simps [simp del]

section \<open>Constants\<close>

record ConstantManager =
  const_entries :: "bytes list"

definition constants_new :: ConstantManager where
  "constants_new = \<lparr>const_entries = []\<rparr>"

definition constant_add :: "bytes \<Rightarrow> ConstantManager \<Rightarrow> u64 \<times> ConstantManager" where
  "constant_add d m = (as_u64 (length (const_entries m)), \<lparr>const_entries = const_entries m @ [d]\<rparr>)"

section \<open>Debug attributes\<close>

text \<open>Attributes are interned by their encoded bytes; identifiers count from 1.\<close>

definition MISSING_DEBUG_ATTR_ID :: u64 where
  "MISSING_DEBUG_ATTR_ID = 0"

record DebugAttrTable =
  da_map :: "bytes \<Rightarrow> u64 option"
  da_entries :: "bytes list"

definition debug_table_new :: DebugAttrTable where
  "debug_table_new = \<lparr>da_map = (\<lambda>_. None), da_entries = []\<rparr>"

definition debug_intern :: "bytes \<Rightarrow> DebugAttrTable \<Rightarrow> u64 \<times> DebugAttrTable" where
  "debug_intern encoded t =
     (case da_map t encoded of
        Some i \<Rightarrow> (i, t)
      | None \<Rightarrow>
          let i = as_u64 (length (da_entries t)) + 1
          in (i, \<lparr>da_map = (da_map t)(encoded \<mapsto> i), da_entries = da_entries t @ [encoded]\<rparr>))"

text \<open>Each attribute kind: the tag byte, then its fields, with strings interned as they are met.\<close>

definition di_file ::
  "string \<Rightarrow> string \<Rightarrow> StringManager \<Rightarrow> DebugAttrTable \<Rightarrow> u64 \<times> StringManager \<times> DebugAttrTable" where
  "di_file n directory ss t =
     (let buf = [debug_tag_u8 DebugTag_DIFile];
          (i, ss) = string_get_or_insert n ss; buf = push_varint buf i;
          (i, ss) = string_get_or_insert directory ss; buf = push_varint buf i;
          (k, t) = debug_intern buf t
      in (k, ss, t))"

definition di_compile_unit :: "u64 \<Rightarrow> DebugAttrTable \<Rightarrow> u64 \<times> DebugAttrTable" where
  "di_compile_unit file t =
     debug_intern (push_varint [debug_tag_u8 DebugTag_DICompileUnit] file) t"

definition di_subprogram ::
  "u64 \<Rightarrow> u64 \<Rightarrow> string \<Rightarrow> string \<Rightarrow> u64 \<Rightarrow> u64 \<Rightarrow> StringManager \<Rightarrow> DebugAttrTable
    \<Rightarrow> u64 \<times> StringManager \<times> DebugAttrTable" where
  "di_subprogram file line n linkage_name compile_unit scope_line ss t =
     (let buf = [debug_tag_u8 DebugTag_DISubprogram];
          buf = push_varint buf file;
          buf = push_varint buf line;
          (i, ss) = string_get_or_insert n ss; buf = push_varint buf i;
          (i, ss) = string_get_or_insert linkage_name ss; buf = push_varint buf i;
          buf = push_varint buf compile_unit;
          buf = push_varint buf scope_line;
          (k, t) = debug_intern buf t
      in (k, ss, t))"

definition di_lexical_block :: "u64 \<Rightarrow> u64 \<Rightarrow> u64 \<Rightarrow> u64 \<Rightarrow> DebugAttrTable \<Rightarrow> u64 \<times> DebugAttrTable" where
  "di_lexical_block parent_scope file line column t =
     (let buf = [debug_tag_u8 DebugTag_DILexicalBlock];
          buf = push_varint buf parent_scope;
          buf = push_varint buf file;
          buf = push_varint buf line;
          buf = push_varint buf column
      in debug_intern buf t)"

definition di_loc ::
  "u64 \<Rightarrow> string \<Rightarrow> u64 \<Rightarrow> u64 \<Rightarrow> StringManager \<Rightarrow> DebugAttrTable
    \<Rightarrow> u64 \<times> StringManager \<times> DebugAttrTable" where
  "di_loc scope filename line column ss t =
     (let buf = [debug_tag_u8 DebugTag_DILoc];
          buf = push_varint buf scope;
          (i, ss) = string_get_or_insert filename ss; buf = push_varint buf i;
          buf = push_varint buf line;
          buf = push_varint buf column;
          (k, t) = debug_intern buf t
      in (k, ss, t))"

definition di_call_site :: "u64 \<Rightarrow> u64 \<Rightarrow> DebugAttrTable \<Rightarrow> u64 \<times> DebugAttrTable" where
  "di_call_site callee caller t =
     (let buf = [debug_tag_u8 DebugTag_CallSite];
          buf = push_varint buf callee;
          buf = push_varint buf caller
      in debug_intern buf t)"

text \<open>The \<open>debug_assert\<close> on the identifier is \<open>ensure_non_empty_id\<close> below.\<close>

definition ensure_non_empty :: "DebugAttrTable \<Rightarrow> DebugAttrTable" where
  "ensure_non_empty t =
     (if da_entries t = [] then snd (debug_intern [debug_tag_u8 DebugTag_Unknown] t) else t)"

section \<open>The interning contract\<close>

fun position :: "'a \<Rightarrow> 'a list \<Rightarrow> nat option" where
  "position x [] = None"
| "position x (y # ys) = (if x = y then Some 0 else map_option Suc (position x ys))"

lemma position_None: "position x ys = None \<longleftrightarrow> x \<notin> set ys"
  by (induction ys) auto

lemma position_SomeD: "position x ys = Some j \<Longrightarrow> j < length ys \<and> ys ! j = x"
  by (induction ys arbitrary: j) (auto split: if_splits)

lemma position_append:
  "position x (ys @ zs) =
     (case position x ys of Some j \<Rightarrow> Some j | None \<Rightarrow> map_option (\<lambda>j. length ys + j) (position x zs))"
  by (induction ys; cases "position x zs") (auto split: option.splits)

text \<open>The keys are distinct and the lookup table gives each its position, counted from \<open>base\<close>.\<close>

definition indexed :: "nat \<Rightarrow> 'a list \<Rightarrow> ('a \<Rightarrow> u64 option) \<Rightarrow> bool" where
  "indexed base ks lk \<longleftrightarrow>
     distinct ks \<and> lk = (\<lambda>x. map_option (\<lambda>j. as_u64 (base + j)) (position x ks))"

lemma indexed_empty: "indexed base [] (\<lambda>_. None)"
  by (simp add: indexed_def)

lemma indexed_None: "indexed base ks lk \<Longrightarrow> lk x = None \<longleftrightarrow> x \<notin> set ks"
  by (simp add: indexed_def position_None)

lemma indexed_Some:
  "indexed base ks lk \<Longrightarrow> lk x = Some i \<Longrightarrow> \<exists>j < length ks. ks ! j = x \<and> i = as_u64 (base + j)"
  by (auto simp: indexed_def dest: position_SomeD)

lemma indexed_snoc:
  assumes "indexed base ks lk" and "x \<notin> set ks"
  shows "indexed base (ks @ [x]) (lk(x \<mapsto> as_u64 (base + length ks)))"
  using assms by (auto simp: indexed_def position_append position_None [symmetric] fun_eq_iff
      split: option.splits)

locale interner =
  fixes wf :: "'m \<Rightarrow> bool"
    and keys :: "'m \<Rightarrow> 'a list"
    and base :: nat
    and intern :: "'a \<Rightarrow> 'm \<Rightarrow> u64 \<times> 'm"
  assumes keys_distinct: "wf m \<Longrightarrow> distinct (keys m)"
    and intern_wf: "wf m \<Longrightarrow> wf (snd (intern x m))"
    and intern_extends: "wf m \<Longrightarrow> \<exists>ds. keys (snd (intern x m)) = keys m @ ds"
    and intern_known: "wf m \<Longrightarrow> x \<in> set (keys m) \<Longrightarrow> snd (intern x m) = m"
    and intern_id: "wf m \<Longrightarrow> \<exists>j < length (keys (snd (intern x m))).
          keys (snd (intern x m)) ! j = x \<and> fst (intern x m) = as_u64 (base + j)"
begin

lemma intern_member: "wf m \<Longrightarrow> x \<in> set (keys (snd (intern x m)))"
  using intern_id [of m x] by (auto simp: in_set_conv_nth)

text \<open>A key that is present has the index of its position.\<close>

lemma intern_position:
  assumes "wf m" and "j < length (keys m)"
  shows "intern (keys m ! j) m = (as_u64 (base + j), m)"
proof -
  let ?x = "keys m ! j"
  have s: "snd (intern ?x m) = m" using intern_known assms by simp
  then obtain k where "k < length (keys m)" "keys m ! k = ?x" "fst (intern ?x m) = as_u64 (base + k)"
    using intern_id [OF assms(1), of ?x] by auto
  moreover from this have "k = j" using keys_distinct [OF assms(1)] assms(2) nth_eq_iff_index_eq by blast
  ultimately show ?thesis using s by (metis prod.collapse)
qed

lemma intern_again:
  assumes "wf m"
  shows "intern x (snd (intern x m)) = intern x m"
proof -
  let ?m = "snd (intern x m)"
  obtain j where j: "j < length (keys ?m)" "keys ?m ! j = x" "fst (intern x m) = as_u64 (base + j)"
    using intern_id [OF assms] by blast
  have "intern x ?m = (as_u64 (base + j), ?m)"
    using intern_position [OF intern_wf [OF assms] j(1)] j(2) by simp
  then show ?thesis using j(3) by (metis prod.collapse)
qed

lemma fold_intern:
  assumes "wf m"
  shows "wf (fold (\<lambda>y m. snd (intern y m)) ys m) \<and>
    (\<exists>ds. keys (fold (\<lambda>y m. snd (intern y m)) ys m) = keys m @ ds)"
  using assms
proof (induction ys arbitrary: m)
  case (Cons y ys)
  have "wf (snd (intern y m))" by (rule intern_wf [OF Cons.prems])
  moreover obtain ds where "keys (snd (intern y m)) = keys m @ ds"
    using intern_extends [OF Cons.prems] by blast
  ultimately show ?case using Cons.IH [of "snd (intern y m)"] by auto
qed simp

text \<open>An index never changes, whatever is interned later.\<close>

lemma intern_stable:
  assumes "wf m"
  shows "fst (intern x (fold (\<lambda>y m. snd (intern y m)) ys (snd (intern x m)))) = fst (intern x m)"
proof -
  let ?m = "snd (intern x m)" and ?m' = "fold (\<lambda>y m. snd (intern y m)) ys (snd (intern x m))"
  obtain j where j: "j < length (keys ?m)" "keys ?m ! j = x" "fst (intern x m) = as_u64 (base + j)"
    using intern_id [OF assms] by blast
  obtain ds where w: "wf ?m'" and ds: "keys ?m' = keys ?m @ ds"
    using fold_intern [OF intern_wf [OF assms]] by blast
  then have "intern (keys ?m' ! j) ?m' = (as_u64 (base + j), ?m')"
    using intern_position [OF w] j(1) by simp
  then show ?thesis using j ds by (simp add: nth_append)
qed

text \<open>Different keys have different indices, as long as the table fits in the machine.\<close>

lemma intern_injective:
  assumes "wf m" and "base + length (keys (snd (intern y (snd (intern x m))))) \<le> usize_top"
    and "fst (intern y (snd (intern x m))) = fst (intern x m)"
  shows "x = y"
proof -
  let ?m = "snd (intern x m)" and ?m' = "snd (intern y (snd (intern x m)))"
  have w: "wf ?m" by (rule intern_wf [OF assms(1)])
  obtain j where j: "j < length (keys ?m)" "keys ?m ! j = x" "fst (intern x m) = as_u64 (base + j)"
    using intern_id [OF assms(1)] by blast
  obtain k where k: "k < length (keys ?m')" "keys ?m' ! k = y" "fst (intern y ?m) = as_u64 (base + k)"
    using intern_id [OF w] by blast
  obtain ds where ds: "keys ?m' = keys ?m @ ds" using intern_extends [OF w] by blast
  have "as_u64 (base + j) = as_u64 (base + k)" using j(3) k(3) assms(3) by simp
  moreover have "base + j < usize_top" "base + k < usize_top" using assms(2) j(1) k(1) ds by auto
  ultimately have "j = k" by (metis unat_as_u64 add_left_cancel)
  then show ?thesis using j k ds by (simp add: nth_append)
qed

end

subsection \<open>The string table\<close>

definition strings_wf :: "StringManager \<Rightarrow> bool" where
  "strings_wf m \<longleftrightarrow> indexed 0 (map fst (str_map m)) (map_of (str_map m))"

lemma strings_wf_new: "strings_wf strings_new"
  by (simp add: strings_wf_def strings_new_def indexed_def)

lemma string_insert_cases:
  assumes "strings_wf m"
  obtains (known) j where "j < length (str_map m)" "map fst (str_map m) ! j = s"
      "string_get_or_insert s m = (as_u64 j, m)"
    | (fresh) "s \<notin> set (map fst (str_map m))"
      "string_get_or_insert s m =
         (as_u64 (length (str_map m)), \<lparr>str_map = str_map m @ [(s, as_u64 (length (str_map m)))]\<rparr>)"
proof (cases "map_of (str_map m) s")
  case None
  then show ?thesis
    using fresh indexed_None [OF assms [unfolded strings_wf_def], of s]
    by (simp add: string_get_or_insert_def Let_def)
next
  case (Some i)
  then show ?thesis
    using known indexed_Some [OF assms [unfolded strings_wf_def] Some]
    by (auto simp: string_get_or_insert_def)
qed

lemma strings_wf_snoc:
  assumes "strings_wf m" and "s \<notin> set (map fst (str_map m))"
  shows "strings_wf \<lparr>str_map = str_map m @ [(s, as_u64 (length (str_map m)))]\<rparr>"
proof -
  have "map_of (str_map m @ [(s, i)]) = (map_of (str_map m))(s \<mapsto> i)" for i
    using assms(2) by (auto simp: fun_eq_iff map_add_def map_of_eq_None_iff [symmetric]
        split: option.splits)
  then show ?thesis
    using indexed_snoc [OF assms(1) [unfolded strings_wf_def] assms(2)] by (simp add: strings_wf_def)
qed

interpretation strs: interner strings_wf "\<lambda>m. map fst (str_map m)" 0 string_get_or_insert
proof
  fix m x assume w: "strings_wf m"
  show "distinct (map fst (str_map m))" using w by (simp add: strings_wf_def indexed_def)
  show "strings_wf (snd (string_get_or_insert x m))"
    using w by (cases rule: string_insert_cases [OF w, of x]) (auto intro: strings_wf_snoc)
  show "\<exists>ds. map fst (str_map (snd (string_get_or_insert x m))) = map fst (str_map m) @ ds"
    by (cases rule: string_insert_cases [OF w, of x]) auto
  show "x \<in> set (map fst (str_map m)) \<Longrightarrow> snd (string_get_or_insert x m) = m"
    by (cases rule: string_insert_cases [OF w, of x]) auto
  show "\<exists>j<length (map fst (str_map (snd (string_get_or_insert x m)))).
          map fst (str_map (snd (string_get_or_insert x m))) ! j = x \<and>
          fst (string_get_or_insert x m) = as_u64 (0 + j)"
    using w
  proof (cases rule: string_insert_cases [where s = x])
    case (known j)
    then show ?thesis by auto
  next
    case fresh
    then show ?thesis by (intro exI [of _ "length (str_map m)"]) (simp add: nth_append)
  qed
qed

subsection \<open>The type table\<close>

definition types_wf :: "TypeManager \<Rightarrow> bool" where
  "types_wf m \<longleftrightarrow> indexed 0 (ty_list m) (ty_map m) \<and>
     (\<forall>i < length (ty_list m). set (register_deps (ty_list m ! i)) \<subseteq> set (take i (ty_list m)))"

lemma types_wf_new: "types_wf types_new"
  by (simp add: types_wf_def types_new_def indexed_empty)

lemma types_wf_snoc:
  assumes "types_wf m" and "ty \<notin> set (ty_list m)" and "set (register_deps ty) \<subseteq> set (ty_list m)"
  shows "types_wf \<lparr>ty_list = ty_list m @ [ty], ty_map = (ty_map m)(ty \<mapsto> as_u64 (length (ty_list m)))\<rparr>"
proof -
  have "set (register_deps ((ty_list m @ [ty]) ! i)) \<subseteq> set (take i (ty_list m @ [ty]))"
    if "i < Suc (length (ty_list m))" for i
    using that assms(1,3) by (cases "i < length (ty_list m)") (auto simp: types_wf_def nth_append less_Suc_eq)
  then show ?thesis
    using assms(1,2) indexed_snoc [of 0 "ty_list m" "ty_map m" ty] by (simp add: types_wf_def)
qed

text \<open>
  What registering types does: the table stays well formed, grows by types of bounded
  rank only, and then contains the types.
\<close>

definition registers :: "nat \<Rightarrow> Type list \<Rightarrow> TypeManager \<Rightarrow> TypeManager \<Rightarrow> bool" where
  "registers n tys m m' \<longleftrightarrow> types_wf m' \<and> set tys \<subseteq> set (ty_list m') \<and>
     (\<exists>ds. ty_list m' = ty_list m @ ds \<and> (\<forall>d \<in> set ds. type_rank d \<le> n))"

lemma registers_fold:
  assumes "\<And>d m. d \<in> set tys \<Longrightarrow> types_wf m \<Longrightarrow> registers n [d] m (f d m)" and "types_wf m"
  shows "registers n tys m (fold f tys m)"
  using assms
proof (induction tys arbitrary: m)
  case Nil
  then show ?case by (simp add: registers_def)
next
  case (Cons ty tys)
  have a: "registers n [ty] m (f ty m)" using Cons.prems by simp
  then have "registers n tys (f ty m) (fold f tys (f ty m))"
    using Cons by (simp add: registers_def)
  with a show ?case by (auto simp: registers_def)
qed

lemma type_get_or_insert_registers:
  "types_wf m \<Longrightarrow> registers (type_rank ty) [ty] m (snd (type_get_or_insert ty m))"
proof (induction ty m rule: type_get_or_insert.induct)
  case (1 ty m)
  show ?case
  proof (cases "ty_map m ty")
    case (Some i)
    then have "ty \<in> set (ty_list m)"
      using "1.prems" indexed_None [of 0 "ty_list m" "ty_map m" ty] by (auto simp: types_wf_def)
    then show ?thesis using Some "1.prems" by (simp add: registers_def type_get_or_insert.simps [of ty m])
  next
    case None
    let ?m = "fold (\<lambda>d m. snd (type_get_or_insert d m)) (register_deps ty) m"
    have fresh: "ty \<notin> set (ty_list m)"
      using None "1.prems" indexed_None [of 0 "ty_list m" "ty_map m" ty] by (auto simp: types_wf_def)
    have r: "registers (type_rank ty - 1) (register_deps ty) m ?m"
    proof (rule registers_fold [OF _ "1.prems"])
      fix d m' assume d: "d \<in> set (register_deps ty)" and w: "types_wf m'"
      from register_deps_rank [OF d] "1.IH" [OF None d w]
      show "registers (type_rank ty - 1) [d] m' (snd (type_get_or_insert d m'))"
        by (force simp: registers_def)
    qed
    have "0 < type_rank ty \<or> register_deps ty = []"
      by (cases "register_deps ty") (use register_deps_rank [of "hd (register_deps ty)" ty] in auto)
    then have "ty \<notin> set (ty_list ?m)" using r fresh by (auto simp: registers_def dest!: bspec [where x = ty])
    then show ?thesis
      using None r types_wf_snoc [of ?m ty]
      by (fastforce simp: registers_def type_get_or_insert.simps [of ty m] Let_def)
  qed
qed

lemma type_get_or_insert_id:
  assumes "types_wf m" and "type_get_or_insert ty m = (i, m')"
  shows "\<exists>j < length (ty_list m'). ty_list m' ! j = ty \<and> i = as_u64 j"
proof (cases "ty_map m ty")
  case None
  then show ?thesis
    using assms(2) by (force simp: type_get_or_insert.simps [of ty m] Let_def nth_append)
next
  case (Some k)
  then show ?thesis
    using assms indexed_Some [of 0 "ty_list m" "ty_map m" ty k]
    by (auto simp: type_get_or_insert.simps [of ty m] types_wf_def)
qed

lemma type_known: "types_wf m \<Longrightarrow> ty \<in> set (ty_list m) \<Longrightarrow> snd (type_get_or_insert ty m) = m"
  using indexed_None [of 0 "ty_list m" "ty_map m" ty]
  by (auto simp: type_get_or_insert.simps [of ty m] types_wf_def split: option.splits)

interpretation typs: interner types_wf ty_list 0 type_get_or_insert
proof
  fix m x assume w: "types_wf m"
  note r = type_get_or_insert_registers [OF w, of x]
  show "distinct (ty_list m)" using w by (simp add: types_wf_def indexed_def)
  show "types_wf (snd (type_get_or_insert x m))" using r by (simp add: registers_def)
  show "\<exists>ds. ty_list (snd (type_get_or_insert x m)) = ty_list m @ ds" using r by (auto simp: registers_def)
  show "x \<in> set (ty_list m) \<Longrightarrow> snd (type_get_or_insert x m) = m" by (rule type_known [OF w])
  show "\<exists>j<length (ty_list (snd (type_get_or_insert x m))).
          ty_list (snd (type_get_or_insert x m)) ! j = x \<and> fst (type_get_or_insert x m) = as_u64 (0 + j)"
    using type_get_or_insert_id [OF w, of x] by (simp add: prod.split_sel_asm prod_eq_iff)
qed

subsection \<open>The debug attribute table\<close>

definition debug_table_wf :: "DebugAttrTable \<Rightarrow> bool" where
  "debug_table_wf t \<longleftrightarrow> indexed 1 (da_entries t) (da_map t)"

lemma debug_table_wf_new: "debug_table_wf debug_table_new"
  by (simp add: debug_table_wf_def debug_table_new_def indexed_empty)

lemma debug_intern_cases:
  assumes "debug_table_wf t"
  obtains (known) j where "j < length (da_entries t)" "da_entries t ! j = b"
      "debug_intern b t = (as_u64 (1 + j), t)"
    | (fresh) "b \<notin> set (da_entries t)"
      "debug_intern b t = (as_u64 (1 + length (da_entries t)),
         \<lparr>da_map = (da_map t)(b \<mapsto> as_u64 (1 + length (da_entries t))), da_entries = da_entries t @ [b]\<rparr>)"
proof (cases "da_map t b")
  case None
  then show ?thesis
    using fresh indexed_None [OF assms [unfolded debug_table_wf_def], of b]
    by (simp add: debug_intern_def Let_def add.commute)
next
  case (Some i)
  then show ?thesis
    using known indexed_Some [OF assms [unfolded debug_table_wf_def] Some]
    by (auto simp: debug_intern_def)
qed

interpretation dbg: interner debug_table_wf da_entries 1 debug_intern
proof
  fix m x assume w: "debug_table_wf m"
  show "distinct (da_entries m)" using w by (simp add: debug_table_wf_def indexed_def)
  show "debug_table_wf (snd (debug_intern x m))"
    using w
  proof (cases rule: debug_intern_cases [where b = x])
    case (known j)
    then show ?thesis using w by simp
  next
    case fresh
    then show ?thesis using indexed_snoc [OF w [unfolded debug_table_wf_def], of x]
      by (simp add: debug_table_wf_def)
  qed
  show "\<exists>ds. da_entries (snd (debug_intern x m)) = da_entries m @ ds"
    using w by (cases rule: debug_intern_cases [where b = x]) auto
  show "x \<in> set (da_entries m) \<Longrightarrow> snd (debug_intern x m) = m"
    using w by (cases rule: debug_intern_cases [where b = x]) auto
  show "\<exists>j<length (da_entries (snd (debug_intern x m))).
          da_entries (snd (debug_intern x m)) ! j = x \<and> fst (debug_intern x m) = as_u64 (1 + j)"
    using w
  proof (cases rule: debug_intern_cases [where b = x])
    case (known j)
    then show ?thesis by auto
  next
    case fresh
    then show ?thesis by (intro exI [of _ "length (da_entries m)"]) simp
  qed
qed

text \<open>An interned attribute never has the reserved identifier 0.\<close>

lemma debug_intern_nonzero:
  assumes "debug_table_wf t" and "length (da_entries (snd (debug_intern b t))) < usize_top - 1"
  shows "fst (debug_intern b t) \<noteq> MISSING_DEBUG_ATTR_ID"
proof -
  obtain j where j: "j < length (da_entries (snd (debug_intern b t)))"
    "fst (debug_intern b t) = as_u64 (1 + j)"
    using dbg.intern_id [OF assms(1), of b] by blast
  then have "unat (fst (debug_intern b t)) = 1 + j"
    using assms(2) by (simp only: j(2)) (rule unat_as_u64, simp)
  then show ?thesis by (auto simp: MISSING_DEBUG_ATTR_ID_def)
qed

lemma ensure_non_empty_id:
  "debug_table_wf t \<Longrightarrow> da_entries t = [] \<Longrightarrow> fst (debug_intern [debug_tag_u8 DebugTag_Unknown] t) = 1"
  using debug_intern_cases [of t "[debug_tag_u8 DebugTag_Unknown]"] by fastforce

lemma ensure_non_empty_wf:
  "debug_table_wf t \<Longrightarrow> debug_table_wf (ensure_non_empty t) \<and> da_entries (ensure_non_empty t) \<noteq> []"
  using dbg.intern_wf [of t] dbg.intern_id [of t "[debug_tag_u8 DebugTag_Unknown]"]
  by (auto simp: ensure_non_empty_def)

section \<open>Tables built from scratch\<close>

definition register_all :: "Type list \<Rightarrow> TypeManager" where
  "register_all tys = fold (\<lambda>ty m. snd (type_get_or_insert ty m)) tys types_new"

lemma register_all_wf: "types_wf (register_all tys)"
  unfolding register_all_def using typs.fold_intern [OF types_wf_new] by blast

lemma register_all_member:
  assumes "ty \<in> set tys"
  shows "ty \<in> set (ty_list (register_all tys))"
proof -
  obtain as bs where tys: "tys = as @ ty # bs" using assms by (meson split_list)
  define m where "m = snd (type_get_or_insert ty (register_all as))"
  have "types_wf m" unfolding m_def by (rule typs.intern_wf [OF register_all_wf])
  then obtain ds where "ty_list (fold (\<lambda>ty m. snd (type_get_or_insert ty m)) bs m) = ty_list m @ ds"
    using typs.fold_intern by blast
  moreover have "register_all tys = fold (\<lambda>ty m. snd (type_get_or_insert ty m)) bs m"
    by (simp add: register_all_def m_def tys)
  moreover have "ty \<in> set (ty_list m)"
    unfolding m_def by (rule typs.intern_member [OF register_all_wf])
  ultimately show ?thesis by simp
qed

end
