(* ===== verification/Sections.thy ===== *)
theory Sections
  imports Reader Interning
begin

text \<open>
  The container format: the file header, section headers with alignment padding, and the
  sections that are a table of offsets followed by the entries: strings and constants
  (\<open>cutile-ir/src/bytecode/{writer,decoder}.rs\<close>). Both sides are modelled, and what the
  parser returns on what the writer produced is proved for each.

  The running offsets are 32-bit (64-bit for constants) additions that wrap, as in a
  release build; the round trips state the size up to which they are exact.
\<close>

section \<open>Errors of the writer\<close>

text \<open>
  The messages of \<open>Error::BytecodeWrite\<close>: those with arguments by a constructor that
  carries them, the others by their text.
\<close>

datatype write_error =
    RequiresVersion string BytecodeVersion BytecodeVersion
  | BelowMinimumVersion BytecodeVersion
  | UnsupportedVersion BytecodeVersion
  | OperandNotFound Value Opcode
  | GroupOperandNotFound nat nat
  | VariadicOperandNotFound nat nat
  | MissingAttribute string Opcode
  | MissingInterfaceAttribute string Opcode
  | TooManyTokenOperands Opcode
  | InboundsCount Opcode nat
  | BytecodeWrite string

definition require_version :: "string \<Rightarrow> BytecodeVersion \<Rightarrow> BytecodeVersion \<Rightarrow> (write_error, unit) res" where
  "require_version feature required target =
     (if target < required then Inl (Err (RequiresVersion feature required target)) else Inr ())"

lemma require_version_eq_Inr [simp]: "require_version f q t = Inr u \<longleftrightarrow> q \<le> t"
  by (auto simp: require_version_def)

lemma require_version_ok [simp]: "q \<le> t \<Longrightarrow> require_version f q t = Inr ()"
  by simp

lemma require_version_eq_Inl:
  "require_version f q t = Inl e \<longleftrightarrow> t < q \<and> e = Err (RequiresVersion f q t)"
  by (auto simp: require_version_def)

section \<open>Headers\<close>

definition write_header :: "bytes \<Rightarrow> BytecodeVersion \<Rightarrow> bytes" where
  "write_header out version = out @ MAGIC @ [major version] @ [minor version] @ to_le 2 (tag version)"

text \<open>The length and the alignment are written by the loop of \<open>write_varint\<close>, inlined.\<close>

definition write_section_header :: "bytes \<Rightarrow> Section \<Rightarrow> nat \<Rightarrow> u64 \<Rightarrow> bytes" where
  "write_section_header out sid len al =
     (let id_byte = section_id sid AND 0x7F;
          id_byte = (if al > 1 then id_byte OR 0x80 else id_byte);
          out = out @ [id_byte];
          out = write_varint_loop (as_u64 len) out
      in if al > 1
         then let out = write_varint_loop al out
              in out @ replicate (padding_to al (length out)) ALIGNMENT_BYTE
         else out)"

section \<open>Offset tables\<close>

text \<open>Append the entries, recording where each starts.\<close>

fun write_entries :: "bytes list \<Rightarrow> 'o::len word \<Rightarrow> EncodingWriter \<Rightarrow> 'o word list \<times> EncodingWriter" where
  "write_entries [] running w = ([], w)"
| "write_entries (e # es) running w =
     (let (offsets, w) = write_entries es (running + word_of_nat (length e)) (write_bytes e w)
      in (running # offsets, w))"

definition patch_offsets ::
  "(bytes \<Rightarrow> nat \<Rightarrow> 'o::len word \<Rightarrow> 'e fault + bytes) \<Rightarrow> nat \<Rightarrow> nat \<Rightarrow> 'o word list \<Rightarrow> bytes \<Rightarrow> 'e fault + bytes"
  where
  "patch_offsets patch offsets_pos width offsets b =
     for_each (\<lambda>(i, offset) b. patch b (offsets_pos + i * width) offset) (enumerate 0 offsets) b"

definition write_string_section :: "bytes \<Rightarrow> StringManager \<Rightarrow> (write_error, bytes) res" where
  "write_string_section out strings =
     (if str_map strings = [] then Inr out
      else
        let w = write_varint (as_u64 (length (str_map strings))) writer_new;
            w = align_to 4 w;
            offsets_pos = tell w;
            w = fold (\<lambda>_. write_le_u32 0) [0..<length (str_map strings)] w;
            (offsets, w) = write_entries (map (\<lambda>(s, _). as_bytes s) (str_map strings)) (0 :: u32) w
        in and_then (patch_offsets patch_u32 offsets_pos 4 offsets (buf w)) (\<lambda>buf.
             Inr (write_section_header out Section_String (length buf) 4 @ buf)))"

definition write_constant_section :: "bytes \<Rightarrow> ConstantManager \<Rightarrow> (write_error, bytes) res" where
  "write_constant_section out constants =
     (if const_entries constants = [] then Inr out
      else
        let w = write_varint (as_u64 (length (const_entries constants))) writer_new;
            w = align_to 8 w;
            offsets_pos = tell w;
            w = fold (\<lambda>_. write_le_u64 0) [0..<length (const_entries constants)] w;
            (offsets, w) = write_entries (const_entries constants) (0 :: u64) w
        in and_then (patch_offsets patch_u64 offsets_pos 8 offsets (buf w)) (\<lambda>buf.
             Inr (write_section_header out Section_Constant (length buf) 8 @ buf)))"

section \<open>Parsing offset tables\<close>

text \<open>\<open>Vec::with_capacity(n)\<close> panics when the elements would exceed \<open>isize::MAX\<close> bytes.\<close>

definition with_capacity :: "nat \<Rightarrow> nat \<Rightarrow> 'e fault + unit" where
  "with_capacity elem_size n = (if n * elem_size < isize_top then Inr () else Inl Panic)"

text \<open>
  Entry \<open>i\<close> is the slice from its offset to the next one, the last entry to the end of the
  data; a slice out of range panics.
\<close>

fun table_slices :: "nat list \<Rightarrow> bytes \<Rightarrow> 'e fault + bytes list" where
  "table_slices [] d = Inr []"
| "table_slices (start # offsets) d =
     and_then (slice_of d start (case offsets of next # _ \<Rightarrow> next | [] \<Rightarrow> length d)) (\<lambda>s.
     and_then (table_slices offsets d) (\<lambda>ss. Inr (s # ss)))"

definition string_entry :: "bytes \<Rightarrow> string" where
  "string_entry bs = (case from_utf8 bs of Some s \<Rightarrow> s | None \<Rightarrow> ''<invalid utf8>'')"

definition parse_string_section :: "bytes option \<Rightarrow> (decode_error, string list) res" where
  "parse_string_section payload =
     (case payload of
        None \<Rightarrow> Inr []
      | Some d \<Rightarrow>
          and_then (read_varint (reader_new d)) (\<lambda>(count, r).
            if count = 0 then Inr []
            else and_then (skip_padding 4 r) (\<lambda>r.
                 and_then (with_capacity 8 (as_usize count)) (\<lambda>_.
                 and_then (read_many read_le_u32 (as_usize count) r) (\<lambda>(offsets, r).
                 and_then (read_bytes (remaining r) r) (\<lambda>(string_data, r).
                 and_then (with_capacity 24 (as_usize count)) (\<lambda>_.
                 and_then (table_slices (map as_usize offsets) string_data) (\<lambda>slices.
                   Inr (map string_entry slices)))))))))"

definition parse_constant_section :: "bytes option \<Rightarrow> (decode_error, bytes list) res" where
  "parse_constant_section payload =
     (case payload of
        None \<Rightarrow> Inr []
      | Some d \<Rightarrow>
          and_then (read_varint (reader_new d)) (\<lambda>(count, r).
            if count = 0 then Inr []
            else and_then (skip_padding 8 r) (\<lambda>r.
                 and_then (with_capacity 8 (as_usize count)) (\<lambda>_.
                 and_then (read_many read_le_u64 (as_usize count) r) (\<lambda>(offsets, r).
                 and_then (read_bytes (remaining r) r) (\<lambda>(const_data, r).
                 and_then (with_capacity 24 (as_usize count)) (\<lambda>_.
                 table_slices (map as_usize offsets) const_data)))))))"

section \<open>What the headers put on the wire\<close>

definition header_bytes :: "BytecodeVersion \<Rightarrow> bytes" where
  "header_bytes v = MAGIC @ [major v] @ [minor v] @ to_le 2 (tag v)"

lemma write_header_eq: "write_header out v = out @ header_bytes v"
  by (simp add: write_header_def header_bytes_def)

lemma length_MAGIC: "length MAGIC = 8"
  by (simp add: MAGIC_def)

lemma length_header_bytes [simp]: "length (header_bytes v) = 12"
  by (simp add: header_bytes_def length_MAGIC)

interpretation header: codec header_bytes read_header
proof
  fix r v rest
  assume a: "at r (header_bytes v @ rest)"
  then have a8: "at r (MAGIC @ [major v] @ [minor v] @ to_le 2 (tag v) @ rest)"
    by (simp add: header_bytes_def)
  have m: "read_bytes 8 r = Inr (MAGIC, advance 8 r)" by (rule read_bytes_at [OF a8]) (simp add: length_MAGIC)
  have a9: "at (advance 8 r) ([major v] @ [minor v] @ to_le 2 (tag v) @ rest)"
    using at_advance [OF a8] by (simp add: length_MAGIC)
  have a10: "at (advance 9 r) ([minor v] @ to_le 2 (tag v) @ rest)" using at_advance [OF a9] by simp
  have a11: "at (advance 10 r) (to_le 2 (tag v) @ rest)" using at_advance [OF a10] by simp
  from m byte.decode_encoded [OF a9] byte.decode_encoded [OF a10] le_u16.decode_encoded [OF a11]
  show "read_header r = Inr (v, advance (length (header_bytes v)) r)"
    by (simp add: read_header_def read_le_u8_def)
qed

definition section_header_bytes :: "nat \<Rightarrow> Section \<Rightarrow> nat \<Rightarrow> u64 \<Rightarrow> bytes" where
  "section_header_bytes p sid len al =
     (if al > 1
      then [section_id sid OR 0x80] @ varint (as_u64 len) @ varint al
           @ pad_bytes al (p + 1 + length (varint (as_u64 len)) + length (varint al))
      else [section_id sid] @ varint (as_u64 len))"

lemma section_id_low7: "section_id sid AND 0x7F = section_id sid"
  by (cases sid) simp_all

lemma section_id_flagged: "(section_id sid OR 0x80) AND 0x7F = section_id sid" "(section_id sid OR 0x80) AND 0x80 \<noteq> 0"
  "section_id sid AND 0x80 = 0"
  by (cases sid; simp)+

lemma section_id_end: "section_id sid = 0 \<longleftrightarrow> sid = Section_EndOfBytecode"
  by (cases sid) simp_all

lemma write_section_header_eq:
  "write_section_header out sid len al = out @ section_header_bytes (length out) sid len al"
proof -
  have "\<not> al < 2" if "1 < al" using that by (simp add: word_less_nat_alt word_le_nat_alt)
  then show ?thesis
    by (auto simp: write_section_header_def section_header_bytes_def write_varint_loop_eq
        section_id_low7 pad_bytes_def Let_def add.assoc)
qed

text \<open>The reader recovers the section and its length and stops at the aligned payload.\<close>

lemma read_section_header_at:
  assumes a: "at r (section_header_bytes (pos r) sid len al @ rest)"
    and "sid \<noteq> Section_EndOfBytecode" and "len < usize_top"
  shows "read_section_header r = Inr (\<lparr>sh_id = section_id sid, sh_data_len = len\<rparr>,
           advance (length (section_header_bytes (pos r) sid len al)) r)"
proof (cases "al > 1")
  case True
  let ?n = "length (varint (as_u64 len))" and ?k = "length (varint al)"
  have a0: "at r ((section_id sid OR 0x80) # varint (as_u64 len) @ varint al
      @ pad_bytes al (pos r + 1 + ?n + ?k) @ rest)"
    using a True by (simp add: section_header_bytes_def)
  note a1 = at_advance_1 [OF a0]
  note a2 = at_advance [OF a1, simplified]
  note a3 = at_advance [OF a2, simplified]
  have "skip_padding al (advance (Suc (?n + ?k)) r)
      = Inr (advance (length (pad_bytes al (pos r + 1 + ?n + ?k))) (advance (Suc (?n + ?k)) r))"
    using skip_padding_at [of "advance (Suc (?n + ?k)) r" al rest] a3 by (simp add: add.assoc)
  then show ?thesis
    using True assms(2,3) read_byte_at [OF a0] varint.decode_encoded [OF a1] varint.decode_encoded [OF a2]
    by (simp add: read_section_header_def section_id_flagged section_id_end section_header_bytes_def
        Let_def add.assoc)
next
  case False
  have a0: "at r (section_id sid # varint (as_u64 len) @ rest)"
    using a False by (simp add: section_header_bytes_def)
  show ?thesis
    using False assms(2,3) read_byte_at [OF a0] varint.decode_encoded [OF at_advance_1 [OF a0]]
    by (simp add: read_section_header_def section_id_flagged section_id_end section_id_low7
        section_header_bytes_def Let_def)
qed

lemma read_section_header_end:
  "at r (section_id Section_EndOfBytecode # rest) \<Longrightarrow>
   read_section_header r = Inr (\<lparr>sh_id = section_id Section_EndOfBytecode, sh_data_len = 0\<rparr>, advance 1 r)"
  by (simp add: read_section_header_def read_byte_at section_id_low7 Let_def)

text \<open>The payload of a section with alignment starts at a multiple of it.\<close>

lemma section_header_aligns:
  assumes "al > 1" and "p + length (section_header_bytes p sid len al) < usize_top"
  shows "(p + length (section_header_bytes p sid len al)) mod unat al = 0"
proof -
  let ?q = "p + 1 + length (varint (as_u64 len)) + length (varint al)"
  have al: "1 < unat al" using assms(1) by (simp add: word_less_nat_alt)
  have "\<not> al < 2" using assms(1) by (simp add: word_less_nat_alt word_le_nat_alt)
  then have e: "p + length (section_header_bytes p sid len al) = ?q + padding_to al ?q"
    using assms(1) by (simp add: section_header_bytes_def pad_bytes_def)
  then have "?q < usize_top" using assms(2) by linarith
  then show ?thesis unfolding e by (rule padding_aligns(1) [OF al])
qed

section \<open>What an offset table puts on the wire\<close>

fun offsets_from :: "nat \<Rightarrow> 'a list list \<Rightarrow> nat list" where
  "offsets_from k [] = []"
| "offsets_from k (e # es) = k # offsets_from (k + length e) es"

lemma length_offsets_from [simp]: "length (offsets_from k es) = length es"
  by (induction es arbitrary: k) auto

lemma offsets_from_bound: "x \<in> set (offsets_from k es) \<Longrightarrow> k \<le> x \<and> x \<le> k + length (concat es)"
  by (induction es arbitrary: k) force+

lemma write_entries_eq:
  "write_entries es (word_of_nat k :: 'o::len word) w = (map word_of_nat (offsets_from k es), write_bytes (concat es) w)"
proof (induction es arbitrary: k w)
  case Nil
  then show ?case by (simp add: write_bytes_def)
next
  case (Cons e es)
  have "write_entries es (word_of_nat k + word_of_nat (length e) :: 'o word) (write_bytes e w)
      = (map word_of_nat (offsets_from (k + length e) es), write_bytes (concat es) (write_bytes e w))"
    using Cons [of "k + length e" "write_bytes e w"] by simp
  then show ?case by (simp add: write_bytes_def)
qed

lemma buf_reserve:
  assumes "\<And>w. buf (f w) = buf w @ z"
  shows "buf (fold (\<lambda>_. f) xs w) = buf w @ concat (replicate (length xs) z)"
  by (induction xs arbitrary: w) (auto simp: assms)

lemma length_concat_to_le [simp]: "length (concat (map (to_le k) offs)) = k * length offs"
  by (induction offs) simp_all

lemma patch_offsets_eq:
  fixes offs :: "'o::len word list"
  assumes "\<And>b off v. patch b off v = patch_bytes b off (to_le k v)"
    and "length z = k" and "length pre = p"
  shows "patch_offsets patch p k offs (pre @ concat (replicate (length offs) z) @ post)
       = Inr (pre @ concat (map (to_le k) offs) @ post)"
proof -
  have "for_each (\<lambda>(i, off) b. patch b (p + i * k) off) (enumerate j rest)
          (pre @ concat (map (to_le k) don) @ concat (replicate (length rest) z) @ post)
      = Inr (pre @ concat (map (to_le k) don) @ concat (map (to_le k) rest) @ post)"
    if "j = length don" for j and don rest :: "'o word list"
    using that
  proof (induction rest arbitrary: j don)
    case (Cons x rest)
    let ?a = "pre @ concat (map (to_le k) don)"
    have "length ?a = p + j * k" using assms(3) Cons.prems by (simp add: mult.commute)
    then have "patch (?a @ z @ concat (replicate (length rest) z) @ post) (p + j * k) x
        = Inr (?a @ to_le k x @ concat (replicate (length rest) z) @ post)"
      using assms(2) by (simp add: assms(1) patch_bytes_def)
    then show ?case using Cons.IH [of "Suc j" "don @ [x]"] Cons.prems by simp
  qed simp
  from this [of 0 "[]" offs] show ?thesis by (simp add: patch_offsets_def)
qed

text \<open>The payload: the count, padding, the offsets in \<open>k\<close> bytes each, and the entries.\<close>

definition table_bytes :: "u64 \<Rightarrow> nat \<Rightarrow> 'o::len itself \<Rightarrow> bytes list \<Rightarrow> bytes" where
  "table_bytes al k t es =
     varint (as_u64 (length es)) @ pad_bytes al (length (varint (as_u64 (length es))))
     @ concat (map (\<lambda>x. to_le k (word_of_nat x :: 'o word)) (offsets_from 0 es)) @ concat es"

lemma write_table_eq:
  fixes reserve :: "EncodingWriter \<Rightarrow> EncodingWriter" and patch :: "bytes \<Rightarrow> nat \<Rightarrow> 'o::len word \<Rightarrow> 'e fault + bytes"
  assumes "\<And>w. buf (reserve w) = buf w @ z" and "length z = k"
    and "\<And>b off v. patch b off v = patch_bytes b off (to_le k v)"
    and w: "w = fold (\<lambda>_. reserve) [0..<length es] w0"
    and w0: "w0 = align_to al (write_varint (as_u64 (length es)) writer_new)"
    and we: "write_entries es (0 :: 'o word) w = (offsets, w')"
  shows "patch_offsets patch (tell w0) k offsets (buf w') = Inr (table_bytes al k TYPE('o) es)"
proof -
  have eqs: "offsets = map word_of_nat (offsets_from 0 es)" "w' = write_bytes (concat es) w"
    using we write_entries_eq [where k = 0 and 'o = 'o, of es w] by simp_all
  have "buf w' = buf w0 @ concat (replicate (length offsets) z) @ concat es"
    using buf_reserve [of reserve z "[0..<length es]" w0, OF assms(1)] by (simp add: eqs layout_simps w)
  then show ?thesis
    using patch_offsets_eq [OF assms(3,2), of "buf w0" "tell w0" offsets "concat es"]
    by (simp add: tell_def eqs w0 layout_simps table_bytes_def comp_def)
qed

lemma length_concat_offsets: "length (concat (map (\<lambda>x. to_le k (f x)) xs)) = k * length xs"
  by (induction xs) simp_all

lemma table_bytes_bound:
  assumes "length es < 2 ^ 32" and "length (concat es) < 2 ^ 62" and "k \<le> 8" and "unat al \<le> 8"
  shows "length (table_bytes al k t es) < isize_top"
proof -
  have "length (pad_bytes al p) \<le> 8" for p using length_pad_bytes [of al p] assms(4) by simp
  then have "length (table_bytes al k t es) \<le> 10 + (8 + (k * length es + length (concat es)))"
    unfolding table_bytes_def length_append length_concat_offsets length_offsets_from
    by (intro add_mono varint_length) simp_all
  moreover have "k * length es \<le> 8 * 2 ^ 32" using assms(1,3) by (intro mult_le_mono) simp_all
  ultimately show ?thesis using assms(2) by simp
qed

section \<open>Reading an offset table back\<close>

lemma table_slices_offsets:
  assumes "drop k d = concat es" and "k \<le> length d"
  shows "(table_slices (offsets_from k es) d :: 'e fault + bytes list) = Inr es"
  using assms
proof (induction es arbitrary: k)
  case (Cons e es)
  have len: "length d = k + length e + length (concat es)"
    using arg_cong [OF Cons.prems(1), of length] Cons.prems(2) by simp
  have "drop (k + length e) d = concat es"
    using Cons.prems(1) by (metis append_eq_conv_conj drop_drop add.commute concat.simps(2))
  then have ih: "(table_slices (offsets_from (k + length e) es) d :: 'e fault + bytes list) = Inr es"
    using Cons.IH len by simp
  have e: "take (length e) (drop k d) = e" using Cons.prems(1) by simp
  show ?case
  proof (cases es)
    case Nil
    then show ?thesis using e len by (simp add: slice_of_def)
  next
    case (Cons e' es')
    then show ?thesis using e len ih by (simp add: slice_of_def)
  qed
qed simp

text \<open>
  The common part of the table parsers: after the count, the padding and the offsets
  follow, and the rest is the data.
\<close>

lemma unat_le_offsets:
  assumes "length (concat es) < 2 ^ LENGTH('o::len)"
  shows "map (as_usize :: 'o word \<Rightarrow> nat) (map word_of_nat (offsets_from 0 es)) = offsets_from 0 es"
  using assms by (auto simp: comp_def unat_of_nat intro!: map_idI dest!: offsets_from_bound)

lemma read_table_at:
  fixes dec :: "Reader \<Rightarrow> (decode_error, 'o::len word \<times> Reader) res"
  assumes "codec (to_le k :: 'o word \<Rightarrow> bytes) dec"
    and "length (table_bytes al k TYPE('o) es) < isize_top" and "length es < 2 ^ 32"
    and "length (concat es) < 2 ^ LENGTH('o)" and "es \<noteq> []"
  shows "\<exists>r1 r2 r3 offsets.
    read_varint (reader_new (table_bytes al k TYPE('o) es)) = Inr (as_u64 (length es), r1) \<and>
    as_u64 (length es) \<noteq> 0 \<and> unat (as_u64 (length es)) = length es \<and>
    skip_padding al r1 = Inr r2 \<and>
    read_many dec (length es) r2 = Inr (offsets, r3) \<and>
    read_bytes (remaining r3) r3 = Inr (concat es, advance (length (concat es)) r3) \<and>
    table_slices (map as_usize offsets) (concat es) = (Inr es :: decode_error fault + bytes list)"
proof -
  let ?v = "varint (as_u64 (length es))" and ?offs = "map word_of_nat (offsets_from 0 es) :: 'o word list"
  let ?r0 = "reader_new (table_bytes al k TYPE('o) es)"
  have a0: "at ?r0 (?v @ pad_bytes al (length ?v) @ concat (map (to_le k) ?offs) @ concat es)"
    using at_new [OF assms(2)] by (simp add: table_bytes_def comp_def)
  let ?r1 = "advance (length ?v) ?r0"
  note a1 = at_advance [OF a0]
  let ?r2 = "advance (length (pad_bytes al (length ?v))) ?r1"
  note a2 = at_advance [OF a1]
  let ?r3 = "advance (length (concat (map (to_le k) ?offs))) ?r2"
  have a3: "at ?r3 (concat es @ [])" using at_advance [OF a2] by simp
  have n: "unat (as_u64 (length es)) = length es" using assms(3) by simp
  show ?thesis
  proof (intro exI conjI)
    show "read_varint ?r0 = Inr (as_u64 (length es), ?r1)" by (rule varint.decode_encoded [OF a0])
    show "unat (as_u64 (length es)) = length es" by (rule n)
    show "as_u64 (length es) \<noteq> 0" using n assms(5) by (metis unat_0 length_0_conv)
    show "skip_padding al ?r1 = Inr ?r2"
      using skip_padding_at [of ?r1 al] a1 by (simp add: reader_new_def)
    show "read_many dec (length es) ?r2 = Inr (?offs, ?r3)"
      using codec.read_many_encoded [OF assms(1) a2] by simp
    show "read_bytes (remaining ?r3) ?r3 = Inr (concat es, advance (length (concat es)) ?r3)"
      using read_bytes_at [OF a3, of "remaining ?r3"] at_remaining [OF a3] by simp
    show "table_slices (map as_usize ?offs) (concat es) = (Inr es :: decode_error fault + bytes list)"
      using table_slices_offsets [of 0 "concat es" es] unat_le_offsets [OF assms(4)] by simp
  qed
qed

section \<open>Round trips\<close>

lemma with_capacity_ok: "n < 2 ^ 32 \<Longrightarrow> sz \<le> 64 \<Longrightarrow> with_capacity sz n = Inr ()"
proof -
  assume "n < 2 ^ 32" "sz \<le> 64"
  then have "n * sz \<le> 2 ^ 32 * 64" by (intro mult_le_mono) simp_all
  also have "\<dots> < isize_top" by simp
  finally show ?thesis by (simp add: with_capacity_def)
qed

definition string_payload :: "StringManager \<Rightarrow> bytes" where
  "string_payload m = table_bytes 4 4 TYPE(32) (map (\<lambda>(s, _). as_bytes s) (str_map m))"

definition constant_payload :: "ConstantManager \<Rightarrow> bytes" where
  "constant_payload m = table_bytes 8 8 TYPE(64) (const_entries m)"

lemma to_le_0: "to_le k 0 = replicate k 0"
  by (induction k) simp_all

lemma write_string_section_eq:
  "write_string_section out m =
     Inr (if str_map m = [] then out
          else write_section_header out Section_String (length (string_payload m)) 4 @ string_payload m)"
proof -
  let ?es = "map (\<lambda>(s, _). as_bytes s) (str_map m)"
  let ?w0 = "align_to 4 (write_varint (as_u64 (length (str_map m))) writer_new)"
  obtain offsets w' where we:
    "write_entries ?es (0 :: u32) (fold (\<lambda>_. write_le_u32 0) [0..<length ?es] ?w0) = (offsets, w')"
    by fastforce
  have "patch_offsets patch_u32 (tell ?w0) 4 offsets (buf w') = (Inr (string_payload m) :: (write_error, bytes) res)"
    unfolding string_payload_def
    by (rule write_table_eq [OF _ _ _ refl _ we, where z = "replicate 4 0"])
      (simp_all add: patch_u32_def layout_simps to_le_0)
  then show ?thesis using we by (simp add: write_string_section_def Let_def)
qed

lemma write_constant_section_eq:
  "write_constant_section out m =
     Inr (if const_entries m = [] then out
          else write_section_header out Section_Constant (length (constant_payload m)) 8 @ constant_payload m)"
proof -
  let ?es = "const_entries m"
  let ?w0 = "align_to 8 (write_varint (as_u64 (length ?es)) writer_new)"
  obtain offsets w' where we:
    "write_entries ?es (0 :: u64) (fold (\<lambda>_. write_le_u64 0) [0..<length ?es] ?w0) = (offsets, w')"
    by fastforce
  have "patch_offsets patch_u64 (tell ?w0) 8 offsets (buf w') = (Inr (constant_payload m) :: (write_error, bytes) res)"
    unfolding constant_payload_def
    by (rule write_table_eq [OF _ _ _ refl _ we, where z = "replicate 8 0"])
      (simp_all add: patch_u64_def layout_simps to_le_0)
  then show ?thesis using we by (simp add: write_constant_section_def Let_def)
qed

text \<open>A string as the decoder shows it; every Rust string is shown as it is.\<close>

definition shown :: "string \<Rightarrow> string" where
  "shown str = string_entry (as_bytes str)"

lemma shown_rust_str [simp]: "rust_str str \<Longrightarrow> shown str = str"
  by (simp add: shown_def string_entry_def)

lemma parse_string_payload:
  assumes "length (str_map m) < 2 ^ 32" and "length (concat (map fst (str_map m))) < 2 ^ 32"
    and "str_map m \<noteq> []"
  shows "parse_string_section (Some (string_payload m)) = Inr (map (shown \<circ> fst) (str_map m))"
proof -
  let ?es = "map (\<lambda>(s, _). as_bytes s) (str_map m)"
  have "length (concat ?es) = length (concat (map fst (str_map m)))"
    by (simp add: length_concat comp_def case_prod_beta)
  then have l: "length (concat ?es) < 2 ^ LENGTH(32)" using assms(2) by simp
  have "length (string_payload m) < isize_top"
    unfolding string_payload_def using l assms(1) by (intro table_bytes_bound) simp_all
  with l obtain r1 r2 r3 offsets where t:
    "read_varint (reader_new (string_payload m)) = Inr (as_u64 (length (str_map m)), r1)"
    "as_u64 (length (str_map m)) \<noteq> 0" "unat (as_u64 (length (str_map m))) = length (str_map m)"
    "skip_padding 4 r1 = Inr r2"
    "read_many read_le_u32 (length (str_map m)) r2 = Inr (offsets, r3)"
    "read_bytes (remaining r3) r3 = Inr (concat ?es, advance (length (concat ?es)) r3)"
    "table_slices (map as_usize offsets) (concat ?es) = (Inr ?es :: decode_error fault + bytes list)"
    using read_table_at [OF le_u32.codec_axioms, of 4 ?es] assms(1,3)
    by (auto simp: string_payload_def)
  have "map string_entry ?es = map (shown \<circ> fst) (str_map m)"
    by (simp add: shown_def case_prod_beta)
  then show ?thesis
    using t assms(1) by (simp add: parse_string_section_def with_capacity_ok del: map_map)
qed

lemma parse_constant_payload:
  assumes "length (constant_payload m) < isize_top" and "length (const_entries m) < 2 ^ 32"
    and "const_entries m \<noteq> []"
  shows "parse_constant_section (Some (constant_payload m)) = Inr (const_entries m)"
proof -
  have "length (concat (const_entries m)) < 2 ^ LENGTH(64)"
    using assms(1) by (simp add: constant_payload_def table_bytes_def)
  then obtain r1 r2 r3 offsets where
    "read_varint (reader_new (constant_payload m)) = Inr (as_u64 (length (const_entries m)), r1)"
    "as_u64 (length (const_entries m)) \<noteq> 0"
    "unat (as_u64 (length (const_entries m))) = length (const_entries m)"
    "skip_padding 8 r1 = Inr r2"
    "read_many read_le_u64 (length (const_entries m)) r2 = Inr (offsets, r3)"
    "read_bytes (remaining r3) r3
       = Inr (concat (const_entries m), advance (length (concat (const_entries m))) r3)"
    "table_slices (map as_usize offsets) (concat (const_entries m))
       = (Inr (const_entries m) :: decode_error fault + bytes list)"
    using read_table_at [OF le_u64.codec_axioms, of 8 "const_entries m"] assms
    by (auto simp: constant_payload_def)
  then show ?thesis
    using assms(2) by (simp add: parse_constant_section_def with_capacity_ok)
qed

end
