(* ===== verification/DebugInfo.thy ===== *)
theory DebugInfo
  imports Sections
begin

text \<open>
  Debug information: \<open>DebugInfoCollector\<close> and \<open>write_debug_section\<close> of \<open>writer.rs\<close>, which
  turn source locations into interned attributes and one list of attribute identifiers
  per function, and \<open>parse_debug_section\<close> of \<open>decoder.rs\<close>. The decoder prints each
  attribute; here it returns the attribute with its strings looked up.
\<close>

section \<open>Collecting\<close>

record DebugInfoCollector =
  attrs :: DebugAttrTable
  per_function :: "u64 list list"
  current_scope :: u64

definition debug_new :: DebugInfoCollector where
  "debug_new = \<lparr>attrs = debug_table_new, per_function = [], current_scope = 0\<rparr>"

definition subprogram_attr ::
  "DISubprogram \<Rightarrow> StringManager \<Rightarrow> DebugAttrTable \<Rightarrow> u64 \<times> StringManager \<times> DebugAttrTable" where
  "subprogram_attr sp ss t =
     (let (file, ss, t) = di_file (df_name (sp_file sp)) (df_directory (sp_file sp)) ss t;
          (cu_file', ss, t) = di_file (df_name (cu_file (sp_compile_unit sp)))
                                      (df_directory (cu_file (sp_compile_unit sp))) ss t;
          (cu, t) = di_compile_unit cu_file' t
      in di_subprogram file (ucast (sp_line sp)) (sp_name sp) (sp_linkage_name sp) cu
           (ucast (sp_scope_line sp)) ss t)"

fun scope_attr ::
  "DebugScope \<Rightarrow> StringManager \<Rightarrow> DebugAttrTable \<Rightarrow> u64 \<times> StringManager \<times> DebugAttrTable" where
  "scope_attr (Subprogram sp) ss t = subprogram_attr sp ss t"
| "scope_attr (LexicalBlock scope fl line column) ss t =
     (let (parent, ss, t) = scope_attr scope ss t;
          (file, ss, t) = di_file (df_name fl) (df_directory fl) ss t;
          (i, t) = di_lexical_block parent file (ucast line) (ucast column) t
      in (i, ss, t))"

text \<open>\<open>scope\<close> is \<open>self.current_scope\<close>, which the function does not change.\<close>

fun attr_for ::
  "u64 \<Rightarrow> Location \<Rightarrow> StringManager \<Rightarrow> DebugAttrTable \<Rightarrow> u64 \<times> StringManager \<times> DebugAttrTable" where
  "attr_for scope Loc_Unknown ss t = (MISSING_DEBUG_ATTR_ID, ss, t)"
| "attr_for scope (Loc_FileLineCol filename line column) ss t =
     (if scope = MISSING_DEBUG_ATTR_ID then (MISSING_DEBUG_ATTR_ID, ss, t)
      else di_loc scope filename (ucast line) (ucast column) ss t)"
| "attr_for scope (Loc_DebugInfo di) ss t =
     (let (sc, ss, t) = scope_attr (di_scope di) ss t
      in di_loc sc (di_filename di) (ucast (di_line di)) (ucast (di_column di)) ss t)"
| "attr_for scope (Loc_CallSite callee caller) ss t =
     (let (callee_attr, ss, t) = attr_for scope callee ss t
      in if callee_attr = MISSING_DEBUG_ATTR_ID then (MISSING_DEBUG_ATTR_ID, ss, t)
         else let (caller_attr, ss, t) = attr_for scope caller ss t;
                  (i, t) = di_call_site callee_attr caller_attr t
              in (i, ss, t))"

text \<open>\<open>path.rfind('/')\<close> splits at the last slash.\<close>

definition split_file_path :: "string \<Rightarrow> string \<times> string" where
  "split_file_path path =
     (if CHR ''/'' \<in> set path
      then (rev (tl (dropWhile (\<lambda>c. c \<noteq> CHR ''/'') (rev path))), rev (takeWhile (\<lambda>c. c \<noteq> CHR ''/'') (rev path)))
      else ([], path))"

definition begin_function ::
  "string \<Rightarrow> string option \<Rightarrow> Location \<Rightarrow> StringManager \<Rightarrow> DebugInfoCollector
    \<Rightarrow> u64 \<times> StringManager \<times> DebugInfoCollector" where
  "begin_function symbol di_name loc ss d =
     (let (scope, ss, t) =
            (case loc of
               Loc_FileLineCol filename line _ \<Rightarrow>
                 (let (dir, base) = split_file_path filename;
                      (file, ss, t) = di_file base dir ss (attrs d);
                      (cu, t) = di_compile_unit file t
                  in di_subprogram file (ucast line) (case di_name of Some n \<Rightarrow> n | None \<Rightarrow> symbol)
                       symbol cu (ucast line) ss t)
             | Loc_DebugInfo di \<Rightarrow> scope_attr (di_scope di) ss (attrs d)
             | _ \<Rightarrow> (MISSING_DEBUG_ATTR_ID, ss, attrs d));
          (func_attr, ss, t) = attr_for scope loc ss t;
          d = \<lparr>attrs = t, per_function = per_function d @ [[func_attr]], current_scope = scope\<rparr>
      in (as_u64 (length (per_function d)), ss, d))"

definition record_op :: "Location \<Rightarrow> StringManager \<Rightarrow> DebugInfoCollector \<Rightarrow> StringManager \<times> DebugInfoCollector" where
  "record_op loc ss d =
     (let (attr, ss, t) = attr_for (current_scope d) loc ss (attrs d);
          pf = (if per_function d = [] then []
                else butlast (per_function d) @ [last (per_function d) @ [attr]])
      in (ss, d\<lparr>attrs := t, per_function := pf\<rparr>))"

section \<open>Writing\<close>

text \<open>The running offset of each list, in 32 bits, and the total.\<close>

fun write_offsets_u32 :: "nat list \<Rightarrow> u32 \<Rightarrow> EncodingWriter \<Rightarrow> u32 \<times> EncodingWriter" where
  "write_offsets_u32 [] k w = (k, w)"
| "write_offsets_u32 (n # ns) k w = write_offsets_u32 ns (k + as_u32 n) (write_le_u32 k w)"

definition write_debug_section :: "bytes \<Rightarrow> DebugInfoCollector \<Rightarrow> bytes \<times> DebugInfoCollector" where
  "write_debug_section out d =
     (let w = write_varint (as_u64 (length (per_function d))) writer_new;
          w = align_to 4 w;
          (index_offset, w) = write_offsets_u32 (map length (per_function d)) 0 w;
          w = write_varint (ucast index_offset) w;
          w = align_to 8 w;
          w = fold (fold write_le_u64) (per_function d) w;
          d = d\<lparr>attrs := ensure_non_empty (attrs d)\<rparr>;
          entries = da_entries (attrs d);
          w = write_varint (as_u64 (length entries)) w;
          w = align_to 4 w;
          (_, w) = write_offsets_u32 (map length entries) 0 w;
          w = fold write_bytes entries w;
          buf = buf w
      in (write_section_header out Section_Debug (length buf) 8 @ buf, d))"

section \<open>Parsing\<close>

text \<open>A printed attribute: identifiers as numbers, string indices as the strings.\<close>

datatype DebugLine =
    DL_File string string
  | DL_CompileUnit u64
  | DL_LexicalBlock u64 u64 u64 u64
  | DL_Loc u64 string u64 u64
  | DL_Subprogram u64 u64 string string u64 u64
  | DL_CallSite u64 u64
  | DL_Unknown

definition string_at :: "string list \<Rightarrow> u64 \<Rightarrow> string" where
  "string_at ss i = (case get_opt ss (as_usize i) of Some s \<Rightarrow> s | None \<Rightarrow> ''<bad string index>'')"

definition parse_debug_attr :: "string list \<Rightarrow> bytes \<Rightarrow> (decode_error, DebugLine) res" where
  "parse_debug_attr ss d =
     and_then (read_byte (reader_new d)) (\<lambda>(t, a).
       if t = debug_tag_u8 DebugTag_DIFile then
         and_then (read_varint a) (\<lambda>(n, a). and_then (read_varint a) (\<lambda>(dir, a).
           Inr (DL_File (string_at ss n) (string_at ss dir))))
       else if t = debug_tag_u8 DebugTag_DICompileUnit then
         and_then (read_varint a) (\<lambda>(file, a). Inr (DL_CompileUnit file))
       else if t = debug_tag_u8 DebugTag_DILexicalBlock then
         and_then (read_varint a) (\<lambda>(scope, a). and_then (read_varint a) (\<lambda>(file, a).
         and_then (read_varint a) (\<lambda>(line, a). and_then (read_varint a) (\<lambda>(col, a).
           Inr (DL_LexicalBlock scope file line col)))))
       else if t = debug_tag_u8 DebugTag_DILoc then
         and_then (read_varint a) (\<lambda>(scope, a). and_then (read_varint a) (\<lambda>(file, a).
         and_then (read_varint a) (\<lambda>(line, a). and_then (read_varint a) (\<lambda>(col, a).
           Inr (DL_Loc scope (string_at ss file) line col)))))
       else if t = debug_tag_u8 DebugTag_DISubprogram then
         and_then (read_varint a) (\<lambda>(file, a). and_then (read_varint a) (\<lambda>(line, a).
         and_then (read_varint a) (\<lambda>(n, a). and_then (read_varint a) (\<lambda>(linkage, a).
         and_then (read_varint a) (\<lambda>(cu, a). and_then (read_varint a) (\<lambda>(scope_line, a).
           Inr (DL_Subprogram file line (string_at ss n) (string_at ss linkage) cu scope_line)))))))
       else if t = debug_tag_u8 DebugTag_CallSite then
         and_then (read_varint a) (\<lambda>(callee, a). and_then (read_varint a) (\<lambda>(caller, a).
           Inr (DL_CallSite callee caller)))
       else if t = debug_tag_u8 DebugTag_Unknown then Inr DL_Unknown
       else Inl (Err (UnknownDebugTag t)))"

fun parse_debug_attrs :: "string list \<Rightarrow> nat list \<Rightarrow> bytes \<Rightarrow> (decode_error, DebugLine list) res" where
  "parse_debug_attrs ss [] d = Inr []"
| "parse_debug_attrs ss (start # offsets) d =
     (let end' = (case offsets of next # _ \<Rightarrow> next | [] \<Rightarrow> length d)
      in if start \<ge> end' \<or> end' > length d then Inl (Err DebugAttributeOffsets)
         else and_then (slice_of d start end') (\<lambda>s.
              and_then (parse_debug_attr ss s) (\<lambda>l.
              and_then (parse_debug_attrs ss offsets d) (\<lambda>ls. Inr (l # ls)))))"

fun parse_debug_functions :: "nat list \<Rightarrow> nat \<Rightarrow> u64 list \<Rightarrow> (decode_error, u64 list list) res" where
  "parse_debug_functions [] num_indices ids = Inr []"
| "parse_debug_functions (start # offsets) num_indices ids =
     (let end' = (case offsets of next # _ \<Rightarrow> next | [] \<Rightarrow> num_indices)
      in if start > end' \<or> end' > length ids then Inl (Err DebugIndexOffsets)
         else and_then (slice_of ids start end') (\<lambda>s.
              and_then (parse_debug_functions offsets num_indices ids) (\<lambda>fs. Inr (s # fs))))"

definition parse_debug_section ::
  "bytes \<Rightarrow> string list \<Rightarrow> (decode_error, DebugLine list \<times> u64 list list) res" where
  "parse_debug_section payload ss =
     (let cap = (\<lambda>n. min n (length payload)) in
      and_then (read_varint (reader_new payload)) (\<lambda>(num_functions, r).
      and_then (skip_padding 4 r) (\<lambda>r.
      and_then (with_capacity 8 (cap (as_usize num_functions))) (\<lambda>_.
      and_then (read_many read_le_u32 (as_usize num_functions) r) (\<lambda>(index_offsets, r).
      and_then (read_varint r) (\<lambda>(num_indices, r).
      and_then (skip_padding 8 r) (\<lambda>r.
      and_then (with_capacity 8 (cap (as_usize num_indices))) (\<lambda>_.
      and_then (read_many read_le_u64 (as_usize num_indices) r) (\<lambda>(attr_ids, r).
      and_then (read_varint r) (\<lambda>(attr_count, r).
      and_then (skip_padding 4 r) (\<lambda>r.
      and_then (with_capacity 8 (cap (as_usize attr_count))) (\<lambda>_.
      and_then (read_many read_le_u32 (as_usize attr_count) r) (\<lambda>(attr_offsets, r).
      and_then (read_bytes (remaining r) r) (\<lambda>(attr_data, r).
      and_then (parse_debug_attrs ss (map as_usize attr_offsets) attr_data) (\<lambda>lines.
      and_then (parse_debug_functions (map as_usize index_offsets) (as_usize num_indices) attr_ids) (\<lambda>fns.
        Inr (lines, fns)))))))))))))))))"

section \<open>The attributes in the table\<close>

text \<open>
  An attribute as the table holds it, with identifiers of other attributes and string
  indices as numbers; its encoding, and the identifiers and string indices it mentions.
\<close>

datatype DebugAttr =
    DA_File u64 u64
  | DA_CompileUnit u64
  | DA_LexicalBlock u64 u64 u64 u64
  | DA_Loc u64 u64 u64 u64
  | DA_Subprogram u64 u64 u64 u64 u64 u64
  | DA_CallSite u64 u64
  | DA_Unknown

fun enc_attr :: "DebugAttr \<Rightarrow> bytes" where
  "enc_attr (DA_File n dir) = debug_tag_u8 DebugTag_DIFile # varint n @ varint dir"
| "enc_attr (DA_CompileUnit file) = debug_tag_u8 DebugTag_DICompileUnit # varint file"
| "enc_attr (DA_LexicalBlock scope file line col) =
     debug_tag_u8 DebugTag_DILexicalBlock # varint scope @ varint file @ varint line @ varint col"
| "enc_attr (DA_Loc scope file line col) =
     debug_tag_u8 DebugTag_DILoc # varint scope @ varint file @ varint line @ varint col"
| "enc_attr (DA_Subprogram file line n linkage cu scope_line) =
     debug_tag_u8 DebugTag_DISubprogram # varint file @ varint line @ varint n @ varint linkage
       @ varint cu @ varint scope_line"
| "enc_attr (DA_CallSite callee caller) = debug_tag_u8 DebugTag_CallSite # varint callee @ varint caller"
| "enc_attr DA_Unknown = [debug_tag_u8 DebugTag_Unknown]"

fun attr_refs :: "DebugAttr \<Rightarrow> u64 set" where
  "attr_refs (DA_File n dir) = {}"
| "attr_refs (DA_CompileUnit file) = {file}"
| "attr_refs (DA_LexicalBlock scope file line col) = {scope, file}"
| "attr_refs (DA_Loc scope file line col) = {scope}"
| "attr_refs (DA_Subprogram file line n linkage cu scope_line) = {file, cu}"
| "attr_refs (DA_CallSite callee caller) = {callee, caller}"
| "attr_refs DA_Unknown = {}"

fun attr_strs :: "DebugAttr \<Rightarrow> u64 set" where
  "attr_strs (DA_File n dir) = {n, dir}"
| "attr_strs (DA_Loc scope file line col) = {file}"
| "attr_strs (DA_Subprogram file line n linkage cu scope_line) = {n, linkage}"
| "attr_strs _ = {}"

fun attr_line :: "string list \<Rightarrow> DebugAttr \<Rightarrow> DebugLine" where
  "attr_line ss (DA_File n dir) = DL_File (string_at ss n) (string_at ss dir)"
| "attr_line ss (DA_CompileUnit file) = DL_CompileUnit file"
| "attr_line ss (DA_LexicalBlock scope file line col) = DL_LexicalBlock scope file line col"
| "attr_line ss (DA_Loc scope file line col) = DL_Loc scope (string_at ss file) line col"
| "attr_line ss (DA_Subprogram file line n linkage cu scope_line) =
     DL_Subprogram file line (string_at ss n) (string_at ss linkage) cu scope_line"
| "attr_line ss (DA_CallSite callee caller) = DL_CallSite callee caller"
| "attr_line ss DA_Unknown = DL_Unknown"

lemma parse_debug_attr_enc:
  "length (enc_attr a) < isize_top \<Longrightarrow> parse_debug_attr ss (enc_attr a) = Inr (attr_line ss a)"
  by (cases a) (simp_all add: parse_debug_attr_def reader_steps)

lemma enc_attr_nonempty [simp]: "enc_attr a \<noteq> []"
  by (cases a) simp_all

section \<open>Every attribute refers to earlier ones\<close>

definition id_ok :: "DebugAttrTable \<Rightarrow> u64 \<Rightarrow> bool" where
  "id_ok t i \<longleftrightarrow> (\<exists>k \<le> length (da_entries t). i = as_u64 k)"

definition str_ok :: "StringManager \<Rightarrow> u64 \<Rightarrow> bool" where
  "str_ok ss i \<longleftrightarrow> (\<exists>k < length (str_map ss). i = as_u64 k)"

definition attr_ok :: "nat \<Rightarrow> StringManager \<Rightarrow> bytes \<Rightarrow> bool" where
  "attr_ok n ss b \<longleftrightarrow> (\<exists>a. b = enc_attr a \<and> (\<forall>i \<in> attr_refs a. \<exists>k \<le> n. i = as_u64 k) \<and>
     (\<forall>i \<in> attr_strs a. str_ok ss i))"

definition debug_ok :: "StringManager \<Rightarrow> DebugAttrTable \<Rightarrow> bool" where
  "debug_ok ss t \<longleftrightarrow> strings_wf ss \<and> debug_table_wf t \<and>
     (\<forall>j < length (da_entries t). attr_ok j ss (da_entries t ! j))"

text \<open>A step that may grow both tables and returns an identifier that is valid in the result.\<close>

definition str_ext :: "StringManager \<Rightarrow> StringManager \<Rightarrow> bool" where
  "str_ext ss ss' \<longleftrightarrow> (\<exists>ds. map fst (str_map ss') = map fst (str_map ss) @ ds)"

definition grows :: "StringManager \<Rightarrow> DebugAttrTable \<Rightarrow> StringManager \<Rightarrow> DebugAttrTable \<Rightarrow> bool" where
  "grows ss t ss' t' \<longleftrightarrow> str_ext ss ss' \<and>
     (\<exists>ds. da_entries t' = da_entries t @ ds)"

definition debug_step ::
  "StringManager \<Rightarrow> DebugAttrTable \<Rightarrow> u64 \<times> StringManager \<times> DebugAttrTable \<Rightarrow> bool" where
  "debug_step ss t res = (case res of (i, ss', t') \<Rightarrow> debug_ok ss' t' \<and> grows ss t ss' t' \<and> id_ok t' i)"

lemma str_ext_refl [simp]: "str_ext ss ss"
  by (simp add: str_ext_def)

lemma str_ext_trans: "str_ext ss ss' \<Longrightarrow> str_ext ss' ss'' \<Longrightarrow> str_ext ss ss''"
  by (force simp: str_ext_def)

lemma str_ext_length: "str_ext ss ss' \<Longrightarrow> length (str_map ss) \<le> length (str_map ss')"
  unfolding str_ext_def by (metis length_append length_map le_add1)

lemma grows_refl [simp]: "grows ss t ss t"
  by (simp add: grows_def)

lemma grows_trans: "grows ss t ss' t' \<Longrightarrow> grows ss' t' ss'' t'' \<Longrightarrow> grows ss t ss'' t''"
  by (auto simp: grows_def intro: str_ext_trans)

lemma id_ok_grows: "id_ok t i \<Longrightarrow> grows ss t ss' t' \<Longrightarrow> id_ok t' i"
  unfolding id_ok_def grows_def by (metis length_append trans_le_add1)

lemma id_ok_missing: "id_ok t MISSING_DEBUG_ATTR_ID"
  unfolding id_ok_def MISSING_DEBUG_ATTR_ID_def by (intro exI [of _ 0]) simp

lemma str_ok_le: "str_ok ss i \<Longrightarrow> str_ext ss ss' \<Longrightarrow> str_ok ss' i"
  unfolding str_ok_def using order_less_le_trans [OF _ str_ext_length] by blast

lemma attr_ok_le: "attr_ok n ss b \<Longrightarrow> str_ext ss ss' \<Longrightarrow> attr_ok n ss' b"
  by (auto simp: attr_ok_def intro: str_ok_le)

lemma string_step:
  assumes "debug_ok ss t" and "string_get_or_insert s ss = (i, ss')"
  shows "debug_ok ss' t \<and> str_ext ss ss' \<and> str_ok ss' i"
proof -
  have w: "strings_wf ss" using assms(1) by (simp add: debug_ok_def)
  have e: "i = fst (string_get_or_insert s ss)" "ss' = snd (string_get_or_insert s ss)"
    using assms(2) by simp_all
  have l: "str_ext ss ss'" using strs.intern_extends [OF w, of s] e by (auto simp: str_ext_def)
  have "str_ok ss' i" using strs.intern_id [OF w, of s] e by (auto simp: str_ok_def)
  moreover have "strings_wf ss'" using strs.intern_wf [OF w, of s] e by simp
  ultimately show ?thesis using assms(1) l by (auto simp: debug_ok_def intro: attr_ok_le)
qed

lemma intern_step:
  assumes "debug_ok ss t" and "b = enc_attr a" and "\<forall>i \<in> attr_refs a. id_ok t i"
    and "\<forall>i \<in> attr_strs a. str_ok ss i"
  shows "debug_step ss t (fst (debug_intern b t), ss, snd (debug_intern b t))"
proof -
  have w: "debug_table_wf t" using assms(1) by (simp add: debug_ok_def)
  note w' = dbg.intern_wf [OF w, of b]
  show ?thesis
    using w
  proof (cases rule: debug_intern_cases [where b = b])
    case (known j)
    then have "id_ok t (as_u64 (1 + j))" unfolding id_ok_def by (intro exI [of _ "1 + j"]) simp
    then show ?thesis using known assms(1) by (simp add: debug_step_def)
  next
    case fresh
    have "attr_ok (length (da_entries t)) ss b"
      using assms(2,3,4) by (auto simp: attr_ok_def id_ok_def)
    then have "debug_ok ss (snd (debug_intern b t))"
      using fresh assms(1) w' by (auto simp: debug_ok_def nth_append less_Suc_eq)
    moreover have "id_ok (snd (debug_intern b t)) (fst (debug_intern b t))"
      unfolding id_ok_def using fresh by (intro exI [of _ "1 + length (da_entries t)"]) simp
    ultimately show ?thesis using fresh by (simp add: debug_step_def grows_def)
  qed
qed

lemma debug_stepD:
  assumes "debug_step ss t (i, ss', t')"
  shows "debug_ok ss' t'" and "grows ss t ss' t'" and "id_ok t' i"
  using assms by (simp_all add: debug_step_def)

lemma debug_step_trans:
  "grows ss t ss' t' \<Longrightarrow> debug_step ss' t' res \<Longrightarrow> debug_step ss t res"
  by (auto simp: debug_step_def intro: grows_trans)

lemma di_file_step:
  assumes "debug_ok ss t"
  shows "debug_step ss t (di_file n dir ss t)"
proof -
  obtain i ss1 where 1: "string_get_or_insert n ss = (i, ss1)" by fastforce
  obtain j ss2 where 2: "string_get_or_insert dir ss1 = (j, ss2)" by fastforce
  note s1 = string_step [OF assms 1]
  note s2 = string_step [OF conjunct1 [OF s1] 2]
  have "debug_step ss2 t (fst (debug_intern (enc_attr (DA_File i j)) t), ss2,
      snd (debug_intern (enc_attr (DA_File i j)) t))"
    by (rule intern_step [OF _ refl]) (use s1 s2 str_ok_le in auto)
  moreover have "grows ss t ss2 t" using s1 s2 by (auto simp: grows_def intro: str_ext_trans)
  ultimately have "debug_step ss t (fst (debug_intern (enc_attr (DA_File i j)) t), ss2,
      snd (debug_intern (enc_attr (DA_File i j)) t))" by (rule debug_step_trans [rotated])
  then show ?thesis by (simp add: di_file_def 1 2 push_varint_eq case_prod_beta Let_def)
qed

lemma di_compile_unit_step:
  assumes "debug_ok ss t" and "id_ok t file"
  shows "debug_step ss t (fst (di_compile_unit file t), ss, snd (di_compile_unit file t))"
  using intern_step [OF assms(1), of _ "DA_CompileUnit file"] assms(2)
  by (simp add: di_compile_unit_def push_varint_eq)

lemma di_subprogram_step:
  assumes "debug_ok ss t" and "id_ok t file" and "id_ok t cu"
  shows "debug_step ss t (di_subprogram file line n linkage cu scope_line ss t)"
proof -
  obtain i ss1 where 1: "string_get_or_insert n ss = (i, ss1)" by fastforce
  obtain j ss2 where 2: "string_get_or_insert linkage ss1 = (j, ss2)" by fastforce
  note s1 = string_step [OF assms(1) 1]
  note s2 = string_step [OF conjunct1 [OF s1] 2]
  let ?a = "enc_attr (DA_Subprogram file line i j cu scope_line)"
  have "debug_step ss2 t (fst (debug_intern ?a t), ss2, snd (debug_intern ?a t))"
    by (rule intern_step [OF _ refl]) (use s1 s2 str_ok_le assms(2,3) in auto)
  moreover have "grows ss t ss2 t" using s1 s2 by (auto simp: grows_def intro: str_ext_trans)
  ultimately have "debug_step ss t (fst (debug_intern ?a t), ss2, snd (debug_intern ?a t))"
    by (rule debug_step_trans [rotated])
  then show ?thesis by (simp add: di_subprogram_def 1 2 push_varint_eq case_prod_beta Let_def)
qed

lemma di_lexical_block_step:
  assumes "debug_ok ss t" and "id_ok t parent" and "id_ok t file"
  shows "debug_step ss t (fst (di_lexical_block parent file line col t), ss, snd (di_lexical_block parent file line col t))"
  using intern_step [OF assms(1), of _ "DA_LexicalBlock parent file line col"] assms(2,3)
  by (simp add: di_lexical_block_def push_varint_eq Let_def)

lemma di_call_site_step:
  assumes "debug_ok ss t" and "id_ok t callee" and "id_ok t caller"
  shows "debug_step ss t (fst (di_call_site callee caller t), ss, snd (di_call_site callee caller t))"
  using intern_step [OF assms(1), of _ "DA_CallSite callee caller"] assms(2,3)
  by (simp add: di_call_site_def push_varint_eq Let_def)

lemma di_loc_step:
  assumes "debug_ok ss t" and "id_ok t scope"
  shows "debug_step ss t (di_loc scope filename line col ss t)"
proof -
  obtain i ss1 where 1: "string_get_or_insert filename ss = (i, ss1)" by fastforce
  note s1 = string_step [OF assms(1) 1]
  let ?a = "enc_attr (DA_Loc scope i line col)"
  have "debug_step ss1 t (fst (debug_intern ?a t), ss1, snd (debug_intern ?a t))"
    by (rule intern_step [OF _ refl]) (use s1 assms(2) in auto)
  moreover have "grows ss t ss1 t" using s1 by (simp add: grows_def)
  ultimately have "debug_step ss t (fst (debug_intern ?a t), ss1, snd (debug_intern ?a t))"
    by (rule debug_step_trans [rotated])
  then show ?thesis by (simp add: di_loc_def 1 push_varint_eq case_prod_beta Let_def)
qed

lemma subprogram_attr_step:
  assumes "debug_ok ss t"
  shows "debug_step ss t (subprogram_attr sp ss t)"
proof -
  obtain fi ss1 t1 where 1: "di_file (df_name (sp_file sp)) (df_directory (sp_file sp)) ss t = (fi, ss1, t1)"
    by (cases "di_file (df_name (sp_file sp)) (df_directory (sp_file sp)) ss t")
  let ?f = "cu_file (sp_compile_unit sp)"
  obtain cf ss2 t2 where 2: "di_file (df_name ?f) (df_directory ?f) ss1 t1 = (cf, ss2, t2)"
    by (cases "di_file (df_name ?f) (df_directory ?f) ss1 t1")
  obtain cu t3 where 3: "di_compile_unit cf t2 = (cu, t3)" by fastforce
  note s1 = debug_stepD [OF di_file_step [OF assms, of "df_name (sp_file sp)" "df_directory (sp_file sp)", unfolded 1]]
  note s2 = debug_stepD [OF di_file_step [OF s1(1), of "df_name ?f" "df_directory ?f", unfolded 2]]
  note s3 = debug_stepD [OF di_compile_unit_step [OF s2(1,3), unfolded 3 fst_conv snd_conv]]
  have "id_ok t3 fi" using id_ok_grows [OF id_ok_grows [OF s1(3) s2(2)] s3(2)] .
  from di_subprogram_step [OF s3(1) this s3(3)] show ?thesis
    using debug_step_trans [OF grows_trans [OF s1(2) grows_trans [OF s2(2) s3(2)]]]
    by (simp add: subprogram_attr_def 1 2 3)
qed

lemma scope_attr_step: "debug_ok ss t \<Longrightarrow> debug_step ss t (scope_attr sc ss t)"
proof (induction sc arbitrary: ss t)
  case (Subprogram sp)
  then show ?case by (simp add: subprogram_attr_step)
next
  case (LexicalBlock sc fl line col)
  obtain p ss1 t1 where 1: "scope_attr sc ss t = (p, ss1, t1)" by (cases "scope_attr sc ss t")
  obtain fi ss2 t2 where 2: "di_file (df_name fl) (df_directory fl) ss1 t1 = (fi, ss2, t2)"
    by (cases "di_file (df_name fl) (df_directory fl) ss1 t1")
  note s1 = debug_stepD [OF LexicalBlock.IH [OF LexicalBlock.prems, unfolded 1]]
  note s2 = debug_stepD [OF di_file_step [OF s1(1), of "df_name fl" "df_directory fl", unfolded 2]]
  from di_lexical_block_step [OF s2(1) id_ok_grows [OF s1(3) s2(2)] s2(3)] show ?case
    using debug_step_trans [OF grows_trans [OF s1(2) s2(2)]]
    by (simp add: 1 2 case_prod_beta)
qed

lemma attr_for_step:
  "debug_ok ss t \<Longrightarrow> id_ok t scope \<Longrightarrow> debug_step ss t (attr_for scope loc ss t)"
proof (induction loc arbitrary: ss t)
  case Loc_Unknown
  then show ?case by (simp add: debug_step_def id_ok_missing)
next
  case (Loc_FileLineCol f l c)
  then show ?case by (simp add: debug_step_def id_ok_missing di_loc_step [unfolded debug_step_def])
next
  case (Loc_DebugInfo di)
  obtain sc ss1 t1 where 1: "scope_attr (di_scope di) ss t = (sc, ss1, t1)"
    by (cases "scope_attr (di_scope di) ss t")
  note s1 = debug_stepD [OF scope_attr_step [OF Loc_DebugInfo.prems(1), of "di_scope di", unfolded 1]]
  from di_loc_step [OF s1(1,3)] show ?case
    using debug_step_trans [OF s1(2)] by (simp add: 1)
next
  case (Loc_CallSite callee caller)
  obtain ce ss1 t1 where 1: "attr_for scope callee ss t = (ce, ss1, t1)"
    by (cases "attr_for scope callee ss t")
  note s1 = debug_stepD [OF Loc_CallSite.IH(1) [OF Loc_CallSite.prems, unfolded 1]]
  obtain cr ss2 t2 where 2: "attr_for scope caller ss1 t1 = (cr, ss2, t2)"
    by (cases "attr_for scope caller ss1 t1")
  note s2 = debug_stepD [OF Loc_CallSite.IH(2) [OF s1(1) id_ok_grows [OF Loc_CallSite.prems(2) s1(2)], unfolded 2]]
  show ?case
  proof (cases "ce = MISSING_DEBUG_ATTR_ID")
    case True
    then show ?thesis using s1 by (simp add: 1 debug_step_def id_ok_missing)
  next
    case False
    from di_call_site_step [OF s2(1) id_ok_grows [OF s1(3) s2(2)] s2(3)] False show ?thesis
      using debug_step_trans [OF grows_trans [OF s1(2) s2(2)]]
      by (simp add: 1 2 case_prod_beta)
  qed
qed

text \<open>The collector: valid identifiers everywhere, and a list per function, never empty.\<close>

definition debug_inv :: "StringManager \<Rightarrow> DebugInfoCollector \<Rightarrow> bool" where
  "debug_inv ss d \<longleftrightarrow> debug_ok ss (attrs d) \<and> id_ok (attrs d) (current_scope d) \<and>
     (\<forall>l \<in> set (per_function d). l \<noteq> [] \<and> (\<forall>i \<in> set l. id_ok (attrs d) i))"

lemma debug_ok_new: "debug_ok strings_new debug_table_new"
  by (simp add: debug_ok_def strings_wf_new debug_table_wf_new) (simp add: debug_table_new_def)

lemma debug_inv_new: "debug_ok ss debug_table_new \<Longrightarrow> debug_inv ss debug_new"
  using id_ok_missing by (simp add: debug_inv_def debug_new_def MISSING_DEBUG_ATTR_ID_def)

lemma debug_inv_strings:
  "debug_inv ss d \<Longrightarrow> debug_inv (snd (string_get_or_insert s ss)) d"
  using string_step [of ss "attrs d" s] by (cases "string_get_or_insert s ss") (simp add: debug_inv_def)

lemma begin_function_inv:
  assumes "debug_inv ss d" and "begin_function symbol di_name loc ss d = (i, ss', d')"
  shows "debug_inv ss' d' \<and> grows ss (attrs d) ss' (attrs d') \<and> i = as_u64 (length (per_function d')) \<and>
    length (per_function d') = Suc (length (per_function d))"
proof -
  let ?st = "\<lambda>res. debug_step ss (attrs d) res"
  have ok: "debug_ok ss (attrs d)" using assms(1) by (simp add: debug_inv_def)
  define res where "res = (case loc of
      Loc_FileLineCol filename line _ \<Rightarrow>
        (let (dir, base) = split_file_path filename;
             (file, ss, t) = di_file base dir ss (attrs d);
             (cu, t) = di_compile_unit file t
         in di_subprogram file (ucast line) (case di_name of Some n \<Rightarrow> n | None \<Rightarrow> symbol)
              symbol cu (ucast line) ss t)
    | Loc_DebugInfo di \<Rightarrow> scope_attr (di_scope di) ss (attrs d)
    | _ \<Rightarrow> (MISSING_DEBUG_ATTR_ID, ss, attrs d))"
  have "?st res"
  proof (cases loc)
    case (Loc_FileLineCol f l c)
    obtain dir base where 0: "split_file_path f = (dir, base)" by fastforce
    obtain fi ss1 t1 where 1: "di_file base dir ss (attrs d) = (fi, ss1, t1)"
      by (cases "di_file base dir ss (attrs d)")
    obtain cu t2 where 2: "di_compile_unit fi t1 = (cu, t2)" by fastforce
    note s1 = debug_stepD [OF di_file_step [OF ok, of base dir, unfolded 1]]
    note s2 = debug_stepD [OF di_compile_unit_step [OF s1(1,3), unfolded 2 fst_conv snd_conv]]
    from di_subprogram_step [OF s2(1) id_ok_grows [OF s1(3) s2(2)] s2(3)] show ?thesis
      using debug_step_trans [OF grows_trans [OF s1(2) s2(2)]]
      by (simp add: res_def Loc_FileLineCol 0 1 2)
  next
    case (Loc_DebugInfo di)
    then show ?thesis using scope_attr_step [OF ok] by (simp add: res_def)
  qed (use ok in \<open>simp_all add: res_def debug_step_def id_ok_missing\<close>)
  moreover obtain sc ss1 t1 where 1: "res = (sc, ss1, t1)" by (cases res)
  ultimately have s1: "debug_ok ss1 t1" "grows ss (attrs d) ss1 t1" "id_ok t1 sc"
    using debug_stepD by blast+
  obtain fa ss2 t2 where 2: "attr_for sc loc ss1 t1 = (fa, ss2, t2)" by (cases "attr_for sc loc ss1 t1")
  note s2 = debug_stepD [OF attr_for_step [OF s1(1,3), of loc, unfolded 2]]
  note g = grows_trans [OF s1(2) s2(2)]
  have "i = as_u64 (Suc (length (per_function d)))" "ss' = ss2"
    "d' = \<lparr>attrs = t2, per_function = per_function d @ [[fa]], current_scope = sc\<rparr>"
    using assms(2) unfolding begin_function_def res_def [symmetric] by (simp_all add: 1 2)
  then show ?thesis
    using s2 g id_ok_grows [OF s1(3) s2(2)] id_ok_grows [OF _ g] assms(1) by (auto simp: debug_inv_def)
qed

lemma record_op_inv:
  assumes "debug_inv ss d" and "record_op loc ss d = (ss', d')"
  shows "debug_inv ss' d' \<and> grows ss (attrs d) ss' (attrs d') \<and>
    length (per_function d') = length (per_function d)"
proof -
  obtain a ss1 t1 where 1: "attr_for (current_scope d) loc ss (attrs d) = (a, ss1, t1)"
    by (cases "attr_for (current_scope d) loc ss (attrs d)")
  have ok: "debug_ok ss (attrs d)" "id_ok (attrs d) (current_scope d)" using assms(1) by (simp_all add: debug_inv_def)
  note s = debug_stepD [OF attr_for_step [OF ok, of loc, unfolded 1]]
  have d': "ss' = ss1" "d' = d\<lparr>attrs := t1, per_function := (if per_function d = [] then []
       else butlast (per_function d) @ [last (per_function d) @ [a]])\<rparr>"
    using assms(2) by (simp_all add: record_op_def 1)
  have "l \<noteq> [] \<and> (\<forall>i \<in> set l. id_ok t1 i)" if "l \<in> set (per_function d')" for l
  proof -
    have old: "l \<noteq> [] \<and> (\<forall>i \<in> set l. id_ok t1 i)" if "l \<in> set (per_function d)" for l
      using that assms(1) id_ok_grows [OF _ s(2)] by (auto simp: debug_inv_def)
    show ?thesis
    proof (cases "per_function d = []")
      case False
      then have "l \<in> set (per_function d) \<or> l = last (per_function d) @ [a]"
        using that d'(2) by (auto dest: in_set_butlastD)
      then show ?thesis using old [of l] old [OF last_in_set [OF False]] s(3) by auto
    qed (use that d'(2) in simp)
  qed
  then show ?thesis
    using s id_ok_grows [OF ok(2) s(2)] d' by (auto simp: debug_inv_def)
qed

section \<open>The section read back\<close>

definition debug_payload :: "DebugInfoCollector \<Rightarrow> bytes" where
  "debug_payload d =
     (let nf = varint (as_u64 (length (per_function d)));
          p1 = nf @ pad_bytes 4 (length nf)
               @ concat (map (\<lambda>x. to_le 4 (as_u32 x)) (offsets_from 0 (per_function d)));
          p2 = p1 @ varint (ucast (as_u32 (length (concat (per_function d)))));
          p3 = p2 @ pad_bytes 8 (length p2) @ concat (map (to_le 8) (concat (per_function d)));
          es = da_entries (ensure_non_empty (attrs d));
          p4 = p3 @ varint (as_u64 (length es))
      in p4 @ pad_bytes 4 (length p4) @ concat (map (\<lambda>x. to_le 4 (as_u32 x)) (offsets_from 0 es)) @ concat es)"

lemma write_offsets_u32_eq:
  "write_offsets_u32 (map length xss) (as_u32 k) w =
     (as_u32 (k + length (concat xss)),
      w\<lparr>buf := buf w @ concat (map (\<lambda>x. to_le 4 (as_u32 x)) (offsets_from k xss))\<rparr>)"
proof (induction xss arbitrary: k w)
  case (Cons xs xss)
  have "as_u32 k + as_u32 (length xs) = as_u32 (k + length xs)" by simp
  then show ?case using Cons [of "k + length xs" "write_le_u32 (as_u32 k) w"]
    by (simp add: write_le_u32_def add.assoc del: of_nat_add)
qed simp

lemma buf_fold_write_le_u64: "buf (fold write_le_u64 xs w) = buf w @ concat (map (to_le 8) xs)"
  by (rule buf_fold_appending) (simp add: layout_simps)

lemma buf_fold_fold_u64: "buf (fold (fold write_le_u64) xss w) = buf w @ concat (map (to_le 8) (concat xss))"
  by (induction xss arbitrary: w) (simp_all add: buf_fold_write_le_u64)

lemma buf_fold_write_bytes: "buf (fold write_bytes es w) = buf w @ concat es"
  by (induction es arbitrary: w) (simp_all add: layout_simps)

lemma write_debug_section_eq:
  "write_debug_section out d =
     (write_section_header out Section_Debug (length (debug_payload d)) 8 @ debug_payload d,
      d\<lparr>attrs := ensure_non_empty (attrs d)\<rparr>)"
  unfolding write_debug_section_def debug_payload_def Let_def
  by (simp add: write_offsets_u32_eq [where k = 0, simplified] layout_simps buf_fold_fold_u64
      buf_fold_write_bytes add.assoc)

lemma parse_debug_functions_offsets:
  assumes "drop k ids = concat xss" and "k \<le> length ids"
  shows "parse_debug_functions (offsets_from k xss) (length ids) ids = Inr xss"
  using assms
proof (induction xss arbitrary: k)
  case (Cons xs xss)
  have len: "length ids = k + length xs + length (concat xss)"
    using arg_cong [OF Cons.prems(1), of length] Cons.prems(2) by simp
  have "drop (k + length xs) ids = drop (length xs) (drop k ids)" by (simp add: add.commute)
  also have "\<dots> = concat xss" using Cons.prems(1) by simp
  finally have "drop (k + length xs) ids = concat xss" .
  then have ih: "parse_debug_functions (offsets_from (k + length xs) xss) (length ids) ids = Inr xss"
    using Cons.IH len by simp
  have e: "take (length xs) (drop k ids) = xs" using Cons.prems(1) by simp
  show ?case
    using e len ih by (cases xss) (simp_all add: slice_of_def)
qed simp

lemma parse_debug_attrs_offsets:
  assumes "drop k d = concat (map enc_attr as)" and "k \<le> length d" and "length d < isize_top"
  shows "parse_debug_attrs ss (offsets_from k (map enc_attr as)) d = Inr (map (attr_line ss) as)"
  using assms(1,2)
proof (induction as arbitrary: k)
  case (Cons a as)
  let ?e = "enc_attr a"
  have len: "length d = k + length ?e + length (concat (map enc_attr as))"
    using arg_cong [OF Cons.prems(1), of length] Cons.prems(2) by simp
  have "drop (k + length ?e) d = drop (length ?e) (drop k d)" by (simp add: add.commute)
  also have "\<dots> = concat (map enc_attr as)" using Cons.prems(1) by simp
  finally have "drop (k + length ?e) d = concat (map enc_attr as)" .
  then have ih: "parse_debug_attrs ss (offsets_from (k + length ?e) (map enc_attr as)) d = Inr (map (attr_line ss) as)"
    using Cons.IH len by simp
  have e: "take (length ?e) (drop k d) = ?e" using Cons.prems(1) by simp
  have p: "parse_debug_attr ss ?e = Inr (attr_line ss a)" using len assms(3) by (intro parse_debug_attr_enc) simp
  have ne: "0 < length ?e" by simp
  show ?case
    using e len ih p ne by (cases as) (simp_all add: slice_of_def del: length_greater_0_conv)
qed simp

lemma attrs_exist:
  assumes "debug_ok ss t"
  shows "\<exists>as. da_entries t = map enc_attr as"
proof -
  have "\<forall>b \<in> set (da_entries t). \<exists>a. b = enc_attr a"
    using assms by (metis debug_ok_def attr_ok_def in_set_conv_nth)
  then show ?thesis by (simp add: ex_map_conv)
qed

lemma ensure_non_empty_ok:
  assumes "debug_ok ss t"
  shows "debug_ok ss (ensure_non_empty t)"
  using intern_step [OF assms, of _ DA_Unknown] assms
  by (simp add: ensure_non_empty_def debug_step_def)

lemma read_offsets_step:
  assumes "length pre + (4 * length xss + length rest) < isize_top" and "n = length xss"
  shows "read_many read_le_u32 n
           (reader_at pre (concat (map (\<lambda>x. to_le 4 (as_u32 x)) (offsets_from 0 xss)) @ rest))
       = Inr (map as_u32 (offsets_from 0 xss),
           reader_at (pre @ concat (map (\<lambda>x. to_le 4 (as_u32 x)) (offsets_from 0 xss))) rest)"
  using le_u32.read_many_step [of n "map as_u32 (offsets_from 0 xss)" pre rest] assms
  by (simp add: comp_def length_concat_offsets)

lemma unat_u32_offsets:
  assumes "length (concat xss) < 2 ^ 32"
  shows "map (as_usize :: u32 \<Rightarrow> nat) (map as_u32 (offsets_from 0 xss)) = offsets_from 0 xss"
proof -
  have "x \<le> length (concat xss)" if "x \<in> set (offsets_from 0 xss)" for x
  proof -
    have "x \<in> set (offsets_from k xss) \<Longrightarrow> x \<le> k + length (concat xss)" for k
      by (induction xss arbitrary: k) force+
    from this [OF that] show ?thesis by simp
  qed
  then have "x < 2 ^ 32" if "x \<in> set (offsets_from 0 xss)" for x using that assms by fastforce
  then show ?thesis by (simp add: map_idI)
qed

text \<open>
  Every attribute and every function's identifier list comes back, for tables within the
  range of the 32-bit offsets.
\<close>

lemma parse_debug_payload:
  assumes "debug_ok st (attrs d)"
    and "length (per_function d) < 2 ^ 32" and "length (concat (per_function d)) < 2 ^ 32"
    and "length (da_entries (ensure_non_empty (attrs d))) < 2 ^ 32"
    and "length (concat (da_entries (ensure_non_empty (attrs d)))) < 2 ^ 32"
  shows "\<exists>as. da_entries (ensure_non_empty (attrs d)) = map enc_attr as \<and>
    parse_debug_section (debug_payload d) ss = Inr (map (attr_line ss) as, per_function d)"
proof -
  let ?es = "da_entries (ensure_non_empty (attrs d))" and ?pf = "per_function d"
  obtain as where as: "?es = map enc_attr as"
    using attrs_exist [OF ensure_non_empty_ok [OF assms(1)]] by blast
  let ?nf = "varint (as_u64 (length ?pf))"
  let ?ni = "varint (as_u64 (length (concat ?pf)))"
  let ?ne = "varint (as_u64 (length ?es))"
  let ?o1 = "concat (map (\<lambda>x. to_le 4 (as_u32 x)) (offsets_from 0 ?pf))"
  let ?o2 = "concat (map (\<lambda>x. to_le 4 (as_u32 x)) (offsets_from 0 ?es))"
  let ?ids = "concat (map (to_le 8) (concat ?pf))"
  have u: "ucast (as_u32 (length (concat ?pf))) = as_u64 (length (concat ?pf))"
    using assms(3) by (simp add: unsigned_of_nat take_bit_nat_eq_self)
  define a1 where "a1 = pad_bytes 4 (length ?nf)"
  define a2 where "a2 = pad_bytes 8 (length (?nf @ a1 @ ?o1 @ ?ni))"
  define a3 where "a3 = pad_bytes 4 (length (?nf @ a1 @ ?o1 @ ?ni @ a2 @ ?ids @ ?ne))"
  have pl: "debug_payload d = ?nf @ a1 @ ?o1 @ ?ni @ a2 @ ?ids @ ?ne @ a3 @ ?o2 @ concat ?es"
    by (simp add: debug_payload_def Let_def u a1_def a2_def a3_def add.assoc)
  have b: "length ?nf \<le> 10" "length ?ni \<le> 10" "length ?ne \<le> 10" "length a1 \<le> 8" "length a2 \<le> 8" "length a3 \<le> 8"
    unfolding a1_def a2_def a3_def
    by (rule varint_length order_trans [OF length_pad_bytes], simp?)+
  have l: "length ?o1 = 4 * length ?pf" "length ?o2 = 4 * length ?es" "length ?ids = 8 * length (concat ?pf)"
    by (simp_all only: length_concat_offsets length_offsets_from length_concat_to_le)
  have s1: "skip_padding 4 (reader_at ?nf (a1 @ rest)) = Inr (reader_at (?nf @ a1) rest)"
    if "length rest < 2 ^ 40" for rest
    unfolding a1_def using that b by (intro skip_padding_step) (simp_all add: a1_def)
  have s2: "skip_padding 8 (reader_at (?nf @ a1 @ ?o1 @ ?ni) (a2 @ rest)) = Inr (reader_at (?nf @ a1 @ ?o1 @ ?ni @ a2) rest)"
    if "length rest < 2 ^ 40" for rest
    using skip_padding_step [of _ "?nf @ a1 @ ?o1 @ ?ni" 8 rest, OF refl, folded a2_def] that b l assms(2,3)
    by simp
  have s3: "skip_padding 4 (reader_at (?nf @ a1 @ ?o1 @ ?ni @ a2 @ ?ids @ ?ne) (a3 @ rest))
      = Inr (reader_at (?nf @ a1 @ ?o1 @ ?ni @ a2 @ ?ids @ ?ne @ a3) rest)"
    if "length rest < 2 ^ 40" for rest
    using skip_padding_step [of _ "?nf @ a1 @ ?o1 @ ?ni @ a2 @ ?ids @ ?ne" 4 rest, OF refl, folded a3_def] that b l assms(2,3,4)
    by simp
  have f: "parse_debug_functions (offsets_from 0 ?pf) (length (concat ?pf)) (concat ?pf) = Inr ?pf"
    by (rule parse_debug_functions_offsets) simp_all
  have g: "parse_debug_attrs ss (offsets_from 0 ?es) (concat ?es) = Inr (map (attr_line ss) as)"
    unfolding as using assms(5) as by (intro parse_debug_attrs_offsets) simp_all
  have "parse_debug_section (debug_payload d) ss = Inr (map (attr_line ss) as, ?pf)"
    unfolding parse_debug_section_def pl
    using b l assms(2-5) f g
    by (simp add: reader_steps s1 s2 s3 with_capacity_ok read_offsets_step le_u64.read_many_step
        unat_u32_offsets del: map_map)
  then show ?thesis using as by blast
qed

end
