(* ===== verification/TypeSection.thy ===== *)
theory TypeSection
  imports Sections
begin

text \<open>
  The type section: serialization of a type against the shared type table
  (\<open>serialize_type\<close> and \<open>write_type_section\<close> in \<open>writer.rs\<close>) and the decoder's rendering
  of each entry as text (\<open>parse_type_section\<close> and \<open>decode_type_entry\<close> in \<open>decoder.rs\<close>).
\<close>

section \<open>Writing\<close>

text \<open>
  The state is the type table and the output; the statements of one arm are applied in
  order.
\<close>

type_synonym tstate = "TypeManager \<times> EncodingWriter"

definition seq :: "('s \<Rightarrow> 's) list \<Rightarrow> 's \<Rightarrow> 's" where
  "seq fs s = fold (\<lambda>f. f) fs s"

definition emit :: "(EncodingWriter \<Rightarrow> EncodingWriter) \<Rightarrow> tstate \<Rightarrow> tstate" where
  "emit f = apsnd f"

text \<open>\<open>let idx = types.get_or_insert(ty); w.write_varint(idx);\<close>\<close>

definition write_type_index :: "Type \<Rightarrow> tstate \<Rightarrow> tstate" where
  "write_type_index ty s =
     (let (idx, types) = type_get_or_insert ty (fst s) in (types, write_varint idx (snd s)))"

definition qualify :: "PointerAttribute option \<Rightarrow> Type \<Rightarrow> Type" where
  "qualify pa ty = (case pa of Some attr \<Rightarrow> with_pointer_attribute ty attr | None \<Rightarrow> ty)"

text \<open>The \<open>Debug\<close> name of a scalar type, used in the version error.\<close>

fun scalar_debug :: "ScalarType \<Rightarrow> string" where
  "scalar_debug I1 = ''I1''"
| "scalar_debug I4 = ''I4''"
| "scalar_debug I8 = ''I8''"
| "scalar_debug I16 = ''I16''"
| "scalar_debug I32 = ''I32''"
| "scalar_debug I64 = ''I64''"
| "scalar_debug F16 = ''F16''"
| "scalar_debug BF16 = ''BF16''"
| "scalar_debug F32 = ''F32''"
| "scalar_debug TF32 = ''TF32''"
| "scalar_debug F64 = ''F64''"
| "scalar_debug F8E4M3FN = ''F8E4M3FN''"
| "scalar_debug F8E5M2 = ''F8E5M2''"
| "scalar_debug F8E8M0FNU = ''F8E8M0FNU''"
| "scalar_debug F4E2M1FN = ''F4E2M1FN''"
| "scalar_debug F8E5M3FNU = ''F8E5M3FNU''"

definition write_flag :: "bool \<Rightarrow> EncodingWriter \<Rightarrow> EncodingWriter" where
  "write_flag b = write_varint (if b then 1 else 0)"

definition write_pointer_attribute :: "PointerAttribute option \<Rightarrow> EncodingWriter \<Rightarrow> EncodingWriter" where
  "write_pointer_attribute pa = (case pa of Some attr \<Rightarrow> write_byte (pointer_attribute_u8 attr) | None \<Rightarrow> id)"

definition write_padding_value :: "PaddingValue option \<Rightarrow> EncodingWriter \<Rightarrow> EncodingWriter" where
  "write_padding_value pv = (case pv of Some p \<Rightarrow> write_byte (padding_value_u8 p) | None \<Rightarrow> id)"

fun serialize_type_with_pointer_attribute ::
  "Type \<Rightarrow> BytecodeVersion \<Rightarrow> PointerAttribute option \<Rightarrow> tstate \<Rightarrow> (write_error, tstate) res" where
  "serialize_type_with_pointer_attribute (Ty_WithPointerAttribute base attr) version pa s =
     and_then (require_version ''ptr_attr'' (feature_since Feat_PointerAttribute) version) (\<lambda>_.
       if \<not> (case base of Ty_Pointer _ \<Rightarrow> True | Ty_TensorView _ \<Rightarrow> True | _ \<Rightarrow> False)
          \<and> pointer_dependency base = None
       then Inl (Err (BytecodeWrite ''ptr_attr requires a pointer, pointer tile or view type''))
       else serialize_type_with_pointer_attribute base version (Some attr) s)"
| "serialize_type_with_pointer_attribute (Ty_Scalar sc) version pa s =
     and_then (require_version (scalar_debug sc) (minimum_version sc) version) (\<lambda>_.
       Inr (emit (write_varint (type_tag_u64 (type_tag sc))) s))"
| "serialize_type_with_pointer_attribute (Ty_Pointer p) version pa s =
     Inr (seq [emit (write_varint (type_tag_u64 TypeTag_Pointer)),
               if version \<ge> V13_4 then emit (write_flag (pa \<noteq> None)) else id,
               write_type_index (Ty_Scalar (pointee p)),
               emit (write_pointer_attribute pa)] s)"
| "serialize_type_with_pointer_attribute (Ty_Tile t) version pa s =
     Inr (seq [emit (write_varint (type_tag_u64 TypeTag_Tile)),
               write_type_index (case t_element_type t of
                   TE_Scalar sc \<Rightarrow> Ty_Scalar sc | TE_Pointer p \<Rightarrow> qualify pa (Ty_Pointer p)),
               emit (write_le_var_size_i64 (t_shape t))] s)"
| "serialize_type_with_pointer_attribute (Ty_TensorView tv) version pa s =
     Inr (seq [emit (write_varint (type_tag_u64 TypeTag_TensorView)),
               if version \<ge> V13_4 then emit (write_flag (pa \<noteq> None)) else id,
               write_type_index (Ty_Scalar (tv_element_type tv)),
               emit (write_le_var_size_i64 (tv_shape tv)),
               emit (write_le_var_size_i64 (tv_strides tv)),
               emit (write_pointer_attribute pa)] s)"
| "serialize_type_with_pointer_attribute (Ty_PartitionView pv) version pa s =
     Inr (seq [emit (write_varint (type_tag_u64 TypeTag_PartitionView)),
               if version \<ge> V13_3 then emit (write_flag (pv_padding_value pv \<noteq> None)) else id,
               emit (write_le_var_size_i32 (pv_tile_shape pv)),
               write_type_index (qualify pa (Ty_TensorView (pv_tensor_view pv))),
               emit (write_le_var_size_i32 (pv_dim_map pv)),
               if version \<ge> V13_3 then emit (write_padding_value (pv_padding_value pv))
               else (case pv_padding_value pv of
                       None \<Rightarrow> emit (write_byte 0)
                     | Some p \<Rightarrow> emit (\<lambda>w. write_varint (ucast (padding_value_u8 p)) (write_byte 1 w)))] s)"
| "serialize_type_with_pointer_attribute (Ty_GatherScatterView gsv) version pa s =
     and_then (require_version ''gather_scatter_view'' (feature_since Feat_GatherScatterView) version) (\<lambda>_.
     Inr (seq [emit (write_varint (type_tag_u64 TypeTag_GatherScatterView)),
               emit (write_flag (gsv_padding_value gsv \<noteq> None)),
               emit (write_le_var_size_i32 (gsv_tile_shape gsv)),
               write_type_index (qualify pa (Ty_TensorView (gsv_tensor_view gsv))),
               emit (write_varint (scast (gsv_sparse_dim gsv))),
               emit (write_padding_value (gsv_padding_value gsv))] s))"
| "serialize_type_with_pointer_attribute (Ty_StridedView sv) version pa s =
     and_then (require_version ''strided_view'' (feature_since Feat_StridedView) version) (\<lambda>_.
     Inr (seq [emit (write_varint (type_tag_u64 TypeTag_StridedView)),
               emit (write_flag (sv_padding_value sv \<noteq> None)),
               emit (write_le_var_size_i32 (sv_tile_shape sv)),
               emit (write_le_var_size_i32 (sv_traversal_strides sv)),
               write_type_index (qualify pa (Ty_TensorView (sv_tensor_view sv))),
               emit (write_le_var_size_i32 (sv_dim_map sv)),
               emit (write_padding_value (sv_padding_value sv))] s))"
| "serialize_type_with_pointer_attribute (Ty_Func ins outs) version pa s =
     Inr (seq [emit (write_varint (type_tag_u64 TypeTag_Func)),
               emit (write_varint (as_u64 (length ins))), fold write_type_index ins,
               emit (write_varint (as_u64 (length outs))), fold write_type_index outs] s)"
| "serialize_type_with_pointer_attribute Ty_Token version pa s =
     Inr (emit (write_varint (type_tag_u64 TypeTag_Token)) s)"

definition serialize_type :: "Type \<Rightarrow> BytecodeVersion \<Rightarrow> tstate \<Rightarrow> (write_error, tstate) res" where
  "serialize_type ty version s = serialize_type_with_pointer_attribute ty version None s"

text \<open>The loop over the types, with the offset of each.\<close>

fun write_type_entries ::
  "Type list \<Rightarrow> BytecodeVersion \<Rightarrow> u32 \<Rightarrow> tstate \<Rightarrow> (write_error, u32 list \<times> tstate) res" where
  "write_type_entries [] version running s = Inr ([], s)"
| "write_type_entries (ty # tys) version running s =
     and_then (serialize_type ty version s) (\<lambda>s'.
     and_then (write_type_entries tys version (running + as_u32 (tell (snd s') - tell (snd s))) s')
       (\<lambda>(offsets, s''). Inr (running # offsets, s'')))"

definition write_type_section :: "bytes \<Rightarrow> TypeManager \<Rightarrow> BytecodeVersion \<Rightarrow> (write_error, bytes) res" where
  "write_type_section output types version =
     (if ty_list types = [] then Inr output
      else
        let w = write_varint (as_u64 (length (ty_list types))) writer_new;
            w = align_to 4 w;
            offsets_pos = tell w;
            w = fold (\<lambda>_. write_le_u32 0) [0..<length (ty_list types)] w
        in and_then (write_type_entries (ty_list types) version 0 (types, w)) (\<lambda>(offsets, _, w).
           and_then (patch_offsets patch_u32 offsets_pos 4 offsets (buf w)) (\<lambda>buf.
             Inr (write_section_header output Section_Type (length buf) 4 @ buf))))"

section \<open>Decoding\<close>

text \<open>
  The entry decoder never fails: a read that fails yields 0 (\<open>unwrap_or(0)\<close>) and decoding
  goes on where the failed read stopped. A fixed-width read that fails does not move; the
  variable-length reader has consumed the bytes it saw.
\<close>

function varint_stop :: "nat \<Rightarrow> Reader \<Rightarrow> Reader" where
  "varint_stop shift r =
     (case read_byte r of
        Inl _ \<Rightarrow> r
      | Inr (b, r) \<Rightarrow>
          if b AND 0x80 = 0 \<or> shift + 7 > 63 then r else varint_stop (shift + 7) r)"
  by pat_completeness auto
termination
  by (relation "measure (\<lambda>(sh, r). 70 - sh)") auto

declare varint_stop.simps [simp del]

definition unwrap_or ::
  "'a \<Rightarrow> (Reader \<Rightarrow> Reader) \<Rightarrow> (Reader \<Rightarrow> (decode_error, 'a \<times> Reader) res) \<Rightarrow> Reader
    \<Rightarrow> (decode_error, 'a \<times> Reader) res" where
  "unwrap_or dflt stop rd r =
     (case rd r of Inl (Err _) \<Rightarrow> Inr (dflt, stop r) | Inl f \<Rightarrow> Inl f | Inr v \<Rightarrow> Inr v)"

definition varint_or_0 :: "Reader \<Rightarrow> (decode_error, u64 \<times> Reader) res" where
  "varint_or_0 = unwrap_or 0 (varint_stop 0) read_varint"

definition byte_or_0 :: "Reader \<Rightarrow> (decode_error, u8 \<times> Reader) res" where
  "byte_or_0 = unwrap_or 0 id read_byte"

definition le_i64_or_0 :: "Reader \<Rightarrow> (decode_error, i64 \<times> Reader) res" where
  "le_i64_or_0 = unwrap_or 0 id read_le_i64"

definition le_i32_or_0 :: "Reader \<Rightarrow> (decode_error, i32 \<times> Reader) res" where
  "le_i32_or_0 = unwrap_or 0 id read_le_i32"

text \<open>A rank, a vector of that capacity, and the loop that fills it.\<close>

definition read_dims_i64 :: "Reader \<Rightarrow> (decode_error, i64 list \<times> Reader) res" where
  "read_dims_i64 r =
     and_then (varint_or_0 r) (\<lambda>(rank, r).
     and_then (with_capacity 8 (as_usize rank)) (\<lambda>_.
       read_many le_i64_or_0 (as_usize rank) r))"

definition read_dims_i32 :: "Reader \<Rightarrow> (decode_error, i32 list \<times> Reader) res" where
  "read_dims_i32 r =
     and_then (varint_or_0 r) (\<lambda>(rank, r).
     and_then (with_capacity 4 (as_usize rank)) (\<lambda>_.
       read_many le_i32_or_0 (as_usize rank) r))"

text \<open>\<open>prev_types.get(i).cloned().unwrap_or("?".into())\<close>\<close>

definition name_at :: "string list \<Rightarrow> u64 \<Rightarrow> string" where
  "name_at names i = (case get_opt names (as_usize i) of Some s \<Rightarrow> s | None \<Rightarrow> ''?'')"

definition show_word :: "'a::len word \<Rightarrow> string" where
  "show_word w = show_nat (unat w)"

definition show_signed :: "'a::len word \<Rightarrow> string" where
  "show_signed w = show_int (sint w)"

definition show_dim :: "i64 \<Rightarrow> string" where
  "show_dim d = (if d = DYNAMIC then ''?'' else show_signed d)"

definition decode_pointer :: "string list \<Rightarrow> BytecodeVersion \<Rightarrow> Reader \<Rightarrow> (decode_error, string) res" where
  "decode_pointer prev version r =
     and_then (if version \<ge> V13_4 then varint_or_0 r else Inr (0, r)) (\<lambda>(flags, r).
     and_then (varint_or_0 r) (\<lambda>(elem, r).
       if flags AND 1 \<noteq> 0
       then and_then (byte_or_0 r) (\<lambda>(attr, r).
              Inr (''ptr<'' @ name_at prev elem @ '', ptr_attr='' @ show_word attr @ ''>''))
       else Inr (''ptr<'' @ name_at prev elem @ ''>'')))"

definition decode_tile :: "string list \<Rightarrow> Reader \<Rightarrow> (decode_error, string) res" where
  "decode_tile prev r =
     and_then (varint_or_0 r) (\<lambda>(elem, r).
     and_then (read_dims_i64 r) (\<lambda>(dims, r).
       let shape_str = join ''x'' (map show_signed dims)
       in if shape_str = [] then Inr (''tile<'' @ name_at prev elem @ ''>'')
          else Inr (''tile<'' @ shape_str @ ''x'' @ name_at prev elem @ ''>'')))"

definition decode_tensor_view :: "string list \<Rightarrow> BytecodeVersion \<Rightarrow> Reader \<Rightarrow> (decode_error, string) res" where
  "decode_tensor_view prev version r =
     and_then (if version \<ge> V13_4 then varint_or_0 r else Inr (0, r)) (\<lambda>(flags, r).
     and_then (varint_or_0 r) (\<lambda>(elem, r).
     and_then (read_dims_i64 r) (\<lambda>(shape, r).
     and_then (read_dims_i64 r) (\<lambda>(strides, r).
     and_then (if flags AND 1 \<noteq> 0
               then and_then (byte_or_0 r) (\<lambda>(a, r). Inr ('', ptr_attr='' @ show_word a))
               else Inr []) (\<lambda>ptr_attr.
       Inr (''tensor_view<'' @ join ''x'' (map show_dim shape) @ ''x'' @ name_at prev elem
            @ '', strides=['' @ join '','' (map show_dim strides) @ '']'' @ ptr_attr @ ''>''))))))"

definition decode_partition_view :: "string list \<Rightarrow> BytecodeVersion \<Rightarrow> Reader \<Rightarrow> (decode_error, string) res" where
  "decode_partition_view prev version r =
     and_then (if version \<ge> V13_3
               then and_then (varint_or_0 r) (\<lambda>(flags, r). Inr (Some (flags AND 1 \<noteq> 0), r))
               else Inr (None, r)) (\<lambda>(padding_flag_from_bitfield, r).
     and_then (read_dims_i32 r) (\<lambda>(tile_shape, r).
     and_then (varint_or_0 r) (\<lambda>(tv_idx, r).
     and_then (read_dims_i32 r) (\<lambda>(dim_map, r).
     and_then (case padding_flag_from_bitfield of
                 Some b \<Rightarrow> Inr (b, r)
               | None \<Rightarrow> and_then (byte_or_0 r) (\<lambda>(b, r). Inr (b \<noteq> 0, r))) (\<lambda>(has_padding, r).
     and_then (if has_padding
               then if version \<ge> V13_3
                    then and_then (byte_or_0 r) (\<lambda>(p, r). Inr ('', padding='' @ show_word p))
                    else and_then (varint_or_0 r) (\<lambda>(p, r). Inr ('', padding='' @ show_word p))
               else Inr []) (\<lambda>padding.
       Inr (''partition_view<tile=('' @ join ''x'' (map show_signed tile_shape) @ ''), tv=''
            @ name_at prev tv_idx @ padding @ ''>'')))))))"

definition decode_gather_scatter_view :: "string list \<Rightarrow> Reader \<Rightarrow> (decode_error, string) res" where
  "decode_gather_scatter_view prev r =
     and_then (varint_or_0 r) (\<lambda>(flags, r).
     and_then (read_dims_i32 r) (\<lambda>(tile_shape, r).
     and_then (varint_or_0 r) (\<lambda>(tv_idx, r).
     and_then (varint_or_0 r) (\<lambda>(sparse_dim, r).
     and_then (if flags AND 1 \<noteq> 0
               then and_then (byte_or_0 r) (\<lambda>(p, r). Inr ('', padding='' @ show_word p))
               else Inr []) (\<lambda>padding.
       Inr (''gather_scatter_view<tile=('' @ join ''x'' (map show_signed tile_shape) @ ''), tv=''
            @ name_at prev tv_idx @ '', sparse_dim='' @ show_word sparse_dim @ padding @ ''>''))))))"

definition decode_strided_view :: "string list \<Rightarrow> Reader \<Rightarrow> (decode_error, string) res" where
  "decode_strided_view prev r =
     and_then (varint_or_0 r) (\<lambda>(flags, r).
     and_then (read_dims_i32 r) (\<lambda>(tile_shape, r).
     and_then (read_dims_i32 r) (\<lambda>(traversal_strides, r).
     and_then (varint_or_0 r) (\<lambda>(tv_idx, r).
     and_then (read_dims_i32 r) (\<lambda>(dim_map, r).
     and_then (if flags AND 1 \<noteq> 0
               then and_then (byte_or_0 r) (\<lambda>(p, r). Inr ('', padding='' @ show_word p))
               else Inr []) (\<lambda>padding.
       Inr (''strided_view<tile=('' @ join ''x'' (map show_signed tile_shape)
            @ ''), traversal_strides=['' @ join '','' (map show_signed traversal_strides)
            @ ''], tv='' @ name_at prev tv_idx
            @ '', dim_map=['' @ join '','' (map show_signed dim_map) @ '']'' @ padding @ ''>'')))))))"

definition decode_names :: "string list \<Rightarrow> Reader \<Rightarrow> (decode_error, string list \<times> Reader) res" where
  "decode_names prev r =
     and_then (varint_or_0 r) (\<lambda>(n, r).
     and_then (with_capacity 24 (as_usize n)) (\<lambda>_.
     and_then (read_many varint_or_0 (as_usize n) r) (\<lambda>(idxs, r). Inr (map (name_at prev) idxs, r))))"

definition decode_func :: "string list \<Rightarrow> Reader \<Rightarrow> (decode_error, string) res" where
  "decode_func prev r =
     and_then (decode_names prev r) (\<lambda>(inputs, r).
     and_then (decode_names prev r) (\<lambda>(results, r).
       Inr (''('' @ join '', '' inputs @ '') -> ('' @ join '', '' results @ '')'')))"

text \<open>The scalar tags and their names.\<close>

definition scalar_text :: "(TypeTag \<times> string) list" where
  "scalar_text =
     [(TypeTag_I1, ''i1''), (TypeTag_I4, ''i4''), (TypeTag_I8, ''i8''), (TypeTag_I16, ''i16''),
      (TypeTag_I32, ''i32''), (TypeTag_I64, ''i64''), (TypeTag_F16, ''f16''), (TypeTag_BF16, ''bf16''),
      (TypeTag_F32, ''f32''), (TypeTag_TF32, ''tf32''), (TypeTag_F64, ''f64''),
      (TypeTag_F8E4M3FN, ''f8e4m3fn''), (TypeTag_F8E5M2, ''f8e5m2''),
      (TypeTag_F8E8M0FNU, ''f8e8m0fnu''), (TypeTag_F4E2M1FN, ''f4e2m1fn''),
      (TypeTag_F8E5M3FNU, ''f8e5m3fnu''), (TypeTag_Token, ''token'')]"

definition decode_type_entry :: "bytes \<Rightarrow> string list \<Rightarrow> BytecodeVersion \<Rightarrow> (decode_error, string) res" where
  "decode_type_entry d prev version =
     (case read_varint (reader_new d) of
        Inl _ \<Rightarrow> Inr ''<read error>''
      | Inr (tag_val, r) \<Rightarrow>
          let t = ucast tag_val :: u8 in
          case find (\<lambda>(g, _). t = type_tag_u8 g) scalar_text of
            Some (_, s) \<Rightarrow> Inr s
          | None \<Rightarrow>
              if t = type_tag_u8 TypeTag_Pointer then decode_pointer prev version r
              else if t = type_tag_u8 TypeTag_Tile then decode_tile prev r
              else if t = type_tag_u8 TypeTag_TensorView then decode_tensor_view prev version r
              else if t = type_tag_u8 TypeTag_PartitionView then decode_partition_view prev version r
              else if t = type_tag_u8 TypeTag_GatherScatterView then decode_gather_scatter_view prev r
              else if t = type_tag_u8 TypeTag_StridedView then decode_strided_view prev r
              else if t = type_tag_u8 TypeTag_Func then decode_func prev r
              else Inr (''<unknown type tag '' @ show_word t @ ''>''))"

text \<open>Entries are decoded in order, each with the texts of those before it.\<close>

fun decode_type_entries ::
  "bytes list \<Rightarrow> string list \<Rightarrow> BytecodeVersion \<Rightarrow> (decode_error, string list) res" where
  "decode_type_entries [] prev version = Inr prev"
| "decode_type_entries (d # ds) prev version =
     and_then (decode_type_entry d prev version) (\<lambda>desc. decode_type_entries ds (prev @ [desc]) version)"

definition parse_type_section :: "bytes option \<Rightarrow> BytecodeVersion \<Rightarrow> (decode_error, string list) res" where
  "parse_type_section payload version =
     (case payload of
        None \<Rightarrow> Inr []
      | Some d \<Rightarrow>
          and_then (read_varint (reader_new d)) (\<lambda>(count, r).
            if count = 0 then Inr []
            else and_then (skip_padding 4 r) (\<lambda>r.
                 and_then (with_capacity 8 (as_usize count)) (\<lambda>_.
                 and_then (read_many read_le_u32 (as_usize count) r) (\<lambda>(offsets, r).
                 and_then (read_bytes (remaining r) r) (\<lambda>(type_data, r).
                 and_then (with_capacity 24 (as_usize count)) (\<lambda>_.
                 and_then (table_slices (map as_usize offsets) type_data) (\<lambda>slices.
                   decode_type_entries slices [] version))))))))"

end
