(* ===== verification/TypeRoundTrip.thy ===== *)
theory TypeRoundTrip
  imports TypeSection
begin

text \<open>
  The type section read back. \<open>type_wire\<close> is the wire form of a type over an index
  function, \<open>type_desc\<close> the text the decoder should print for it. Serializing a type whose
  components are in the table appends its wire form and leaves the table alone; decoding
  the wire form after the components gives the text; so a type section written from a well-formed
  table is decoded to the texts of its types.
\<close>

section \<open>The wire form\<close>

definition flag_wire :: "bool \<Rightarrow> bytes" where
  "flag_wire b = varint (if b then 1 else 0)"

definition attr_wire :: "PointerAttribute option \<Rightarrow> bytes" where
  "attr_wire pa = (case pa of Some a \<Rightarrow> [pointer_attribute_u8 a] | None \<Rightarrow> [])"

definition pad_wire :: "PaddingValue option \<Rightarrow> bytes" where
  "pad_wire pv = (case pv of Some p \<Rightarrow> [padding_value_u8 p] | None \<Rightarrow> [])"

fun type_wire :: "(Type \<Rightarrow> u64) \<Rightarrow> BytecodeVersion \<Rightarrow> PointerAttribute option \<Rightarrow> Type \<Rightarrow> bytes" where
  "type_wire ix v pa (Ty_WithPointerAttribute base attr) = type_wire ix v (Some attr) base"
| "type_wire ix v pa (Ty_Scalar sc) = varint (type_tag_u64 (type_tag sc))"
| "type_wire ix v pa (Ty_Pointer p) =
     varint (type_tag_u64 TypeTag_Pointer) @ (if v \<ge> V13_4 then flag_wire (pa \<noteq> None) else [])
     @ varint (ix (Ty_Scalar (pointee p))) @ attr_wire pa"
| "type_wire ix v pa (Ty_Tile t) =
     varint (type_tag_u64 TypeTag_Tile)
     @ varint (ix (case t_element_type t of
                     TE_Scalar sc \<Rightarrow> Ty_Scalar sc | TE_Pointer p \<Rightarrow> qualify pa (Ty_Pointer p)))
     @ var_size_i64 (t_shape t)"
| "type_wire ix v pa (Ty_TensorView tv) =
     varint (type_tag_u64 TypeTag_TensorView) @ (if v \<ge> V13_4 then flag_wire (pa \<noteq> None) else [])
     @ varint (ix (Ty_Scalar (tv_element_type tv))) @ var_size_i64 (tv_shape tv)
     @ var_size_i64 (tv_strides tv) @ attr_wire pa"
| "type_wire ix v pa (Ty_PartitionView pv) =
     varint (type_tag_u64 TypeTag_PartitionView)
     @ (if v \<ge> V13_3 then flag_wire (pv_padding_value pv \<noteq> None) else [])
     @ var_size_i32 (pv_tile_shape pv)
     @ varint (ix (qualify pa (Ty_TensorView (pv_tensor_view pv))))
     @ var_size_i32 (pv_dim_map pv)
     @ (if v \<ge> V13_3 then pad_wire (pv_padding_value pv)
        else case pv_padding_value pv of
               None \<Rightarrow> [0] | Some p \<Rightarrow> 1 # varint (ucast (padding_value_u8 p)))"
| "type_wire ix v pa (Ty_GatherScatterView gsv) =
     varint (type_tag_u64 TypeTag_GatherScatterView)
     @ flag_wire (gsv_padding_value gsv \<noteq> None) @ var_size_i32 (gsv_tile_shape gsv)
     @ varint (ix (qualify pa (Ty_TensorView (gsv_tensor_view gsv))))
     @ varint (scast (gsv_sparse_dim gsv)) @ pad_wire (gsv_padding_value gsv)"
| "type_wire ix v pa (Ty_StridedView sv) =
     varint (type_tag_u64 TypeTag_StridedView)
     @ flag_wire (sv_padding_value sv \<noteq> None) @ var_size_i32 (sv_tile_shape sv)
     @ var_size_i32 (sv_traversal_strides sv)
     @ varint (ix (qualify pa (Ty_TensorView (sv_tensor_view sv))))
     @ var_size_i32 (sv_dim_map sv) @ pad_wire (sv_padding_value sv)"
| "type_wire ix v pa (Ty_Func ins outs) =
     varint (type_tag_u64 TypeTag_Func)
     @ varint (as_u64 (length ins)) @ concat (map (\<lambda>t. varint (ix t)) ins)
     @ varint (as_u64 (length outs)) @ concat (map (\<lambda>t. varint (ix t)) outs)"
| "type_wire ix v pa Ty_Token = varint (type_tag_u64 TypeTag_Token)"

text \<open>The types the writer accepts at a version.\<close>

fun encodable :: "BytecodeVersion \<Rightarrow> Type \<Rightarrow> bool" where
  "encodable v (Ty_WithPointerAttribute base attr) \<longleftrightarrow>
     v \<ge> V13_4 \<and> encodable v base \<and>
     (case base of Ty_Pointer _ \<Rightarrow> True | Ty_TensorView _ \<Rightarrow> True | _ \<Rightarrow> pointer_dependency base \<noteq> None)"
| "encodable v (Ty_Scalar sc) \<longleftrightarrow> v \<ge> minimum_version sc"
| "encodable v (Ty_GatherScatterView _) \<longleftrightarrow> v \<ge> V13_3"
| "encodable v (Ty_StridedView _) \<longleftrightarrow> v \<ge> V13_3"
| "encodable v _ \<longleftrightarrow> True"

section \<open>Serialization appends the wire form\<close>

definition type_ix :: "TypeManager \<Rightarrow> Type \<Rightarrow> u64" where
  "type_ix m ty = fst (type_get_or_insert ty m)"

lemma write_type_index_known:
  "types_wf m \<Longrightarrow> ty \<in> set (ty_list m) \<Longrightarrow>
   write_type_index ty (m, w) = (m, write_varint (type_ix m ty) w)"
  using type_known [of m ty] by (simp add: write_type_index_def type_ix_def case_prod_beta)

lemma fold_write_type_index_known:
  "types_wf m \<Longrightarrow> set tys \<subseteq> set (ty_list m) \<Longrightarrow>
   fold write_type_index tys (m, w) = (m, fold (\<lambda>ty. write_varint (type_ix m ty)) tys w)"
  by (induction tys arbitrary: w) (simp_all add: write_type_index_known)

lemma buf_fold_varint [layout_simps]:
  "buf (fold (\<lambda>ty. write_varint (f ty)) tys w) = buf w @ concat (map (\<lambda>t. varint (f t)) tys)"
  by (induction tys arbitrary: w) (simp_all add: layout_simps)

lemma buf_flag [layout_simps]: "buf (write_flag b w) = buf w @ flag_wire b"
  by (simp add: write_flag_def flag_wire_def layout_simps)

lemma buf_attr [layout_simps]: "buf (write_pointer_attribute pa w) = buf w @ attr_wire pa"
  by (cases pa) (simp_all add: write_pointer_attribute_def attr_wire_def layout_simps)

lemma buf_pad [layout_simps]: "buf (write_padding_value pv w) = buf w @ pad_wire pv"
  by (cases pv) (simp_all add: write_padding_value_def pad_wire_def layout_simps)

lemmas serialize_simps =
  seq_def emit_def write_type_index_known fold_write_type_index_known layout_simps qualify_def
  feature_since_def require_version_ok

text \<open>The components of \<open>ty\<close> under a pointer attribute \<open>pa\<close>.\<close>

definition wrap :: "PointerAttribute option \<Rightarrow> Type \<Rightarrow> Type" where
  "wrap pa ty = (case pa of Some a \<Rightarrow> Ty_WithPointerAttribute ty a | None \<Rightarrow> ty)"

lemma serialize_base:
  assumes "types_wf m" and "set (register_deps (wrap pa ty)) \<subseteq> set (ty_list m)"
    and "encodable v (wrap pa ty)" and "\<forall>b a. ty \<noteq> Ty_WithPointerAttribute b a"
  shows "\<exists>w'. serialize_type_with_pointer_attribute ty v pa (m, w) = Inr (m, w') \<and>
              buf w' = buf w @ type_wire (type_ix m) v pa ty"
  using assms
  by (cases ty; cases pa)
    (auto simp: serialize_simps wrap_def with_pointer_attribute_def split: TileElementType.splits option.splits)

lemma serialize_type_eq:
  assumes "types_wf m" and "set (register_deps ty) \<subseteq> set (ty_list m)" and "encodable v ty"
  shows "\<exists>w'. serialize_type ty v (m, w) = Inr (m, w') \<and> buf w' = buf w @ type_wire (type_ix m) v None ty"
proof (cases "\<exists>b a. ty = Ty_WithPointerAttribute b a")
  case False
  then show ?thesis using serialize_base [of m None ty v w] assms by (simp add: wrap_def serialize_type_def)
next
  case True
  then obtain b a where ty: "ty = Ty_WithPointerAttribute b a" by blast
  have "\<forall>b' a'. b \<noteq> Ty_WithPointerAttribute b' a'" using assms(3) ty by auto
  then have "\<exists>w'. serialize_type_with_pointer_attribute b v (Some a) (m, w) = Inr (m, w') \<and>
      buf w' = buf w @ type_wire (type_ix m) v (Some a) b"
    using serialize_base [of m "Some a" b v w] assms ty by (simp add: wrap_def)
  then show ?thesis
    using assms(3) ty by (cases b) (auto simp: serialize_type_def feature_since_def require_version_def)
qed

text \<open>Conversely, the writer rejects every other type, with an error and not a panic.\<close>

lemma serialize_type_rejects:
  assumes "\<not> encodable v ty"
  shows "\<exists>e. serialize_type_with_pointer_attribute ty v pa s = Inl (Err e)"
  using assms
proof (induction v ty arbitrary: pa rule: encodable.induct)
  case (1 v base attr)
  show ?case
  proof (cases "v \<ge> V13_4 \<and> (case base of Ty_Pointer _ \<Rightarrow> True | Ty_TensorView _ \<Rightarrow> True
      | _ \<Rightarrow> pointer_dependency base \<noteq> None)")
    case True
    then have "\<not> encodable v base" using "1.prems" by simp
    then show ?thesis using 1 by (auto simp: feature_since_def require_version_def)
  next
    case False
    then show ?thesis by (cases base) (auto simp: feature_since_def require_version_def)
  qed
qed (auto simp: feature_since_def require_version_def)

section \<open>The text of a type\<close>

definition scalar_name :: "ScalarType \<Rightarrow> string" where
  "scalar_name sc = (case map_of scalar_text (type_tag sc) of Some s \<Rightarrow> s | None \<Rightarrow> [])"

definition attr_text :: "PointerAttribute option \<Rightarrow> string" where
  "attr_text pa = (case pa of Some a \<Rightarrow> '', ptr_attr='' @ show_word (pointer_attribute_u8 a) | None \<Rightarrow> [])"

definition pad_text :: "PaddingValue option \<Rightarrow> string" where
  "pad_text pv = (case pv of Some p \<Rightarrow> '', padding='' @ show_word (padding_value_u8 p) | None \<Rightarrow> [])"

definition tensor_view_text :: "PointerAttribute option \<Rightarrow> TensorViewType \<Rightarrow> string" where
  "tensor_view_text pa tv =
     ''tensor_view<'' @ join ''x'' (map show_dim (tv_shape tv)) @ ''x'' @ scalar_name (tv_element_type tv)
     @ '', strides=['' @ join '','' (map show_dim (tv_strides tv)) @ '']'' @ attr_text pa @ ''>''"

fun type_desc :: "PointerAttribute option \<Rightarrow> Type \<Rightarrow> string" where
  "type_desc pa (Ty_WithPointerAttribute base attr) = type_desc (Some attr) base"
| "type_desc pa (Ty_Scalar sc) = scalar_name sc"
| "type_desc pa (Ty_Pointer p) = ''ptr<'' @ scalar_name (pointee p) @ attr_text pa @ ''>''"
| "type_desc pa (Ty_Tile t) =
     ''tile<'' @ concat (map (\<lambda>d. show_signed d @ ''x'') (t_shape t))
     @ (case t_element_type t of
          TE_Scalar sc \<Rightarrow> scalar_name sc
        | TE_Pointer p \<Rightarrow> ''ptr<'' @ scalar_name (pointee p) @ attr_text pa @ ''>'') @ ''>''"
| "type_desc pa (Ty_TensorView tv) = tensor_view_text pa tv"
| "type_desc pa (Ty_PartitionView pv) =
     ''partition_view<tile=('' @ join ''x'' (map show_signed (pv_tile_shape pv)) @ ''), tv=''
     @ tensor_view_text pa (pv_tensor_view pv) @ pad_text (pv_padding_value pv) @ ''>''"
| "type_desc pa (Ty_GatherScatterView gsv) =
     ''gather_scatter_view<tile=('' @ join ''x'' (map show_signed (gsv_tile_shape gsv)) @ ''), tv=''
     @ tensor_view_text pa (gsv_tensor_view gsv)
     @ '', sparse_dim='' @ show_word (scast (gsv_sparse_dim gsv) :: u64) @ pad_text (gsv_padding_value gsv) @ ''>''"
| "type_desc pa (Ty_StridedView sv) =
     ''strided_view<tile=('' @ join ''x'' (map show_signed (sv_tile_shape sv))
     @ ''), traversal_strides=['' @ join '','' (map show_signed (sv_traversal_strides sv))
     @ ''], tv='' @ tensor_view_text pa (sv_tensor_view sv)
     @ '', dim_map=['' @ join '','' (map show_signed (sv_dim_map sv)) @ '']'' @ pad_text (sv_padding_value sv) @ ''>''"
| "type_desc pa (Ty_Func ins outs) =
     ''('' @ join '', '' (map (type_desc None) ins) @ '') -> ('' @ join '', '' (map (type_desc None) outs) @ '')''"
| "type_desc pa Ty_Token = ''token''"

lemma nat_digits_nonempty [simp]: "nat_digits n \<noteq> []"
  by (subst nat_digits.simps) simp

lemma show_signed_nonempty [simp]: "show_signed d \<noteq> []"
  by (simp add: show_signed_def show_int_def)

lemma join_x:
  "xs \<noteq> [] \<Longrightarrow> join sep (map f xs) @ sep @ rest = concat (map (\<lambda>d. f d @ sep) xs) @ rest"
  by (induction xs rule: induct_list012) simp_all

lemma join_nonempty: "xs \<noteq> [] \<Longrightarrow> (\<And>x. f x \<noteq> []) \<Longrightarrow> join sep (map f xs) \<noteq> []"
  by (cases xs rule: remdups_adj.cases) auto

section \<open>Decoding the wire form\<close>

lemma unwrap_or_Inr: "rd r = Inr v \<Longrightarrow> unwrap_or dflt stop rd r = Inr v"
  by (simp add: unwrap_or_def)

lemma codec_unwrap_or: "codec enc rd \<Longrightarrow> codec enc (unwrap_or dflt stop rd)"
  by (auto simp: codec_def intro!: unwrap_or_Inr)

interpretation or_varint: codec varint varint_or_0
  unfolding varint_or_0_def by (rule codec_unwrap_or) (rule varint.codec_axioms)

interpretation or_i64: codec "to_le 8" le_i64_or_0
  unfolding le_i64_or_0_def by (rule codec_unwrap_or) (rule le_i64.codec_axioms)

interpretation or_i32: codec "to_le 4" le_i32_or_0
  unfolding le_i32_or_0_def by (rule codec_unwrap_or) (rule le_i32.codec_axioms)

lemma byte_or_0_step: "byte_or_0 (reader_at pre (b # bs)) = Inr (b, reader_at (pre @ [b]) bs)"
  by (simp add: byte_or_0_def unwrap_or_def reader_steps)

interpretation dims_i64: codec var_size_i64 read_dims_i64
  by (rule codecI)
    (simp add: read_dims_i64_def var_size_i64_def or_varint.step with_capacity_def or_i64.read_many_step)

interpretation dims_i32: codec var_size_i32 read_dims_i32
  by (rule codecI)
    (simp add: read_dims_i32_def var_size_i32_def or_varint.step with_capacity_def or_i32.read_many_step)

lemma decode_names_step:
  assumes "length xs < 2 ^ 32" and "\<And>t. t \<in> set xs \<Longrightarrow> name_at prev (ix t) = f t"
    and "length pre + (length (varint (as_u64 (length xs))) + (length (concat (map (\<lambda>t. varint (ix t)) xs)) + length rest)) < isize_top"
  shows "decode_names prev (reader_at pre (varint (as_u64 (length xs)) @ concat (map (\<lambda>t. varint (ix t)) xs) @ rest))
       = Inr (map f xs, reader_at (pre @ varint (as_u64 (length xs)) @ concat (map (\<lambda>t. varint (ix t)) xs)) rest)"
proof -
  have e: "concat (map (\<lambda>t. varint (ix t)) xs) = concat (map varint (map ix xs))" by (simp add: comp_def)
  have "map (name_at prev) (map ix xs) = map f xs" using assms(2) by simp
  then show ?thesis
    using assms(1,3) unfolding decode_names_def e
    by (simp add: or_varint.step with_capacity_ok or_varint.read_many_step del: map_map)
qed

lemmas entry_steps =
  or_varint.step or_varint.step_end dims_i64.step dims_i64.step_end dims_i32.step dims_i32.step_end
  byte_or_0_step reader_steps ucast_type_tag_u64

lemmas entry_wires = flag_wire_def attr_wire_def pad_wire_def attr_text_def pad_text_def

lemma decode_pointer_wire:
  assumes "name_at prev (ix (Ty_Scalar (pointee p))) = scalar_name (pointee p)"
    and "pa \<noteq> None \<longrightarrow> v \<ge> V13_4" and "length (type_wire ix v pa (Ty_Pointer p)) < isize_top"
  shows "decode_type_entry (type_wire ix v pa (Ty_Pointer p)) prev v = Inr (type_desc pa (Ty_Pointer p))"
  using assms
  by (cases pa; cases "v \<ge> V13_4")
    (simp_all add: decode_type_entry_def scalar_text_def decode_pointer_def entry_steps entry_wires)

lemma decode_tile_wire:
  assumes "name_at prev (ix e) = n" and "length (varint (ix e) @ var_size_i64 sh) + length pre < isize_top"
  shows "decode_tile prev (reader_at pre (varint (ix e) @ var_size_i64 sh))
       = Inr (''tile<'' @ concat (map (\<lambda>d. show_signed d @ ''x'') sh) @ n @ ''>'')"
  using assms join_x [of sh "''x''" show_signed "n @ ''>''"] join_nonempty [of sh show_signed "''x''"]
  by (cases "sh = []") (simp_all add: decode_tile_def entry_steps Let_def)

lemma decode_tensor_view_wire:
  assumes "name_at prev (ix (Ty_Scalar (tv_element_type tv))) = scalar_name (tv_element_type tv)"
    and "pa \<noteq> None \<longrightarrow> v \<ge> V13_4" and "length (type_wire ix v pa (Ty_TensorView tv)) < isize_top"
  shows "decode_type_entry (type_wire ix v pa (Ty_TensorView tv)) prev v = Inr (type_desc pa (Ty_TensorView tv))"
  using assms
  by (cases pa; cases "v \<ge> V13_4")
    (simp_all add: decode_type_entry_def scalar_text_def decode_tensor_view_def tensor_view_text_def
      entry_steps entry_wires)

lemma ucast_padding: "show_word (ucast (padding_value_u8 p) :: u64) = show_word (padding_value_u8 p)"
  by (cases p) (simp_all add: show_word_def)

lemma decode_partition_view_wire:
  assumes "name_at prev (ix (qualify pa (Ty_TensorView (pv_tensor_view pv)))) = tensor_view_text pa (pv_tensor_view pv)"
    and "length (type_wire ix v pa (Ty_PartitionView pv)) < isize_top"
  shows "decode_type_entry (type_wire ix v pa (Ty_PartitionView pv)) prev v = Inr (type_desc pa (Ty_PartitionView pv))"
  using assms
  by (cases "pv_padding_value pv"; cases "v \<ge> V13_3")
    (simp_all add: decode_type_entry_def scalar_text_def decode_partition_view_def entry_steps entry_wires
      ucast_padding)

lemma decode_gather_scatter_view_wire:
  assumes "name_at prev (ix (qualify pa (Ty_TensorView (gsv_tensor_view gv)))) = tensor_view_text pa (gsv_tensor_view gv)"
    and "length (type_wire ix v pa (Ty_GatherScatterView gv)) < isize_top"
  shows "decode_type_entry (type_wire ix v pa (Ty_GatherScatterView gv)) prev v = Inr (type_desc pa (Ty_GatherScatterView gv))"
  using assms
  by (cases "gsv_padding_value gv")
    (simp_all add: decode_type_entry_def scalar_text_def decode_gather_scatter_view_def entry_steps entry_wires)

lemma decode_strided_view_wire:
  assumes "name_at prev (ix (qualify pa (Ty_TensorView (sv_tensor_view sv)))) = tensor_view_text pa (sv_tensor_view sv)"
    and "length (type_wire ix v pa (Ty_StridedView sv)) < isize_top"
  shows "decode_type_entry (type_wire ix v pa (Ty_StridedView sv)) prev v = Inr (type_desc pa (Ty_StridedView sv))"
  using assms
  by (cases "sv_padding_value sv")
    (simp_all add: decode_type_entry_def scalar_text_def decode_strided_view_def entry_steps entry_wires)

lemma decode_func_wire:
  assumes "\<And>t. t \<in> set (ins @ outs) \<Longrightarrow> name_at prev (ix t) = type_desc None t"
    and "length ins < 2 ^ 32" and "length outs < 2 ^ 32"
    and "length (type_wire ix v pa (Ty_Func ins outs)) < isize_top"
  shows "decode_type_entry (type_wire ix v pa (Ty_Func ins outs)) prev v = Inr (type_desc pa (Ty_Func ins outs))"
  using assms decode_names_step [of outs prev ix "type_desc None" _ "[]"]
  by (simp add: decode_type_entry_def scalar_text_def decode_func_def entry_steps
      decode_names_step [of ins prev ix "type_desc None"])

lemma decode_scalar_wire:
  "decode_type_entry (varint (type_tag_u64 (type_tag sc))) prev v = Inr (scalar_name sc)"
proof -
  have "length (varint (type_tag_u64 (type_tag sc))) < isize_top"
    by (cases sc) (simp_all add: type_tag_u64_def varint.simps)
  then show ?thesis
    by (cases sc) (simp_all add: decode_type_entry_def scalar_text_def scalar_name_def entry_steps)
qed

text \<open>One entry, under the attribute that encloses it.\<close>

lemma length_concat_varints: "length xs \<le> length (concat (map (\<lambda>t. varint (ix t)) xs))"
proof (induction xs)
  case (Cons x xs)
  have "0 < length (varint (ix x))" by simp
  then show ?case using Cons by (simp del: length_greater_0_conv)
qed simp

lemma decode_entry_base:
  assumes "\<And>d. d \<in> set (register_deps (wrap pa ty)) \<Longrightarrow> name_at prev (ix d) = type_desc None d"
    and "encodable v (wrap pa ty)" and "\<forall>b a. ty \<noteq> Ty_WithPointerAttribute b a"
    and "length (type_wire ix v pa ty) < 2 ^ 32"
  shows "decode_type_entry (type_wire ix v pa ty) prev v = Inr (type_desc pa ty)"
proof (cases ty)
  case (Ty_Scalar x)
  then show ?thesis by (simp add: decode_scalar_wire)
next
  case (Ty_Pointer p)
  then show ?thesis using assms by (cases pa) (simp_all add: decode_pointer_wire wrap_def del: type_wire.simps(3))
next
  case (Ty_Tile t)
  have "\<exists>e. type_wire ix v pa ty = varint (type_tag_u64 TypeTag_Tile) @ varint (ix e) @ var_size_i64 (t_shape t) \<and>
      ''tile<'' @ concat (map (\<lambda>d. show_signed d @ ''x'') (t_shape t)) @ name_at prev (ix e) @ ''>'' = type_desc pa ty"
    using assms(1,2) Ty_Tile
    by (cases pa; cases "t_element_type t") (auto simp: wrap_def qualify_def with_pointer_attribute_def)
  then obtain e where e: "type_wire ix v pa ty
      = varint (type_tag_u64 TypeTag_Tile) @ varint (ix e) @ var_size_i64 (t_shape t)"
    "''tile<'' @ concat (map (\<lambda>d. show_signed d @ ''x'') (t_shape t)) @ name_at prev (ix e) @ ''>'' = type_desc pa ty"
    by blast
  show ?thesis
    using decode_tile_wire [of prev ix e _ "t_shape t" "varint (type_tag_u64 TypeTag_Tile)"] assms(4)
    unfolding e(1) e(2) [symmetric]
    by (simp add: decode_type_entry_def scalar_text_def entry_steps)
next
  case (Ty_TensorView tv)
  then show ?thesis using assms by (cases pa) (simp_all add: decode_tensor_view_wire wrap_def del: type_wire.simps(5))
next
  case (Ty_PartitionView x)
  then show ?thesis
    using assms by (cases pa)
      (simp_all add: decode_partition_view_wire wrap_def qualify_def with_pointer_attribute_def
        del: type_wire.simps(6))
next
  case (Ty_GatherScatterView x)
  then show ?thesis
    using assms by (cases pa)
      (simp_all add: decode_gather_scatter_view_wire wrap_def qualify_def with_pointer_attribute_def
        del: type_wire.simps(7))
next
  case (Ty_StridedView x)
  then show ?thesis
    using assms by (cases pa)
      (simp_all add: decode_strided_view_wire wrap_def qualify_def with_pointer_attribute_def
        del: type_wire.simps(8))
next
  case (Ty_Func ins outs)
  have "pa = None" using assms(2) Ty_Func by (cases pa) (simp_all add: wrap_def)
  have "length ins < 2 ^ 32" "length outs < 2 ^ 32"
    using assms(4) Ty_Func length_concat_varints [of ins ix] length_concat_varints [of outs ix] by auto
  then show ?thesis
    using decode_func_wire [of ins outs prev ix v pa] assms Ty_Func \<open>pa = None\<close>
    by (simp add: wrap_def del: type_wire.simps(9))
next
  case Ty_Token
  have "length (varint (type_tag_u64 TypeTag_Token)) < isize_top"
    by (simp add: type_tag_u64_def varint.simps)
  then show ?thesis using Ty_Token by (simp add: decode_type_entry_def scalar_text_def entry_steps)
qed (use assms(3) in simp)

lemma decode_entry_wire:
  assumes "\<And>d. d \<in> set (register_deps ty) \<Longrightarrow> name_at prev (ix d) = type_desc None d"
    and "encodable v ty" and "length (type_wire ix v None ty) < 2 ^ 32"
  shows "decode_type_entry (type_wire ix v None ty) prev v = Inr (type_desc None ty)"
proof (cases "\<exists>b a. ty = Ty_WithPointerAttribute b a")
  case False
  then show ?thesis using decode_entry_base [of None ty prev ix v] assms by (simp add: wrap_def)
next
  case True
  then obtain b a where ty: "ty = Ty_WithPointerAttribute b a" by blast
  have "\<forall>b' a'. b \<noteq> Ty_WithPointerAttribute b' a'" using assms(2) ty by auto
  then show ?thesis using decode_entry_base [of "Some a" b prev ix v] assms ty by (simp add: wrap_def)
qed

section \<open>The whole section\<close>

definition type_entries :: "TypeManager \<Rightarrow> BytecodeVersion \<Rightarrow> bytes list" where
  "type_entries m v = map (type_wire (type_ix m) v None) (ty_list m)"

definition type_payload :: "TypeManager \<Rightarrow> BytecodeVersion \<Rightarrow> bytes" where
  "type_payload m v = table_bytes 4 4 TYPE(32) (type_entries m v)"

lemma types_wf_deps: "types_wf m \<Longrightarrow> ty \<in> set (ty_list m) \<Longrightarrow> set (register_deps ty) \<subseteq> set (ty_list m)"
  by (auto simp: types_wf_def in_set_conv_nth dest: in_set_takeD)

lemma write_type_entries_eq:
  assumes "types_wf m" and "set tys \<subseteq> set (ty_list m)" and "\<forall>ty \<in> set tys. encodable v ty"
  shows "\<exists>w'. write_type_entries tys v (as_u32 k) (m, w)
            = Inr (map as_u32 (offsets_from k (map (type_wire (type_ix m) v None) tys)), (m, w')) \<and>
          buf w' = buf w @ concat (map (type_wire (type_ix m) v None) tys)"
  using assms(2,3)
proof (induction tys arbitrary: k w)
  case (Cons ty tys)
  let ?e = "type_wire (type_ix m) v None ty"
  obtain w1 where w1: "serialize_type ty v (m, w) = Inr (m, w1)" "buf w1 = buf w @ ?e"
    using serialize_type_eq [OF assms(1), of ty v w] types_wf_deps [OF assms(1)] Cons.prems by auto
  then have "tell w1 - tell w = length ?e" by (simp add: tell_def)
  moreover have "as_u32 k + as_u32 (length ?e) = as_u32 (k + length ?e)" by simp
  ultimately show ?case
    using Cons.IH [of "k + length ?e" w1] Cons.prems w1 by (auto simp del: of_nat_add)
qed simp

lemma write_type_section_eq:
  assumes "types_wf m" and "\<forall>ty \<in> set (ty_list m). encodable v ty"
  shows "write_type_section output m v =
     Inr (if ty_list m = [] then output
          else write_section_header output Section_Type (length (type_payload m v)) 4 @ type_payload m v)"
proof -
  let ?es = "type_entries m v"
  let ?init = "align_to 4 (write_varint (as_u64 (length ?es)) writer_new)"
  let ?w = "fold (\<lambda>_. write_le_u32 0) [0..<length ?es] ?init"
  obtain w' where w': "write_type_entries (ty_list m) v (as_u32 0) (m, ?w)
      = Inr (map as_u32 (offsets_from 0 ?es), (m, w'))" "buf w' = buf ?w @ concat ?es"
    using write_type_entries_eq [OF assms(1) _ assms(2), of 0 ?w] by (auto simp: type_entries_def)
  have "write_entries ?es (0 :: u32) ?w = (map as_u32 (offsets_from 0 ?es), write_bytes (concat ?es) ?w)"
    using write_entries_eq [where k = 0 and 'o = 32] by simp
  then have "patch_offsets patch_u32 (tell ?init) 4 (map as_u32 (offsets_from 0 ?es)) (buf (write_bytes (concat ?es) ?w))
      = (Inr (type_payload m v) :: (write_error, bytes) res)"
    unfolding type_payload_def
    by (intro write_table_eq [OF _ _ _ refl refl, where z = "replicate 4 0"])
      (simp_all add: patch_u32_def layout_simps to_le_0)
  then have "patch_offsets patch_u32 (tell ?init) 4 (map as_u32 (offsets_from 0 ?es)) (buf w')
      = (Inr (type_payload m v) :: (write_error, bytes) res)"
    by (simp add: w'(2) buf_write_bytes)
  then show ?thesis
    using w'(1) by (simp add: write_type_section_def Let_def type_entries_def)
qed

text \<open>A section that was written holds encodable types only.\<close>

lemma write_type_entries_encodable:
  "write_type_entries tys v running s = Inr x \<Longrightarrow> ty \<in> set tys \<Longrightarrow> encodable v ty"
proof (induction tys arbitrary: running s x)
  case (Cons ty' tys)
  then obtain s' y where 1: "serialize_type ty' v s = Inr s'"
    and 2: "write_type_entries tys v (running + as_u32 (tell (snd s') - tell (snd s))) s' = Inr y"
    by (auto simp: and_then_eq_Inr)
  have "encodable v ty'"
    using serialize_type_rejects [of v ty' None s] 1 by (auto simp: serialize_type_def)
  then show ?case using Cons.IH [OF 2] Cons.prems(2) by auto
qed simp

lemma write_type_section_encodable:
  assumes "write_type_section output m v = Inr out" and "ty \<in> set (ty_list m)"
  shows "encodable v ty"
  using assms
  by (auto simp: write_type_section_def Let_def and_then_eq_Inr split: if_splits dest: write_type_entries_encodable)

lemma type_ix_position:
  assumes "types_wf m" and "j < length (ty_list m)"
  shows "type_ix m (ty_list m ! j) = as_u64 j"
  using typs.intern_position [OF assms] by (simp add: type_ix_def)

lemma name_at_earlier:
  assumes "types_wf m" and "length (ty_list m) < usize_top" and "d \<in> set (take i (ty_list m))"
  shows "name_at (map f (take i (ty_list m))) (type_ix m d) = f d"
proof -
  obtain j where j: "j < length (take i (ty_list m))" "d = take i (ty_list m) ! j"
    using assms(3) by (auto simp: in_set_conv_nth)
  then have "type_ix m d = as_u64 j" using type_ix_position [OF assms(1), of j] by simp
  then show ?thesis using assms(2) j by (simp add: name_at_def get_opt_def)
qed

lemma decode_type_entries_wire:
  assumes "types_wf m" and "\<forall>ty \<in> set (ty_list m). encodable v ty"
    and "length (ty_list m) < 2 ^ 32" and "length (concat (type_entries m v)) < 2 ^ 32"
    and "i \<le> length (ty_list m)"
  shows "decode_type_entries (drop i (type_entries m v)) (map (type_desc None) (take i (ty_list m))) v
       = Inr (map (type_desc None) (ty_list m))"
  using assms(5)
proof (induction "length (ty_list m) - i" arbitrary: i)
  case 0
  then show ?case by (simp add: type_entries_def)
next
  case (Suc n)
  then have i: "i < length (ty_list m)" by simp
  let ?ty = "ty_list m ! i" and ?prev = "map (type_desc None) (take i (ty_list m))"
  let ?e = "type_wire (type_ix m) v None ?ty"
  have "?e \<in> set (type_entries m v)" using i by (simp add: type_entries_def)
  then have "length ?e < 2 ^ 32" using assms(4) member_le_sum_list [of "length ?e" "map length (type_entries m v)"]
    by (simp add: length_concat)
  moreover have "name_at ?prev (type_ix m d) = type_desc None d" if "d \<in> set (register_deps ?ty)" for d
    using that assms(1,3) i by (intro name_at_earlier) (auto simp: types_wf_def)
  ultimately have "decode_type_entry ?e ?prev v = Inr (type_desc None ?ty)"
    using assms(2) i by (intro decode_entry_wire) auto
  moreover have "drop i (type_entries m v) = ?e # drop (Suc i) (type_entries m v)"
    using i by (simp add: type_entries_def Cons_nth_drop_Suc [symmetric])
  moreover have "?prev @ [type_desc None ?ty] = map (type_desc None) (take (Suc i) (ty_list m))"
    using i by (simp add: take_Suc_conv_app_nth)
  ultimately show ?case using Suc.hyps(1) [of "Suc i"] Suc.hyps(2) i by simp
qed

lemma parse_type_payload:
  assumes "types_wf m" and "\<forall>ty \<in> set (ty_list m). encodable v ty" and "ty_list m \<noteq> []"
    and "length (ty_list m) < 2 ^ 32" and "length (concat (type_entries m v)) < 2 ^ 32"
  shows "parse_type_section (Some (type_payload m v)) v = Inr (map (type_desc None) (ty_list m))"
proof -
  let ?es = "type_entries m v"
  have n: "length ?es = length (ty_list m)" by (simp add: type_entries_def)
  have ne: "?es \<noteq> []" using assms(3) by (simp add: type_entries_def)
  have "length (type_payload m v) < isize_top"
    unfolding type_payload_def using assms(4,5) n by (intro table_bytes_bound) simp_all
  then obtain r1 r2 r3 offsets where
    "read_varint (reader_new (type_payload m v)) = Inr (as_u64 (length ?es), r1)"
    "as_u64 (length ?es) \<noteq> 0" "unat (as_u64 (length ?es)) = length ?es"
    "skip_padding 4 r1 = Inr r2" "read_many read_le_u32 (length ?es) r2 = Inr (offsets, r3)"
    "read_bytes (remaining r3) r3 = Inr (concat ?es, advance (length (concat ?es)) r3)"
    "table_slices (map as_usize offsets) (concat ?es) = (Inr ?es :: decode_error fault + bytes list)"
    using read_table_at [OF le_u32.codec_axioms, of 4 ?es] assms(4,5) n ne
    by (auto simp: type_payload_def)
  moreover have "decode_type_entries ?es [] v = Inr (map (type_desc None) (ty_list m))"
    using decode_type_entries_wire [OF assms(1,2,4,5), of 0] by simp
  ultimately show ?thesis
    using assms(4) n by (simp add: parse_type_section_def with_capacity_ok)
qed

end
