(* ===== verification/AttrWriter.thy ===== *)
theory AttrWriter
  imports DebugInfo TypeRoundTrip
begin

text \<open>
  The writer's context and the serialization of attributes (\<open>WriterCtx\<close>,
  \<open>write_self_contained_attribute\<close> and the attribute lookups of \<open>writer.rs\<close>;
  \<open>write_attr_value_inline\<close> of \<open>op_writer.rs\<close>). Every statement is a step on the context
  and the output. \<open>H\<close> is the conversions of the \<open>half\<close> crate that \<open>write_ap_float\<close> calls.
\<close>

section \<open>The writer context\<close>

record WriterCtx =
  ctx_module :: Module
  ctx_version :: BytecodeVersion
  value_map :: "Value \<Rightarrow> u64 option"
  next_idx :: u64
  strings :: StringManager
  types :: TypeManager
  constants :: ConstantManager
  debug :: DebugInfoCollector

type_synonym wstate = "WriterCtx \<times> EncodingWriter"
type_synonym step = "wstate \<Rightarrow> (write_error, wstate) res"

definition put :: "(EncodingWriter \<Rightarrow> EncodingWriter) \<Rightarrow> step" where
  "put f s = Inr (fst s, f (snd s))"

definition put_varint :: "u64 \<Rightarrow> step" where
  "put_varint v = put (write_varint v)"

text \<open>\<open>let idx = ctx.types.get_or_insert(ty); w.write_varint(idx);\<close> and likewise for strings.\<close>

definition put_type :: "Type \<Rightarrow> step" where
  "put_type ty s =
     (let (idx, tys) = type_get_or_insert ty (types (fst s))
      in Inr ((fst s)\<lparr>types := tys\<rparr>, write_varint idx (snd s)))"

definition put_string :: "string \<Rightarrow> step" where
  "put_string str s =
     (let (idx, ss) = string_get_or_insert str (strings (fst s))
      in Inr ((fst s)\<lparr>strings := ss\<rparr>, write_varint idx (snd s)))"

text \<open>The raw data of a dense constant goes to the constant pool behind its length.\<close>

definition constant_data :: "bytes \<Rightarrow> bytes" where
  "constant_data d = buf (write_bytes d (write_varint (as_u64 (length d)) writer_new))"

definition put_constant :: "bytes \<Rightarrow> step" where
  "put_constant d s =
     (let (idx, cs) = constant_add (constant_data d) (constants (fst s))
      in Inr ((fst s)\<lparr>constants := cs\<rparr>, write_varint idx (snd s)))"

definition gate :: "string \<Rightarrow> Feature \<Rightarrow> step" where
  "gate n f s = and_then (require_version n (feature_since f) (ctx_version (fst s))) (\<lambda>_. Inr s)"

section \<open>Attributes\<close>

text \<open>The optional fields of \<open>DivBy\<close> and \<open>Bounded\<close>: a flags byte, then the fields present.\<close>

definition optional_pair :: "i64 option \<Rightarrow> i64 option \<Rightarrow> EncodingWriter \<Rightarrow> EncodingWriter" where
  "optional_pair a b w =
     (let flags = (if a \<noteq> None then 0x01 else 0) OR (if b \<noteq> None then 0x02 else 0);
          w = write_byte flags w;
          w = (case a of Some x \<Rightarrow> write_signed_varint x w | None \<Rightarrow> w)
      in case b of Some y \<Rightarrow> write_signed_varint y w | None \<Rightarrow> w)"

fun write_self_contained_attribute :: "half_crate \<Rightarrow> Attribute \<Rightarrow> step" where
  "write_self_contained_attribute H (Attr_Integer v ty) s =
     acts [put_varint (attribute_tag_u64 AttributeTag_Integer), put_type ty, put_varint v] s"
| "write_self_contained_attribute H (Attr_Float v ty) s =
     acts [put_varint (attribute_tag_u64 AttributeTag_Float), put_type ty, put (write_ap_float H v ty)] s"
| "write_self_contained_attribute H (Attr_Bool v) s =
     acts [put_varint (attribute_tag_u64 AttributeTag_Bool), put (write_byte (if v then 0x01 else 0x00))] s"
| "write_self_contained_attribute H (Attr_Type ty) s =
     acts [put_varint (attribute_tag_u64 AttributeTag_Type), put_type ty] s"
| "write_self_contained_attribute H (Attr_String str) s =
     acts [put_varint (attribute_tag_u64 AttributeTag_String), put_string str] s"
| "write_self_contained_attribute H (Attr_Array elems) s =
     and_then (acts [put_varint (attribute_tag_u64 AttributeTag_Array), put_varint (as_u64 (length elems))] s)
       (\<lambda>s. for_each (\<lambda>elem s. write_self_contained_attribute H elem s) elems s)"
| "write_self_contained_attribute H (Attr_DenseElements de) s =
     acts [put_varint (attribute_tag_u64 AttributeTag_DenseElements), put_type (de_element_type de),
           put_constant (de_data de)] s"
| "write_self_contained_attribute H (Attr_DenseI32Array arr) s = put (write_le_var_size_i32 arr) s"
| "write_self_contained_attribute H (Attr_DivBy db) s =
     acts [put_varint (attribute_tag_u64 AttributeTag_DivBy), put_varint (divisor db),
           put (optional_pair (every db) (along db))] s"
| "write_self_contained_attribute H (Attr_SameElements se) s =
     acts [put_varint (attribute_tag_u64 AttributeTag_SameElements),
           put (write_le_var_size_i64 (se_values se))] s"
| "write_self_contained_attribute H (Attr_Dictionary entries) s =
     and_then (acts [put_varint (attribute_tag_u64 AttributeTag_Dictionary),
                     put_varint (as_u64 (length entries))] s)
       (\<lambda>s. for_each (\<lambda>(key, val) s.
               and_then (put_string key s) (\<lambda>s. write_self_contained_attribute H val s)) entries s)"
| "write_self_contained_attribute H (Attr_OptimizationHints entries) s =
     and_then (acts [put_varint (attribute_tag_u64 AttributeTag_OptimizationHints),
                     put_varint (as_u64 (length entries))] s)
       (\<lambda>s. for_each (\<lambda>(arch, hints) s.
          and_then (acts [put_string arch, put_varint (attribute_tag_u64 AttributeTag_Dictionary),
                          put_varint (as_u64 (length hints))] s)
            (\<lambda>s. for_each (\<lambda>(k, v) s.
               and_then (put_string k s) (\<lambda>s. write_self_contained_attribute H v s)) hints s)) entries s)"
| "write_self_contained_attribute H (Attr_Bounded b) s =
     acts [put_varint (attribute_tag_u64 AttributeTag_Bounded), put (optional_pair (lb b) (ub b))] s"

section \<open>Attribute lookup\<close>

definition find_string_attr :: "(string \<times> Attribute) list \<Rightarrow> string \<Rightarrow> string option" where
  "find_string_attr as n =
     find_map (\<lambda>(k, v). if k = n then (case v of Attr_String s \<Rightarrow> Some s | _ \<Rightarrow> None) else None) as"

definition find_type_attr :: "(string \<times> Attribute) list \<Rightarrow> string \<Rightarrow> Type option" where
  "find_type_attr as n =
     find_map (\<lambda>(k, v). if k = n then (case v of Attr_Type ty \<Rightarrow> Some ty | _ \<Rightarrow> None) else None) as"

definition find_attr :: "(string \<times> Attribute) list \<Rightarrow> string \<Rightarrow> Attribute option" where
  "find_attr as n = find_map (\<lambda>(k, v). if k = n then Some v else None) as"

text \<open>\<open>find_op_attr\<close> of \<open>op_writer.rs\<close>.\<close>

definition find_op_attr :: "Operation \<Rightarrow> string \<Rightarrow> Attribute option" where
  "find_op_attr opn n = find_map (\<lambda>(k, v). if k = n then Some v else None) (attributes opn)"

end
