(* ===== verification/OpWriter.thy ===== *)
theory OpWriter
  imports AttrWriter
begin

text \<open>
  Per-operation serialization (\<open>cutile-ir/src/bytecode/op_writer.rs\<close>): the helpers, one
  definition per arm of \<open>write_op_body\<close>, and the dispatch on the opcode. \<open>R\<close> writes a nested
  region; the recursion through it is closed in \<open>Writer\<close>.

  A segment size is an \<open>i32\<close> that is cast to \<open>usize\<close>, so a negative one becomes a huge
  number; sums of sizes wrap as in a release build. An operand index out of range panics.
\<close>

section \<open>Helpers\<close>

definition write_result_types :: "Operation \<Rightarrow> step" where
  "write_result_types opn = for_each put_type (result_types opn)"

definition operand_index :: "Operation \<Rightarrow> Value \<Rightarrow> WriterCtx \<Rightarrow> (write_error, u64) res" where
  "operand_index opn v ctx = ok_or (OperandNotFound v (opcode opn)) (value_map ctx v)"

definition put_operand :: "Operation \<Rightarrow> Value \<Rightarrow> step" where
  "put_operand opn v s = and_then (operand_index opn v (fst s)) (\<lambda>i. put_varint i s)"

definition write_operands :: "Operation \<Rightarrow> bool \<Rightarrow> step" where
  "write_operands opn encode_size =
     acts [act_if encode_size (put_varint (as_u64 (length (operands opn)))),
           for_each (put_operand opn) (operands opn)]"

text \<open>The first \<open>operandSegmentSizes\<close> array, or one operand per group.\<close>

definition operand_segment_sizes :: "Operation \<Rightarrow> i32 list" where
  "operand_segment_sizes opn =
     (case find_map (\<lambda>(n, a). if n = ''operandSegmentSizes''
                              then (case a of Attr_Array arr \<Rightarrow> Some arr | _ \<Rightarrow> None) else None)
             (attributes opn) of
        Some arr \<Rightarrow> map (\<lambda>a. case a of Attr_Integer v _ \<Rightarrow> ucast v | _ \<Rightarrow> 0) arr
      | None \<Rightarrow> replicate (length (operands opn)) 1)"

definition segment_size :: "Operation \<Rightarrow> nat \<Rightarrow> i32" where
  "segment_size opn g = (case get_opt (operand_segment_sizes opn) g of Some n \<Rightarrow> n | None \<Rightarrow> 0)"

definition operand_group_offset :: "Operation \<Rightarrow> nat \<Rightarrow> u64" where
  "operand_group_offset opn g = sum_list (map (\<lambda>n. scast n) (take g (operand_segment_sizes opn)))"

definition put_group_operand :: "write_error \<Rightarrow> Operation \<Rightarrow> u64 \<Rightarrow> nat \<Rightarrow> step" where
  "put_group_operand e opn offset i s =
     and_then (index (operands opn) (as_usize (offset + as_u64 i))) (\<lambda>v.
     and_then (ok_or e (value_map (fst s) v)) (\<lambda>idx. put_varint idx s))"

definition write_operand_group :: "Operation \<Rightarrow> nat \<Rightarrow> nat \<Rightarrow> step" where
  "write_operand_group opn g expected_size =
     for_each (\<lambda>i. put_group_operand (GroupOperandNotFound g i) opn (operand_group_offset opn g) i)
       [0..<expected_size]"

definition write_variadic_operand_group :: "Operation \<Rightarrow> nat \<Rightarrow> step" where
  "write_variadic_operand_group opn g =
     (let size = scast (segment_size opn g) :: u64 in
      acts [put_varint size,
            for_each (\<lambda>i. put_group_operand (VariadicOperandNotFound g i) opn (operand_group_offset opn g) i)
              [0..<as_usize size]])"

definition print_operand_groups :: "Operation \<Rightarrow> WriterCtx \<Rightarrow> (write_error, nat \<times> bool) res" where
  "print_operand_groups opn ctx =
     (if find_op_attr opn ''operandSegmentSizes'' \<noteq> None
      then let n = sint (segment_size opn 0)
           in Inr (min (nat n) (length (operands opn)), 0 <s segment_size opn 1)
      else if operands opn = [] then Inr (0, False)
      else and_then (value_type (ctx_module ctx) (last (operands opn))) (\<lambda>ty.
             let has_token = (ty = Ty_Token)
             in Inr (length (operands opn) - (if has_token then 1 else 0), has_token)))"

definition write_regions :: "(RegionId \<Rightarrow> step) \<Rightarrow> Operation \<Rightarrow> step" where
  "write_regions R opn =
     acts [put_varint (as_u64 (length (op_regions opn))), for_each R (op_regions opn)]"

definition write_attr_value_inline :: "half_crate \<Rightarrow> Attribute \<Rightarrow> step" where
  "write_attr_value_inline H attr =
     (case attr of
        Attr_Integer v _ \<Rightarrow> put_varint v
      | Attr_Float v ty \<Rightarrow> put (write_ap_float H v ty)
      | Attr_Bool v \<Rightarrow> put (write_byte (if v then 0x01 else 0x00))
      | Attr_String str \<Rightarrow> put_string str
      | Attr_Type ty \<Rightarrow> put_type ty
      | Attr_DenseI32Array arr \<Rightarrow> put (write_le_var_size_i32 arr)
      | Attr_DenseElements de \<Rightarrow> put_constant (de_data de)
      | Attr_Array elems \<Rightarrow>
          acts [put_varint (as_u64 (length elems)),
                for_each (write_self_contained_attribute H) elems]
      | Attr_Dictionary entries \<Rightarrow>
          acts [put_varint (as_u64 (length entries)),
                for_each (\<lambda>(key, val). acts [put_string key, write_self_contained_attribute H val]) entries]
      | Attr_OptimizationHints entries \<Rightarrow>
          acts [put_varint (as_u64 (length entries)),
                for_each (\<lambda>(arch, hints).
                  acts [put_string arch, write_self_contained_attribute H (Attr_Dictionary hints)]) entries]
      | _ \<Rightarrow> write_self_contained_attribute H attr)"

definition write_inline_attr :: "half_crate \<Rightarrow> Operation \<Rightarrow> string \<Rightarrow> step" where
  "write_inline_attr H opn n s =
     and_then (ok_or (MissingAttribute n (opcode opn)) (find_op_attr opn n)) (\<lambda>a.
       write_attr_value_inline H a s)"

definition write_inline_attr_or_default :: "half_crate \<Rightarrow> Operation \<Rightarrow> string \<Rightarrow> u64 \<Rightarrow> step" where
  "write_inline_attr_or_default H opn n dflt =
     (case find_op_attr opn n of Some a \<Rightarrow> write_attr_value_inline H a | None \<Rightarrow> put_varint dflt)"

definition write_interface_attr :: "half_crate \<Rightarrow> Operation \<Rightarrow> string \<Rightarrow> step" where
  "write_interface_attr H opn n s =
     and_then (ok_or (MissingInterfaceAttribute n (opcode opn)) (find_op_attr opn n)) (\<lambda>a.
       write_self_contained_attribute H a s)"

text \<open>The booleans of the \<open>inbounds\<close> array, one for each index.\<close>

fun collect_bools :: "Attribute list \<Rightarrow> (write_error, bool list) res" where
  "collect_bools [] = Inr []"
| "collect_bools (a # as) =
     (case a of
        Attr_Bool b \<Rightarrow> and_then (collect_bools as) (\<lambda>bs. Inr (b # bs))
      | _ \<Rightarrow> Inl (Err (BytecodeWrite ''inbounds requires boolean elements'')))"

definition inbounds_values :: "Operation \<Rightarrow> nat \<Rightarrow> (write_error, bool list) res" where
  "inbounds_values opn rank =
     (case find_op_attr opn ''inbounds'' of
        None \<Rightarrow> Inr (replicate rank False)
      | Some (Attr_Array as) \<Rightarrow>
          if length as = rank then collect_bools as else Inl (Err (InboundsCount (opcode opn) rank))
      | Some _ \<Rightarrow> Inl (Err (InboundsCount (opcode opn) rank)))"

definition write_inbounds :: "Operation \<Rightarrow> nat \<Rightarrow> step" where
  "write_inbounds opn indices_group s =
     (let n = sint (segment_size opn indices_group) in
      if n < 0 then Inl (Err (BytecodeWrite ''negative view index operand count''))
      else and_then (inbounds_values opn (nat n)) (\<lambda>values.
           and_then (act_if (True \<in> set values) (gate ''inbounds=true'' Feat_Inbounds) s) (\<lambda>s.
             act_if (ctx_version (fst s) \<ge> V13_4)
               (acts [put_varint (as_u64 (nat n)),
                      for_each (\<lambda>b. put (write_byte (if b then 1 else 0))) values]) s)))"

text \<open>Bits of a flags word.\<close>

definition flag_if_present :: "Operation \<Rightarrow> string \<Rightarrow> nat \<Rightarrow> u64" where
  "flag_if_present opn n k = (if find_op_attr opn n \<noteq> None then push_bit k 1 else 0)"

definition flag_if_bool_true :: "Operation \<Rightarrow> string \<Rightarrow> nat \<Rightarrow> u64" where
  "flag_if_bool_true opn n k =
     (case find_op_attr opn n of
        Some (Attr_Bool b) \<Rightarrow> if b then push_bit k 1 else 0
      | Some (Attr_Integer v _) \<Rightarrow> if v \<noteq> 0 then push_bit k 1 else 0
      | _ \<Rightarrow> 0)"

definition flag_if_operand_group :: "Operation \<Rightarrow> nat \<Rightarrow> nat \<Rightarrow> u64" where
  "flag_if_operand_group opn g k = (if 0 <s segment_size opn g then push_bit k 1 else 0)"

definition flag_set :: "u64 \<Rightarrow> nat \<Rightarrow> bool" where
  "flag_set flags k \<longleftrightarrow> flags AND push_bit k 1 \<noteq> 0"

text \<open>The statement \<open>if ctx.version >= v { .. }\<close>.\<close>

definition since_version :: "BytecodeVersion \<Rightarrow> step \<Rightarrow> step" where
  "since_version v a s = act_if (ctx_version (fst s) \<ge> v) a s"

definition result_count :: "Operation \<Rightarrow> step" where
  "result_count opn = put_varint (as_u64 (length (result_types opn)))"

section \<open>The arms of \<open>write_op_body\<close>\<close>

text \<open>Result types and operands.\<close>

definition body_simple :: "Operation \<Rightarrow> step" where
  "body_simple opn = acts [write_result_types opn, write_operands opn False]"

definition body_exp :: "half_crate \<Rightarrow> Operation \<Rightarrow> step" where
  "body_exp H opn =
     acts [write_result_types opn,
           act_if (case find_op_attr opn ''rounding_mode'' of
                     Some (Attr_Integer v _) \<Rightarrow> v \<noteq> 5 | Some _ \<Rightarrow> True | None \<Rightarrow> False)
             (gate ''exp.rounding_mode'' Feat_ExpRounding),
           since_version V13_3 (write_inline_attr_or_default H opn ''rounding_mode'' 5),
           write_operands opn False]"

definition body_mmaf :: "Operation \<Rightarrow> step" where
  "body_mmaf opn =
     acts [write_result_types opn,
           act_if (flag_if_bool_true opn ''fast_acc'' 0 \<noteq> 0) (gate ''mmaf.fast_acc'' Feat_FastAccumulation),
           since_version V13_3 (put_varint (flag_if_bool_true opn ''fast_acc'' 0)),
           write_operands opn False]"

definition body_alloca :: "half_crate \<Rightarrow> Operation \<Rightarrow> step" where
  "body_alloca H opn =
     acts [write_result_types opn,
           put_varint (flag_if_bool_true opn ''global'' 0),
           write_inline_attr H opn ''num_elem'',
           write_inline_attr H opn ''alignment'']"

text \<open>One attribute with a default (\<open>NegI\<close>, \<open>TanH\<close>).\<close>

definition body_default_attr :: "half_crate \<Rightarrow> string \<Rightarrow> u64 \<Rightarrow> Operation \<Rightarrow> step" where
  "body_default_attr H n dflt opn =
     acts [write_result_types opn, write_inline_attr_or_default H opn n dflt, write_operands opn False]"

text \<open>Required inline attributes, in order, between the result types and the operands.\<close>

definition body_attrs :: "half_crate \<Rightarrow> string list \<Rightarrow> Operation \<Rightarrow> step" where
  "body_attrs H ns opn =
     acts [write_result_types opn, for_each (write_inline_attr H opn) ns, write_operands opn False]"

text \<open>Required inline attributes and no operands (\<open>Constant\<close>, \<open>GetGlobal\<close>), or neither.\<close>

definition body_attrs_only :: "half_crate \<Rightarrow> string list \<Rightarrow> Operation \<Rightarrow> step" where
  "body_attrs_only H ns opn = acts [write_result_types opn, for_each (write_inline_attr H opn) ns]"

definition body_results_only :: "Operation \<Rightarrow> step" where
  "body_results_only opn = write_result_types opn"

definition body_assume :: "half_crate \<Rightarrow> Operation \<Rightarrow> step" where
  "body_assume H opn =
     acts [write_result_types opn, write_interface_attr H opn ''predicate'', write_operands opn False]"

definition body_ftoi :: "half_crate \<Rightarrow> Operation \<Rightarrow> step" where
  "body_ftoi H opn =
     (let flags = flag_if_bool_true opn ''saturating'' 0 in
      acts [write_result_types opn,
            act_if (flags \<noteq> 0) (gate ''ftoi.saturating'' Feat_SaturatingFToI),
            since_version V13_4 (put_varint flags),
            write_inline_attr H opn ''signedness'',
            write_inline_attr H opn ''rounding_mode'',
            write_operands opn False])"

text \<open>A result count, then the operands with their count (\<open>JoinTokens\<close>, \<open>Extract\<close>, terminators).\<close>

definition body_variadic :: "Operation \<Rightarrow> step" where
  "body_variadic opn = acts [result_count opn, write_result_types opn, write_operands opn True]"

definition body_shape :: "Operation \<Rightarrow> step" where
  "body_shape opn = acts [result_count opn, write_result_types opn, write_operands opn False]"

definition body_make_tensor_view :: "Operation \<Rightarrow> step" where
  "body_make_tensor_view opn =
     acts [result_count opn, write_result_types opn,
           write_operand_group opn 0 1,
           write_variadic_operand_group opn 1,
           write_variadic_operand_group opn 2]"

text \<open>Arithmetic with \<open>flush_to_zero\<close>, with and without a rounding mode.\<close>

definition body_float_arith :: "half_crate \<Rightarrow> Operation \<Rightarrow> step" where
  "body_float_arith H opn =
     acts [write_result_types opn,
           put_varint (flag_if_present opn ''flush_to_zero'' 0),
           write_inline_attr H opn ''rounding_mode'',
           write_operands opn False]"

definition body_ftz :: "Operation \<Rightarrow> step" where
  "body_ftz opn =
     acts [write_result_types opn,
           put_varint (flag_if_present opn ''flush_to_zero'' 0),
           write_operands opn False]"

definition body_minmax :: "Operation \<Rightarrow> step" where
  "body_minmax opn =
     acts [write_result_types opn,
           put_varint (flag_if_present opn ''propagate_nan'' 0 OR flag_if_present opn ''flush_to_zero'' 1),
           write_operands opn False]"

definition body_global :: "half_crate \<Rightarrow> Operation \<Rightarrow> step" where
  "body_global H opn =
     acts [write_result_types opn,
           act_if (flag_if_bool_true opn ''constant'' 0 \<noteq> 0) (gate ''global.constant'' Feat_GlobalConstant),
           act_if (case find_op_attr opn ''symbol_visibility'' of
                     Some (Attr_Integer v _) \<Rightarrow> v \<noteq> 0 | Some _ \<Rightarrow> True | None \<Rightarrow> False)
             (gate ''global.symbol_visibility'' Feat_GlobalVisibility),
           since_version V13_3 (put_varint (flag_if_bool_true opn ''constant'' 0)),
           write_inline_attr H opn ''sym_name'',
           write_inline_attr H opn ''value'',
           write_inline_attr H opn ''alignment'',
           since_version V13_3 (write_inline_attr_or_default H opn ''symbol_visibility'' 0)]"

definition body_module :: "half_crate \<Rightarrow> (RegionId \<Rightarrow> step) \<Rightarrow> Operation \<Rightarrow> step" where
  "body_module H R opn =
     acts [write_result_types opn,
           act_if (find_op_attr opn ''producer'' \<noteq> None) (gate ''module.producer'' Feat_Producer),
           since_version V13_3 (put_varint (flag_if_present opn ''producer'' 0)),
           write_inline_attr H opn ''sym_name'',
           since_version V13_3
             (act_if (find_op_attr opn ''producer'' \<noteq> None) (write_inline_attr H opn ''producer'')),
           write_regions R opn]"

text \<open>\<open>print_tko\<close>: the format arguments with their count, then the token if there is one.\<close>

definition body_print :: "half_crate \<Rightarrow> Operation \<Rightarrow> step" where
  "body_print H opn s =
     and_then (acts [result_count opn, write_result_types opn] s) (\<lambda>s.
     and_then (print_operand_groups opn (fst s)) (\<lambda>(num_args, has_token).
       acts [put_varint (if has_token then 1 else 0),
             write_inline_attr H opn ''str'',
             put_varint (as_u64 num_args),
             for_each (put_operand opn) (take num_args (operands opn)),
             act_if has_token (\<lambda>s. and_then (index (operands opn) num_args) (\<lambda>v. put_operand opn v s))] s))"

definition body_for :: "(RegionId \<Rightarrow> step) \<Rightarrow> Operation \<Rightarrow> step" where
  "body_for R opn =
     acts [result_count opn, write_result_types opn,
           put_varint (flag_if_present opn ''unsigned_cmp'' 0),
           write_operands opn True,
           write_regions R opn]"

definition body_loop :: "(RegionId \<Rightarrow> step) \<Rightarrow> Operation \<Rightarrow> step" where
  "body_loop R opn =
     acts [result_count opn, write_result_types opn, write_operands opn True, write_regions R opn]"

definition body_if :: "(RegionId \<Rightarrow> step) \<Rightarrow> Operation \<Rightarrow> step" where
  "body_if R opn =
     acts [result_count opn, write_result_types opn, write_operands opn False, write_regions R opn]"

text \<open>\<open>Reduce\<close> and \<open>Scan\<close>, with their attributes in order.\<close>

definition body_reduce :: "half_crate \<Rightarrow> (RegionId \<Rightarrow> step) \<Rightarrow> string list \<Rightarrow> Operation \<Rightarrow> step" where
  "body_reduce H R ns opn =
     acts [result_count opn, write_result_types opn, for_each (write_inline_attr H opn) ns,
           write_operands opn True, write_regions R opn]"

subsection \<open>Memory operations\<close>

text \<open>An operand group that is written when its bit of the flags is set.\<close>

definition flagged_group :: "u64 \<Rightarrow> nat \<Rightarrow> Operation \<Rightarrow> nat \<Rightarrow> step" where
  "flagged_group flags k opn g = act_if (flag_set flags k) (write_operand_group opn g 1)"

definition flagged_attr :: "half_crate \<Rightarrow> u64 \<Rightarrow> nat \<Rightarrow> Operation \<Rightarrow> string \<Rightarrow> step" where
  "flagged_attr H flags k opn n = act_if (flag_set flags k) (write_inline_attr H opn n)"

definition body_atomic_cas :: "half_crate \<Rightarrow> Operation \<Rightarrow> step" where
  "body_atomic_cas H opn =
     (let flags = flag_if_operand_group opn 3 0 OR flag_if_operand_group opn 4 1 in
      acts [write_result_types opn, put_varint flags,
            write_inline_attr H opn ''memory_ordering_semantics'',
            write_inline_attr H opn ''memory_scope'',
            write_operand_group opn 0 1, write_operand_group opn 1 1, write_operand_group opn 2 1,
            flagged_group flags 0 opn 3, flagged_group flags 1 opn 4])"

definition body_atomic_rmw :: "half_crate \<Rightarrow> Operation \<Rightarrow> step" where
  "body_atomic_rmw H opn =
     (let flags = flag_if_operand_group opn 2 0 OR flag_if_operand_group opn 3 1 in
      acts [write_result_types opn, put_varint flags,
            write_inline_attr H opn ''memory_ordering_semantics'',
            write_inline_attr H opn ''memory_scope'',
            write_inline_attr H opn ''mode'',
            write_operand_group opn 0 1, write_operand_group opn 1 1,
            flagged_group flags 0 opn 2, flagged_group flags 1 opn 3])"

definition body_atomic_red_view :: "half_crate \<Rightarrow> Operation \<Rightarrow> step" where
  "body_atomic_red_view H opn =
     (let flags = flag_if_operand_group opn 3 0 in
      acts [result_count opn, write_result_types opn, put_varint flags,
            write_inline_attr H opn ''memory_ordering_semantics'',
            write_inline_attr H opn ''memory_scope'',
            write_inline_attr H opn ''mode'',
            write_operand_group opn 0 1, write_variadic_operand_group opn 1, write_operand_group opn 2 1,
            flagged_group flags 0 opn 3])"

definition body_load_ptr :: "half_crate \<Rightarrow> Operation \<Rightarrow> step" where
  "body_load_ptr H opn =
     (let flags = flag_if_present opn ''memory_scope'' 0
                  OR flag_if_present opn ''optimization_hints'' 1
                  OR flag_if_operand_group opn 1 2
                  OR flag_if_operand_group opn 2 3
                  OR flag_if_operand_group opn 3 4 in
      acts [write_result_types opn, put_varint flags,
            write_inline_attr H opn ''memory_ordering_semantics'',
            flagged_attr H flags 0 opn ''memory_scope'',
            flagged_attr H flags 1 opn ''optimization_hints'',
            write_operand_group opn 0 1,
            flagged_group flags 2 opn 1, flagged_group flags 3 opn 2, flagged_group flags 4 opn 3])"

definition body_load_view :: "half_crate \<Rightarrow> Operation \<Rightarrow> step" where
  "body_load_view H opn =
     (let flags = flag_if_present opn ''memory_scope'' 0
                  OR flag_if_present opn ''optimization_hints'' 1
                  OR flag_if_operand_group opn 2 2 in
      acts [result_count opn, write_result_types opn, put_varint flags,
            write_inline_attr H opn ''memory_ordering_semantics'',
            flagged_attr H flags 0 opn ''memory_scope'',
            flagged_attr H flags 1 opn ''optimization_hints'',
            write_inbounds opn 1,
            write_operand_group opn 0 1, write_variadic_operand_group opn 1,
            flagged_group flags 2 opn 2])"

definition body_store_ptr :: "half_crate \<Rightarrow> Operation \<Rightarrow> step" where
  "body_store_ptr H opn =
     (let flags = flag_if_present opn ''memory_scope'' 0
                  OR flag_if_present opn ''optimization_hints'' 1
                  OR flag_if_operand_group opn 2 2
                  OR flag_if_operand_group opn 3 3 in
      acts [write_result_types opn, put_varint flags,
            write_inline_attr H opn ''memory_ordering_semantics'',
            flagged_attr H flags 0 opn ''memory_scope'',
            flagged_attr H flags 1 opn ''optimization_hints'',
            write_operand_group opn 0 1, write_operand_group opn 1 1,
            flagged_group flags 2 opn 2, flagged_group flags 3 opn 3])"

definition body_store_view :: "half_crate \<Rightarrow> Operation \<Rightarrow> step" where
  "body_store_view H opn =
     (let flags = flag_if_present opn ''memory_scope'' 0
                  OR flag_if_present opn ''optimization_hints'' 1
                  OR flag_if_operand_group opn 3 2 in
      acts [result_count opn, write_result_types opn, put_varint flags,
            write_inline_attr H opn ''memory_ordering_semantics'',
            flagged_attr H flags 0 opn ''memory_scope'',
            flagged_attr H flags 1 opn ''optimization_hints'',
            write_inbounds opn 2,
            write_operand_group opn 0 1, write_operand_group opn 1 1, write_variadic_operand_group opn 2,
            flagged_group flags 2 opn 3])"

definition body_gdc :: "Operation \<Rightarrow> step" where
  "body_gdc opn =
     (if length (operands opn) > 1 then (\<lambda>s. Inl (Err (TooManyTokenOperands (opcode opn))))
      else acts [write_result_types opn,
                 put_varint (if operands opn \<noteq> [] then 1 else 0),
                 write_operands opn False])"

definition body_entry :: "half_crate \<Rightarrow> (RegionId \<Rightarrow> step) \<Rightarrow> Operation \<Rightarrow> step" where
  "body_entry H R opn =
     (let flags = flag_if_present opn ''arg_attrs'' 0
                  OR flag_if_present opn ''res_attrs'' 1
                  OR flag_if_present opn ''optimization_hints'' 2 in
      acts [write_result_types opn, put_varint flags,
            write_inline_attr H opn ''sym_name'',
            write_inline_attr H opn ''function_type'',
            flagged_attr H flags 0 opn ''arg_attrs'',
            flagged_attr H flags 1 opn ''res_attrs'',
            flagged_attr H flags 2 opn ''optimization_hints'',
            write_regions R opn])"

subsection \<open>The dispatch\<close>

primrec op_arm :: "Opcode \<Rightarrow> half_crate \<Rightarrow> (RegionId \<Rightarrow> step) \<Rightarrow> Operation \<Rightarrow> step" where
  "op_arm Op_AbsF = (\<lambda>H R. body_simple)"
| "op_arm Op_AbsI = (\<lambda>H R. body_simple)"
| "op_arm Op_AddF = (\<lambda>H R. body_float_arith H)"
| "op_arm Op_AddI = (\<lambda>H R. body_attrs H [''overflow''])"
| "op_arm Op_AndI = (\<lambda>H R. body_simple)"
| "op_arm Op_Assert = (\<lambda>H R. body_attrs H [''message''])"
| "op_arm Op_Assume = (\<lambda>H R. body_assume H)"
| "op_arm Op_AtomicCAS = (\<lambda>H R. body_atomic_cas H)"
| "op_arm Op_AtomicRMW = (\<lambda>H R. body_atomic_rmw H)"
| "op_arm Op_Bitcast = (\<lambda>H R. body_simple)"
| "op_arm Op_Break = (\<lambda>H R. body_variadic)"
| "op_arm Op_Broadcast = (\<lambda>H R. body_simple)"
| "op_arm Op_Cat = (\<lambda>H R. body_attrs H [''dim''])"
| "op_arm Op_Ceil = (\<lambda>H R. body_simple)"
| "op_arm Op_CmpF = (\<lambda>H R. body_attrs H [''comparison_predicate'', ''comparison_ordering''])"
| "op_arm Op_CmpI = (\<lambda>H R. body_attrs H [''comparison_predicate'', ''signedness''])"
| "op_arm Op_Constant = (\<lambda>H R. body_attrs_only H [''value''])"
| "op_arm Op_Continue = (\<lambda>H R. body_variadic)"
| "op_arm Op_Cos = (\<lambda>H R. body_simple)"
| "op_arm Op_CosH = (\<lambda>H R. body_simple)"
| "op_arm Op_DivF = (\<lambda>H R. body_float_arith H)"
| "op_arm Op_DivI = (\<lambda>H R. body_attrs H [''signedness'', ''rounding''])"
| "op_arm Op_Entry = (\<lambda>H R. body_entry H R)"
| "op_arm Op_Exp = (\<lambda>H R. body_exp H)"
| "op_arm Op_Exp2 = (\<lambda>H R. body_ftz)"
| "op_arm Op_ExtI = (\<lambda>H R. body_attrs H [''signedness''])"
| "op_arm Op_Extract = (\<lambda>H R. body_variadic)"
| "op_arm Op_Floor = (\<lambda>H R. body_simple)"
| "op_arm Op_Fma = (\<lambda>H R. body_float_arith H)"
| "op_arm Op_For = (\<lambda>H R. body_for R)"
| "op_arm Op_FToF = (\<lambda>H R. body_attrs H [''rounding_mode''])"
| "op_arm Op_FToI = (\<lambda>H R. body_ftoi H)"
| "op_arm Op_GetGlobal = (\<lambda>H R. body_attrs_only H [''name''])"
| "op_arm Op_GetIndexSpaceShape = (\<lambda>H R. body_shape)"
| "op_arm Op_GetNumTileBlocks = (\<lambda>H R. body_results_only)"
| "op_arm Op_GetTensorShape = (\<lambda>H R. body_shape)"
| "op_arm Op_GetTileBlockId = (\<lambda>H R. body_results_only)"
| "op_arm Op_Global = (\<lambda>H R. body_global H)"
| "op_arm Op_If = (\<lambda>H R. body_if R)"
| "op_arm Op_IntToPtr = (\<lambda>H R. body_simple)"
| "op_arm Op_Iota = (\<lambda>H R. body_results_only)"
| "op_arm Op_IToF = (\<lambda>H R. body_attrs H [''signedness'', ''rounding_mode''])"
| "op_arm Op_JoinTokens = (\<lambda>H R. body_variadic)"
| "op_arm Op_LoadPtrTko = (\<lambda>H R. body_load_ptr H)"
| "op_arm Op_LoadViewTko = (\<lambda>H R. body_load_view H)"
| "op_arm Op_Log = (\<lambda>H R. body_simple)"
| "op_arm Op_Log2 = (\<lambda>H R. body_simple)"
| "op_arm Op_Loop = (\<lambda>H R. body_loop R)"
| "op_arm Op_MakePartitionView = (\<lambda>H R. body_simple)"
| "op_arm Op_MakeTensorView = (\<lambda>H R. body_make_tensor_view)"
| "op_arm Op_MakeToken = (\<lambda>H R. body_results_only)"
| "op_arm Op_MaxF = (\<lambda>H R. body_minmax)"
| "op_arm Op_MaxI = (\<lambda>H R. body_attrs H [''signedness''])"
| "op_arm Op_MinF = (\<lambda>H R. body_minmax)"
| "op_arm Op_MinI = (\<lambda>H R. body_attrs H [''signedness''])"
| "op_arm Op_MmaF = (\<lambda>H R. body_mmaf)"
| "op_arm Op_MmaI = (\<lambda>H R. body_attrs H [''signedness_lhs'', ''signedness_rhs''])"
| "op_arm Op_Module = (\<lambda>H R. body_module H R)"
| "op_arm Op_MulF = (\<lambda>H R. body_float_arith H)"
| "op_arm Op_MulhiI = (\<lambda>H R. body_simple)"
| "op_arm Op_MulI = (\<lambda>H R. body_attrs H [''overflow''])"
| "op_arm Op_NegF = (\<lambda>H R. body_simple)"
| "op_arm Op_NegI = (\<lambda>H R. body_default_attr H ''overflow'' 0)"
| "op_arm Op_Offset = (\<lambda>H R. body_simple)"
| "op_arm Op_OrI = (\<lambda>H R. body_simple)"
| "op_arm Op_Permute = (\<lambda>H R. body_attrs H [''permutation''])"
| "op_arm Op_Pow = (\<lambda>H R. body_simple)"
| "op_arm Op_Print = (\<lambda>H R. body_print H)"
| "op_arm Op_PtrToInt = (\<lambda>H R. body_simple)"
| "op_arm Op_PtrToPtr = (\<lambda>H R. body_simple)"
| "op_arm Op_Reduce = (\<lambda>H R. body_reduce H R [''dim'', ''identities''])"
| "op_arm Op_RemF = (\<lambda>H R. body_simple)"
| "op_arm Op_RemI = (\<lambda>H R. body_attrs H [''signedness''])"
| "op_arm Op_Reshape = (\<lambda>H R. body_simple)"
| "op_arm Op_Return = (\<lambda>H R. body_variadic)"
| "op_arm Op_Rsqrt = (\<lambda>H R. body_ftz)"
| "op_arm Op_Scan = (\<lambda>H R. body_reduce H R [''dim'', ''reverse'', ''identities''])"
| "op_arm Op_Select = (\<lambda>H R. body_simple)"
| "op_arm Op_ShLI = (\<lambda>H R. body_attrs H [''overflow''])"
| "op_arm Op_ShRI = (\<lambda>H R. body_attrs H [''signedness''])"
| "op_arm Op_Sin = (\<lambda>H R. body_simple)"
| "op_arm Op_SinH = (\<lambda>H R. body_simple)"
| "op_arm Op_Sqrt = (\<lambda>H R. body_float_arith H)"
| "op_arm Op_StorePtrTko = (\<lambda>H R. body_store_ptr H)"
| "op_arm Op_StoreViewTko = (\<lambda>H R. body_store_view H)"
| "op_arm Op_SubF = (\<lambda>H R. body_float_arith H)"
| "op_arm Op_SubI = (\<lambda>H R. body_attrs H [''overflow''])"
| "op_arm Op_Tan = (\<lambda>H R. body_simple)"
| "op_arm Op_TanH = (\<lambda>H R. body_default_attr H ''rounding_mode'' 5)"
| "op_arm Op_TruncI = (\<lambda>H R. body_attrs H [''overflow''])"
| "op_arm Op_XOrI = (\<lambda>H R. body_simple)"
| "op_arm Op_Yield = (\<lambda>H R. body_variadic)"
| "op_arm Op_Atan2 = (\<lambda>H R. body_simple)"
| "op_arm Op_Pack = (\<lambda>H R. body_simple)"
| "op_arm Op_Unpack = (\<lambda>H R. body_simple)"
| "op_arm Op_Alloca = (\<lambda>H R. body_alloca H)"
| "op_arm Op_MmaFScaled = (\<lambda>H R. body_simple)"
| "op_arm Op_MakeGatherScatterView = (\<lambda>H R. body_simple)"
| "op_arm Op_MakeStridedView = (\<lambda>H R. body_simple)"
| "op_arm Op_AtomicRedViewTko = (\<lambda>H R. body_atomic_red_view H)"
| "op_arm Op_Insert = (\<lambda>H R. body_variadic)"
| "op_arm Op_GdcLaunchDependentsTko = (\<lambda>H R. body_gdc)"
| "op_arm Op_GdcWaitTko = (\<lambda>H R. body_gdc)"
| "op_arm Op_FPowI = (\<lambda>H R. body_simple)"
| "op_arm Op_MemoryFenceAliasTko = (\<lambda>H R. body_simple)"

text \<open>
  The body of an operation: the opcode's version, the version of each attribute, then
  the arm. \<open>Opcode::minimum_version\<close> is the opcode requirement's version.
\<close>

definition attribute_gates :: "Operation \<Rightarrow> step" where
  "attribute_gates opn =
     for_each (\<lambda>(n, a). case attribute_feature (opcode opn) n a of
                 Some f \<Rightarrow> gate (feature_name f) f
               | None \<Rightarrow> Inr) (attributes opn)"

definition write_op_body :: "half_crate \<Rightarrow> (RegionId \<Rightarrow> step) \<Rightarrow> Operation \<Rightarrow> step" where
  "write_op_body H R opn =
     acts [gate (opcode_name (opcode opn)) (opcode_feature (opcode opn)),
           attribute_gates opn,
           op_arm (opcode opn) H R opn]"

end
