(* ===== verification/Builder.thy ===== *)
theory Builder
  imports IrModule
begin

text \<open>
  The operation builder of \<open>cutile-ir/src/builder/mod.rs\<close>: it allocates operations and blocks
  in the module's arenas together with one value per result or argument. The lemmas show
  that the arenas stay well formed and that the linear scan for an operation's results finds
  the values the builder returned.
\<close>

section \<open>Builder\<close>

record OpBuilder =
  b_opcode :: Opcode
  b_location :: Location
  b_operands :: "Value list"
  b_result_types :: "Type list"
  b_attributes :: "(string \<times> Attribute) list"
  b_regions :: "RegionId list"

definition builder_new :: "Opcode \<Rightarrow> Location \<Rightarrow> OpBuilder" where
  "builder_new oc loc = \<lparr>b_opcode = oc, b_location = loc, b_operands = [], b_result_types = [],
                          b_attributes = [], b_regions = []\<rparr>"

definition builder_operand :: "Value \<Rightarrow> OpBuilder \<Rightarrow> OpBuilder" where
  "builder_operand v b = b\<lparr>b_operands := b_operands b @ [v]\<rparr>"

definition builder_result :: "Type \<Rightarrow> OpBuilder \<Rightarrow> OpBuilder" where
  "builder_result ty b = b\<lparr>b_result_types := b_result_types b @ [ty]\<rparr>"

definition builder_attr :: "string \<Rightarrow> Attribute \<Rightarrow> OpBuilder \<Rightarrow> OpBuilder" where
  "builder_attr n a b = b\<lparr>b_attributes := b_attributes b @ [(n, a)]\<rparr>"

definition builder_region :: "RegionId \<Rightarrow> OpBuilder \<Rightarrow> OpBuilder" where
  "builder_region r b = b\<lparr>b_regions := b_regions b @ [r]\<rparr>"

text \<open>Allocate one value for each type, numbering the producers from \<open>i\<close>.\<close>

fun alloc_values :: "(u32 \<Rightarrow> ValueProducer) \<Rightarrow> Type list \<Rightarrow> nat \<Rightarrow> Module \<Rightarrow> Value list \<times> Module" where
  "alloc_values mk [] i m = ([], m)"
| "alloc_values mk (ty # tys) i m =
     (let (v, m) = alloc_value ty (mk (as_u32 i)) m; (vs, m) = alloc_values mk tys (Suc i) m
      in (v # vs, m))"

definition build :: "OpBuilder \<Rightarrow> Module \<Rightarrow> (OpId \<times> Value list) \<times> Module" where
  "build b m =
     (let opn = \<lparr>opcode = b_opcode b, operands = b_operands b, result_types = b_result_types b,
                 attributes = b_attributes b, op_regions = b_regions b, location = b_location b\<rparr>;
          (op_id, m) = alloc_op opn m;
          (results, m) = alloc_values (OpResult op_id) (b_result_types b) 0 m
      in ((op_id, results), m))"

definition build_block :: "Type list \<Rightarrow> Module \<Rightarrow> (BlockId \<times> Value list) \<times> Module" where
  "build_block arg_types m =
     (let block_id = BlockId (as_u32 (length (blocks m)));
          (vs, m) = alloc_values (BlockArg block_id) arg_types 0 m;
          (id, m) = alloc_block \<lparr>args = zip vs arg_types, ops = []\<rparr> m
      in ((id, vs), m))"

definition build_single_block_region ::
  "Type list \<Rightarrow> Module \<Rightarrow> (RegionId \<times> BlockId \<times> Value list) \<times> Module" where
  "build_single_block_region arg_types m =
     (let ((block_id, vs), m) = build_block arg_types m;
          (region_id, m) = alloc_region \<lparr>rg_blocks = [block_id]\<rparr> m
      in ((region_id, block_id, vs), m))"

fun append_op :: "BlockId \<Rightarrow> OpId \<Rightarrow> Module \<Rightarrow> 'e fault + Module" where
  "append_op (BlockId i) opid m =
     and_then (index (blocks m) (as_usize i)) (\<lambda>b.
       Inr (m\<lparr>blocks := (blocks m)[as_usize i := b\<lparr>ops := ops b @ [opid]\<rparr>]\<rparr>))"

section \<open>What the builder guarantees\<close>

lemma find_from_append:
  "find_from p (xs @ ys) i =
     (case find_from p xs i of None \<Rightarrow> find_from p ys (i + length xs) | Some v \<Rightarrow> Some v)"
  by (induction xs arbitrary: i) (simp_all split: option.splits)

lemma find_from_None: "find_from p ds i = None \<longleftrightarrow> (\<forall>d \<in> set ds. vd_producer d \<noteq> p)"
  by (induction ds arbitrary: i) auto

lemma find_from_Some:
  "find_from p ds i = Some v \<Longrightarrow> \<exists>k < length ds. v = Value (as_u32 (i + k)) \<and> vd_producer (ds ! k) = p"
proof (induction ds arbitrary: i)
  case (Cons d ds)
  show ?case
  proof (cases "vd_producer d = p")
    case True
    then show ?thesis using Cons.prems by (intro exI [of _ 0]) simp
  next
    case False
    then obtain k where "k < length ds" "v = Value (as_u32 (Suc i + k))" "vd_producer (ds ! k) = p"
      using Cons.IH [of "Suc i"] Cons.prems by auto
    then show ?thesis by (intro exI [of _ "Suc k"]) simp
  qed
qed simp

text \<open>The entries a run of allocations appends to the value arena.\<close>

definition fresh_values :: "(u32 \<Rightarrow> ValueProducer) \<Rightarrow> Type list \<Rightarrow> nat \<Rightarrow> ValueData list" where
  "fresh_values mk tys i =
     map (\<lambda>(ty, j). \<lparr>vd_ty = ty, vd_producer = mk (as_u32 j)\<rparr>) (zip tys [i..<i + length tys])"

lemma fresh_values_Cons:
  "fresh_values mk (ty # tys) i = \<lparr>vd_ty = ty, vd_producer = mk (as_u32 i)\<rparr> # fresh_values mk tys (Suc i)"
  by (simp add: fresh_values_def upt_conv_Cons del: upt_Suc)

lemma alloc_values_eq:
  "alloc_values mk tys i m =
     (map (\<lambda>k. Value (as_u32 k)) [length (mod_values m)..<length (mod_values m) + length tys],
      m\<lparr>mod_values := mod_values m @ fresh_values mk tys i\<rparr>)"
proof (induction tys arbitrary: i m)
  case Nil
  then show ?case by (simp add: fresh_values_def)
next
  case (Cons ty tys)
  then show ?case
    by (simp add: alloc_value_def fresh_values_Cons upt_conv_Cons del: upt_Suc)
qed

lemma find_from_fresh:
  assumes "inj mk" and "j < length tys" and "i + length tys \<le> 2 ^ 32"
  shows "find_from (mk (as_u32 (i + j))) (fresh_values mk tys i) n = Some (Value (as_u32 (n + j)))"
  using assms(2,3)
proof (induction tys arbitrary: i j n)
  case (Cons ty tys)
  show ?case
  proof (cases j)
    case 0
    then show ?thesis by (simp add: fresh_values_Cons)
  next
    case (Suc j')
    have "as_u32 i \<noteq> as_u32 (i + j)"
    proof
      assume "as_u32 i = as_u32 (i + j)"
      moreover have "i + j < 2 ^ 32" "i < 2 ^ 32" using Cons.prems Suc by auto
      ultimately show False using Suc by (metis unat_as_u32 add_cancel_left_right nat.distinct(1))
    qed
    then have "mk (as_u32 i) \<noteq> mk (as_u32 (i + j))" using assms(1) by (auto dest: injD)
    then show ?thesis
      using Cons.IH [of j' "Suc i" "Suc n"] Cons.prems Suc by (simp add: fresh_values_Cons)
  qed
qed simp

text \<open>
  Well-formed value arena: every value names an operation or block that exists, and
  the arenas stay in the range of the 32-bit handles.
\<close>

fun producer_ok :: "Module \<Rightarrow> ValueProducer \<Rightarrow> bool" where
  "producer_ok m (OpResult (OpId i) _) = (unat i < length (operations m))"
| "producer_ok m (BlockArg (BlockId i) _) = (unat i < length (blocks m))"

definition wf_values :: "Module \<Rightarrow> bool" where
  "wf_values m \<longleftrightarrow> (\<forall>d \<in> set (mod_values m). producer_ok m (vd_producer d))"

lemma wf_values_new: "wf_values (module_new n)"
  by (simp add: wf_values_def module_new_def)

lemma producer_ok_mono:
  assumes "producer_ok m p" and "length (operations m) \<le> length (operations m')"
    and "length (blocks m) \<le> length (blocks m')"
  shows "producer_ok m' p"
proof (cases p)
  case (OpResult oid k)
  then show ?thesis using assms(1,2) by (cases oid) simp
next
  case (BlockArg bid k)
  then show ?thesis using assms(1,3) by (cases bid) simp
qed

lemma build_wf_values:
  assumes "wf_values m" and "length (operations m) < 2 ^ 32"
  shows "wf_values (snd (build b m))"
proof -
  have "producer_ok (snd (build b m)) (OpResult (OpId (as_u32 (length (operations m)))) k)" for k
    using assms(2) by (simp add: build_def alloc_op_def alloc_values_eq)
  moreover have "producer_ok (snd (build b m)) (vd_producer d)" if "d \<in> set (mod_values m)" for d
    using assms(1) that
    by - (rule producer_ok_mono [of m], auto simp: wf_values_def build_def alloc_op_def alloc_values_eq)
  ultimately show ?thesis
    by (auto simp: wf_values_def build_def alloc_op_def alloc_values_eq fresh_values_def)
qed

lemma build_block_wf_values:
  assumes "wf_values m" and "length (blocks m) < 2 ^ 32"
  shows "wf_values (snd (build_block tys m))"
proof -
  let ?m = "snd (build_block tys m)"
  have "producer_ok ?m (BlockArg (BlockId (as_u32 (length (blocks m)))) k)" for k
    using assms(2) by (simp add: build_block_def alloc_block_def alloc_values_eq Let_def)
  moreover have "producer_ok ?m (vd_producer d)" if "d \<in> set (mod_values m)" for d
    using assms(1) that
    by - (rule producer_ok_mono [of m],
      auto simp: wf_values_def build_block_def alloc_block_def alloc_values_eq Let_def)
  ultimately show ?thesis
    by (auto simp: wf_values_def build_block_def alloc_block_def alloc_values_eq fresh_values_def Let_def)
qed

text \<open>
  The scan the verifier and the writer use finds, for each result of a built operation,
  exactly the value the builder returned for it.
\<close>

lemma build_results_found:
  assumes "wf_values m" and "length (operations m) < 2 ^ 32" and "length (b_result_types b) \<le> 2 ^ 32"
    and "build b m = ((opid, results), m')" and "j < length (b_result_types b)"
  shows "find_op_result m' opid (as_u32 j) = Some (results ! j)"
proof -
  let ?id = "OpId (as_u32 (length (operations m)))"
  let ?tys = "b_result_types b"
  have eqs: "opid = ?id"
    "results = map (\<lambda>k. Value (as_u32 k)) [length (mod_values m)..<length (mod_values m) + length ?tys]"
    "mod_values m' = mod_values m @ fresh_values (OpResult ?id) ?tys 0"
    using assms(4) by (auto simp: build_def alloc_op_def alloc_values_eq)
  have "vd_producer d \<noteq> OpResult ?id (as_u32 j)" if "d \<in> set (mod_values m)" for d
    using assms(1,2) that by (force simp: wf_values_def)
  then have "find_from (OpResult ?id (as_u32 j)) (mod_values m) 0 = None"
    by (simp add: find_from_None)
  moreover have "find_from (OpResult ?id (as_u32 (0 + j))) (fresh_values (OpResult ?id) ?tys 0) (length (mod_values m))
      = Some (Value (as_u32 (length (mod_values m) + j)))"
    using assms(3,5) by (intro find_from_fresh) (auto simp: inj_def)
  ultimately show ?thesis
    using assms(5) by (simp add: find_op_result_def eqs find_from_append)
qed

end
