(* ===== verification/Writer.thy ===== *)
theory Writer
  imports OpWriter Builder
begin

text \<open>
  The module writer (\<open>cutile-ir/src/bytecode/writer.rs\<close>): version checks, the pre-scan,
  operations with their nested regions and blocks, the global and function sections, and
  the whole file.

  Operations, regions and blocks refer to each other by handles, so the Rust functions
  recurse without a structural bound; here the recursion carries fuel and \<open>NoFuel\<close> stands
  for the run that does not return. The functions below are started with one unit more
  than the module has operations, which \<open>WriterFuel\<close> shows to be enough whenever the
  nesting is acyclic.
\<close>

section \<open>Version checks of regions\<close>

definition digit :: "char \<Rightarrow> nat option" where
  "digit c = (let n = of_char c :: nat in if 48 \<le> n \<and> n \<le> 57 then Some (n - 48) else None)"

fun digits_value :: "string \<Rightarrow> nat \<Rightarrow> nat option" where
  "digits_value [] acc = Some acc"
| "digits_value (c # cs) acc =
     (case digit c of Some d \<Rightarrow> digits_value cs (10 * acc + d) | None \<Rightarrow> None)"

text \<open>\<open>str::parse::<u32>()\<close>: an optional plus sign and digits, within the range.\<close>

definition parse_u32 :: "string \<Rightarrow> u32 option" where
  "parse_u32 s =
     (let ds = (case s of c # cs \<Rightarrow> if c = CHR ''+'' then cs else s | [] \<Rightarrow> [])
      in if ds = [] then None
         else case digits_value ds 0 of
                Some n \<Rightarrow> if n < 2 ^ 32 then Some (as_u32 n) else None
              | None \<Rightarrow> None)"

definition strip_prefix :: "string \<Rightarrow> string \<Rightarrow> string option" where
  "strip_prefix p s = (if take (length p) s = p then Some (drop (length p) s) else None)"

definition hint_target :: "string \<Rightarrow> Requirement option" where
  "hint_target arch =
     Option.bind (strip_prefix ''sm_'' arch) (\<lambda>sm. Option.bind (parse_u32 sm) target_requirement)"

definition worker_warps_hint :: string where
  "worker_warps_hint =
     ''optimization hint '' @ [CHR 0x27] @ ''num_worker_warps_per_cta'' @ [CHR 0x27]"

text \<open>The checks of the hints attached to one operation.\<close>

definition check_hints :: "BytecodeVersion \<Rightarrow> string \<times> (string \<times> Attribute) list \<Rightarrow> (write_error, unit) res" where
  "check_hints version = (\<lambda>(arch, values).
     and_then (case hint_target arch of
                 Some req \<Rightarrow> require_version (''optimization hint target '' @ arch) (since req) version
               | None \<Rightarrow> Inr ()) (\<lambda>_.
     if (\<exists>(key, _) \<in> set values. key = ''num_worker_warps_per_cta'')
     then require_version worker_warps_hint
            (feature_since Feat_WorkerWarps) version
     else Inr ()))"

definition check_op_hints :: "BytecodeVersion \<Rightarrow> Operation \<Rightarrow> (write_error, unit) res" where
  "check_op_hints version opn =
     for_each (\<lambda>(_, attr) _.
       case attr of
         Attr_OptimizationHints entries \<Rightarrow> for_each (\<lambda>e _. check_hints version e) entries ()
       | _ \<Rightarrow> Inr ()) (attributes opn) ()"

fun check_region_versions ::
  "nat \<Rightarrow> Module \<Rightarrow> OpId \<Rightarrow> BytecodeVersion \<Rightarrow> bool \<Rightarrow> bool \<Rightarrow> (write_error, unit) res" where
  "check_region_versions 0 m i version in_loop in_for = Inl NoFuel"
| "check_region_versions (Suc n) m i version in_loop in_for =
     and_then (op m i) (\<lambda>opn.
     and_then (if opcode opn = Op_Return
               then if in_for then Inl (Err (BytecodeWrite ''return is not allowed inside for''))
                    else if in_loop
                         then require_version ''return inside loop'' (feature_since Feat_LoopReturn) version
                         else Inr ()
               else Inr ()) (\<lambda>_.
     and_then (check_op_hints version opn) (\<lambda>_.
       for_each (\<lambda>r _.
         and_then (region m r) (\<lambda>rg.
         for_each (\<lambda>b _.
           and_then (block m b) (\<lambda>bl.
           for_each (\<lambda>child _.
             check_region_versions n m child version
               (in_loop \<or> opcode opn = Op_Loop) (in_for \<or> opcode opn = Op_For)) (ops bl) ()))
           (rg_blocks rg) ()))
         (op_regions opn) ())))"

section \<open>Pre-scan\<close>

type_synonym tables = "StringManager \<times> TypeManager"

definition scan_string :: "string \<Rightarrow> tables \<Rightarrow> tables" where
  "scan_string str t = (snd (string_get_or_insert str (fst t)), snd t)"

definition scan_type :: "Type \<Rightarrow> tables \<Rightarrow> tables" where
  "scan_type ty t = (fst t, snd (type_get_or_insert ty (snd t)))"

fun prescan_attribute :: "string \<Rightarrow> Attribute \<Rightarrow> tables \<Rightarrow> tables" where
  "prescan_attribute n (Attr_String str) t = scan_string str (scan_string n t)"
| "prescan_attribute n (Attr_Type ty) t = scan_type ty (scan_string n t)"
| "prescan_attribute n (Attr_DenseElements de) t = scan_type (de_element_type de) (scan_string n t)"
| "prescan_attribute n (Attr_Dictionary entries) t =
     fold (\<lambda>(k, v) t. prescan_attribute k v t) entries (scan_string n t)"
| "prescan_attribute n (Attr_OptimizationHints entries) t =
     fold (\<lambda>(arch, hints) t. fold (\<lambda>(k, v) t. prescan_attribute k v t) hints (scan_string arch t))
       entries (scan_string n t)"
| "prescan_attribute n (Attr_Array elems) t =
     fold (\<lambda>e t. prescan_attribute '''' e t) elems (scan_string n t)"
| "prescan_attribute n _ t = scan_string n t"

definition prescan_attributes :: "(string \<times> Attribute) list \<Rightarrow> tables \<Rightarrow> tables" where
  "prescan_attributes as t = fold (\<lambda>(n, a). prescan_attribute n a) as t"

fun prescan_region :: "nat \<Rightarrow> Module \<Rightarrow> RegionId \<Rightarrow> tables \<Rightarrow> (write_error, tables) res" where
  "prescan_region 0 m r t = Inl NoFuel"
| "prescan_region (Suc n) m r t =
     and_then (region m r) (\<lambda>rg.
     for_each (\<lambda>b t.
       and_then (block m b) (\<lambda>bl.
       for_each (\<lambda>i t.
         and_then (op m i) (\<lambda>opn.
         for_each (\<lambda>r t. prescan_region n m r t) (op_regions opn)
           (prescan_attributes (attributes opn) (fold scan_type (result_types opn) t))))
         (ops bl) (fold (\<lambda>(_, ty). scan_type ty) (args bl) t)))
       (rg_blocks rg) t)"

definition prescan_function :: "nat \<Rightarrow> Module \<Rightarrow> OpId \<Rightarrow> tables \<Rightarrow> (write_error, tables) res" where
  "prescan_function n m i t =
     and_then (op m i) (\<lambda>opn.
       for_each (prescan_region n m) (op_regions opn) (prescan_attributes (attributes opn) t))"

section \<open>Operations, regions, blocks\<close>

definition register_value :: "Value \<Rightarrow> WriterCtx \<Rightarrow> WriterCtx" where
  "register_value v ctx = ctx\<lparr>value_map := (value_map ctx)(v \<mapsto> next_idx ctx), next_idx := next_idx ctx + 1\<rparr>"

definition register_results :: "OpId \<Rightarrow> Operation \<Rightarrow> WriterCtx \<Rightarrow> WriterCtx" where
  "register_results i opn ctx =
     fold (\<lambda>k ctx. case find_op_result (ctx_module ctx) i (as_u32 k) of
                     Some v \<Rightarrow> register_value v ctx
                   | None \<Rightarrow> ctx) [0..<length (result_types opn)] ctx"

definition record_location :: "Location \<Rightarrow> WriterCtx \<Rightarrow> WriterCtx" where
  "record_location loc ctx =
     (let (ss, d) = record_op loc (strings ctx) (debug ctx) in ctx\<lparr>strings := ss, debug := d\<rparr>)"

definition write_operation_with :: "half_crate \<Rightarrow> (RegionId \<Rightarrow> step) \<Rightarrow> OpId \<Rightarrow> step" where
  "write_operation_with H R i s =
     and_then (op (ctx_module (fst s)) i) (\<lambda>opn.
     and_then (put_varint (ucast (as_u16 (opcode opn))) (record_location (location opn) (fst s), snd s)) (\<lambda>s.
     and_then (write_op_body H R opn s) (\<lambda>s.
       Inr (register_results i opn (fst s), snd s))))"

definition write_block_with :: "(OpId \<Rightarrow> step) \<Rightarrow> BlockId \<Rightarrow> step" where
  "write_block_with W b s =
     (let saved_next_idx = next_idx (fst s) in
      and_then (block (ctx_module (fst s)) b) (\<lambda>bl.
      and_then (put_varint (as_u64 (length (args bl))) s) (\<lambda>s.
      and_then (for_each (\<lambda>(v, ty) s. and_then (put_type ty s) (\<lambda>s. Inr (register_value v (fst s), snd s)))
                  (args bl) s) (\<lambda>s.
      and_then (put_varint (as_u64 (length (ops bl))) s) (\<lambda>s.
      and_then (for_each W (ops bl) s) (\<lambda>s.
        Inr ((fst s)\<lparr>value_map := (\<lambda>v. case value_map (fst s) v of
                                        Some k \<Rightarrow> if k < saved_next_idx then Some k else None
                                      | None \<Rightarrow> None),
                     next_idx := saved_next_idx\<rparr>, snd s)))))))"

definition write_region_with :: "(BlockId \<Rightarrow> step) \<Rightarrow> RegionId \<Rightarrow> step" where
  "write_region_with B r s =
     and_then (region (ctx_module (fst s)) r) (\<lambda>rg.
       acts [put_varint (as_u64 (length (rg_blocks rg))), for_each B (rg_blocks rg)] s)"

fun write_operation :: "half_crate \<Rightarrow> nat \<Rightarrow> OpId \<Rightarrow> step" where
  "write_operation H 0 i s = Inl NoFuel"
| "write_operation H (Suc n) i s =
     write_operation_with H (write_region_with (write_block_with (write_operation H n))) i s"

definition write_block :: "half_crate \<Rightarrow> nat \<Rightarrow> BlockId \<Rightarrow> step" where
  "write_block H n = write_block_with (write_operation H n)"

definition write_region :: "half_crate \<Rightarrow> nat \<Rightarrow> RegionId \<Rightarrow> step" where
  "write_region H n = write_region_with (write_block H n)"

section \<open>Functions and globals\<close>

text \<open>The arguments of the entry block, then its operations; other blocks are not written.\<close>

definition write_function_body :: "half_crate \<Rightarrow> nat \<Rightarrow> OpId \<Rightarrow> WriterCtx \<Rightarrow> (write_error, WriterCtx \<times> bytes) res" where
  "write_function_body H n i ctx =
     and_then (op (ctx_module ctx) i) (\<lambda>opn.
       case op_regions opn of
         [] \<Rightarrow> Inr (ctx, [])
       | r # _ \<Rightarrow>
           and_then (region (ctx_module ctx) r) (\<lambda>rg.
             case rg_blocks rg of
               [] \<Rightarrow> Inr (ctx, [])
             | b # _ \<Rightarrow>
                 and_then (block (ctx_module ctx) b) (\<lambda>bl.
                 and_then (for_each (write_operation H n) (ops bl)
                             (fold (\<lambda>(v, _). register_value v) (args bl) ctx, writer_new)) (\<lambda>s.
                   Inr (fst s, buf (snd s))))))"

text \<open>The hints check of the function header, which repeats that of the pre-scan.\<close>

definition header_hints_ok :: "BytecodeVersion \<Rightarrow> Attribute option \<Rightarrow> (write_error, unit) res" where
  "header_hints_ok version hints =
     (case hints of
        Some (Attr_OptimizationHints entries) \<Rightarrow>
          if version < V13_3 \<and>
             (\<exists>(_, hs) \<in> set entries. \<exists>(n, _) \<in> set hs. n = ''num_worker_warps_per_cta'')
          then Inl (Err (RequiresVersion worker_warps_hint V13_3 version))
          else Inr ()
      | _ \<Rightarrow> Inr ())"

definition write_function :: "half_crate \<Rightarrow> nat \<Rightarrow> OpId \<Rightarrow> step" where
  "write_function H n i s =
     and_then (op (ctx_module (fst s)) i) (\<lambda>opn.
     and_then (ok_or (BytecodeWrite ''function missing sym_name attribute'')
                 (find_string_attr (attributes opn) ''sym_name'')) (\<lambda>name.
     and_then (ok_or (BytecodeWrite ''function missing function_type attribute'')
                 (find_type_attr (attributes opn) ''function_type'')) (\<lambda>func_type.
     let (name_idx, ss) = string_get_or_insert name (strings (fst s));
         (sig_idx, tys) = type_get_or_insert func_type (types (fst s));
         ctx = (fst s)\<lparr>strings := ss, types := tys\<rparr>;
         w = write_varint sig_idx (write_varint name_idx (snd s));
         is_entry = (opcode opn = Op_Entry);
         hints_attr = (if is_entry then find_attr (attributes opn) ''optimization_hints'' else None)
     in and_then (header_hints_ok (ctx_version ctx) hints_attr) (\<lambda>_.
        let flags = (if is_entry then function_flag_u8 FunctionFlag_KindKernel else 0)
                    OR (if is_entry \<and> hints_attr \<noteq> None
                        then function_flag_u8 FunctionFlag_HasOptimizationHints else 0);
            w = write_byte flags w;
            (di_idx, ss, d) = begin_function name (find_string_attr (attributes opn) ''di_name'')
                                (location opn) (strings ctx) (debug ctx);
            ctx = ctx\<lparr>strings := ss, debug := d\<rparr>;
            w = write_varint di_idx w
        in and_then (case hints_attr of
                       Some a \<Rightarrow> write_self_contained_attribute H a (ctx, w)
                     | None \<Rightarrow> Inr (ctx, w)) (\<lambda>(ctx, w).
           and_then (write_function_body H n i (ctx\<lparr>value_map := (\<lambda>_. None), next_idx := 0\<rparr>)) (\<lambda>(ctx, body).
             Inr (ctx, write_bytes body (write_varint (as_u64 (length body)) w))))))))"

definition write_function_section :: "half_crate \<Rightarrow> nat \<Rightarrow> bytes \<Rightarrow> WriterCtx \<Rightarrow> (write_error, bytes \<times> WriterCtx) res" where
  "write_function_section H n out ctx =
     (let func_ids = mod_functions (ctx_module ctx) in
      if func_ids = [] then Inr (out, ctx)
      else and_then (for_each (write_function H n) func_ids
                       (ctx, write_varint (as_u64 (length func_ids)) writer_new)) (\<lambda>(ctx, w).
           let buf = buf (align_to 8 w)
           in Inr (write_section_header out Section_Func (length buf) 8 @ buf, ctx)))"

definition write_global :: "Global \<Rightarrow> step" where
  "write_global g =
     acts [act_if (g_constant g) (gate ''global.constant'' Feat_GlobalConstant),
           act_if (symbol_visibility g \<noteq> Vis_Public) (gate ''global.symbol_visibility'' Feat_GlobalVisibility),
           put_string (sym_name g),
           put_type (de_element_type (g_value g)),
           put_constant (de_data (g_value g)),
           put_varint (alignment g),
           since_version V13_3
             (acts [put (write_byte (symbol_visibility_u8 (symbol_visibility g))),
                    put_varint (if g_constant g then 1 else 0)])]"

definition write_global_section :: "bytes \<Rightarrow> WriterCtx \<Rightarrow> (write_error, bytes \<times> WriterCtx) res" where
  "write_global_section out ctx =
     (let gs = globals (ctx_module ctx) in
      if gs = [] then Inr (out, ctx)
      else and_then (for_each write_global gs (ctx, write_varint (as_u64 (length gs)) writer_new)) (\<lambda>(ctx, w).
           Inr (write_section_header out Section_Global (length (buf w)) 1 @ buf w, ctx)))"

section \<open>The file\<close>

definition module_fuel :: "Module \<Rightarrow> nat" where
  "module_fuel m = Suc (length (operations m))"

definition writer_ctx_new :: "Module \<Rightarrow> BytecodeVersion \<Rightarrow> WriterCtx" where
  "writer_ctx_new m version =
     \<lparr>ctx_module = m, ctx_version = version, value_map = (\<lambda>_. None), next_idx = 0,
      strings = strings_new, types = types_new, constants = constants_new, debug = debug_new\<rparr>"

text \<open>The pre-scan of the whole module: producer, globals, functions.\<close>

definition prescan_module :: "Module \<Rightarrow> BytecodeVersion \<Rightarrow> (write_error, tables) res" where
  "prescan_module m version =
     and_then (case producer m of
                 Some p \<Rightarrow>
                   and_then (require_version ''module.producer'' (feature_since Feat_Producer) version)
                     (\<lambda>_. Inr (scan_string p (strings_new, types_new)))
               | None \<Rightarrow> Inr (strings_new, types_new)) (\<lambda>t.
     for_each (\<lambda>i t.
       and_then (check_region_versions (module_fuel m) m i version False False) (\<lambda>_.
         prescan_function (module_fuel m) m i t))
       (mod_functions m)
       (fold (\<lambda>g t. scan_type (de_element_type (g_value g)) (scan_string (sym_name g) t)) (globals m) t))"

definition write_producer :: "bytes \<Rightarrow> string option \<Rightarrow> StringManager \<Rightarrow> bytes" where
  "write_producer out p ss =
     (case p of
        Some str \<Rightarrow>
          let b = buf (write_varint (fst (string_get_or_insert str ss)) writer_new)
          in write_section_header out Section_Producer (length b) 1 @ b
      | None \<Rightarrow> out)"

definition write_bytecode_version :: "half_crate \<Rightarrow> Module \<Rightarrow> BytecodeVersion \<Rightarrow> (write_error, bytes) res" where
  "write_bytecode_version H m version =
     (if version < MIN_SUPPORTED then Inl (Err (BelowMinimumVersion version))
      else if version \<notin> set SUPPORTED then Inl (Err (UnsupportedVersion version))
      else
        and_then (prescan_module m version) (\<lambda>(ss, tys).
        let ctx = (writer_ctx_new m version)\<lparr>strings := ss, types := tys\<rparr>;
            out = write_header [] version
        in and_then (write_global_section out ctx) (\<lambda>(out, ctx).
           and_then (write_function_section H (module_fuel m) out ctx) (\<lambda>(out, ctx).
           and_then (write_constant_section out (constants ctx)) (\<lambda>out.
           let (out, d) = write_debug_section out (debug ctx);
               ctx = ctx\<lparr>debug := d\<rparr>
           in and_then (write_type_section out (types ctx) version) (\<lambda>out.
              and_then (write_string_section out (strings ctx)) (\<lambda>out.
                Inr (write_producer out (producer m) (strings ctx)
                     @ [section_id Section_EndOfBytecode]))))))))"

definition write_bytecode :: "half_crate \<Rightarrow> Module \<Rightarrow> (write_error, bytes) res" where
  "write_bytecode H m = write_bytecode_version H m CURRENT"

end
