(* ===== verification/StepLogic.thy ===== *)
theory StepLogic
  imports OpWriter
begin

text \<open>
  Properties of writer steps, proved once for all operations. A property of steps that the
  primitive writes have and that sequencing, loops and version guards keep holds of the
  body of every operation, whatever its opcode. The locale \<open>step_closed\<close> states what is
  needed; its lemmas walk through the attribute writers and the arms of
  \<open>write_op_body\<close>. The interpretations, on frame conditions, on fuel and on success at a
  newer version, are in the theories that use them.
\<close>

section \<open>The arms as sequences\<close>

lemma and_then_Inr_right [simp]: "and_then m Inr = m"
  by (cases m) simp_all

lemma acts_funs: "acts [] = Inr" "acts (a # as) = (\<lambda>s. and_then (a s) (acts as))"
  by (rule ext, simp)+

declare acts.simps [simp del]

lemma for_each_fun: "for_each f xs = acts (map f xs)"
  by (rule for_each_acts)

lemma self_contained_seq:
  "write_self_contained_attribute H (Attr_Array elems) =
     acts [put_varint (attribute_tag_u64 AttributeTag_Array), put_varint (as_u64 (length elems)),
           for_each (write_self_contained_attribute H) elems]"
  "write_self_contained_attribute H (Attr_Dictionary entries) =
     acts [put_varint (attribute_tag_u64 AttributeTag_Dictionary), put_varint (as_u64 (length entries)),
           for_each (\<lambda>(key, val). acts [put_string key, write_self_contained_attribute H val]) entries]"
  "write_self_contained_attribute H (Attr_OptimizationHints hentries) =
     acts [put_varint (attribute_tag_u64 AttributeTag_OptimizationHints),
           put_varint (as_u64 (length hentries)),
           for_each (\<lambda>(arch, hints). acts [put_string arch,
             put_varint (attribute_tag_u64 AttributeTag_Dictionary), put_varint (as_u64 (length hints)),
             for_each (\<lambda>(k, v). acts [put_string k, write_self_contained_attribute H v]) hints]) hentries]"
  by (simp_all add: fun_eq_iff acts_funs and_then_assoc case_prod_unfold)

lemma self_contained_simple:
  "write_self_contained_attribute H (Attr_Integer v ty) =
     acts [put_varint (attribute_tag_u64 AttributeTag_Integer), put_type ty, put_varint v]"
  "write_self_contained_attribute H (Attr_Float f ty) =
     acts [put_varint (attribute_tag_u64 AttributeTag_Float), put_type ty, put (write_ap_float H f ty)]"
  "write_self_contained_attribute H (Attr_Bool b) =
     acts [put_varint (attribute_tag_u64 AttributeTag_Bool), put (write_byte (if b then 0x01 else 0x00))]"
  "write_self_contained_attribute H (Attr_Type ty) =
     acts [put_varint (attribute_tag_u64 AttributeTag_Type), put_type ty]"
  "write_self_contained_attribute H (Attr_String str) =
     acts [put_varint (attribute_tag_u64 AttributeTag_String), put_string str]"
  "write_self_contained_attribute H (Attr_DenseElements de) =
     acts [put_varint (attribute_tag_u64 AttributeTag_DenseElements), put_type (de_element_type de),
           put_constant (de_data de)]"
  "write_self_contained_attribute H (Attr_DenseI32Array arr) = put (write_le_var_size_i32 arr)"
  "write_self_contained_attribute H (Attr_DivBy db) =
     acts [put_varint (attribute_tag_u64 AttributeTag_DivBy), put_varint (divisor db),
           put (optional_pair (every db) (along db))]"
  "write_self_contained_attribute H (Attr_SameElements se) =
     acts [put_varint (attribute_tag_u64 AttributeTag_SameElements),
           put (write_le_var_size_i64 (se_values se))]"
  "write_self_contained_attribute H (Attr_Bounded bd) =
     acts [put_varint (attribute_tag_u64 AttributeTag_Bounded), put (optional_pair (lb bd) (ub bd))]"
  by (simp_all add: fun_eq_iff)

lemma write_inline_attr_cases:
  "write_inline_attr H opn n =
     (case find_op_attr opn n of Some a \<Rightarrow> write_attr_value_inline H a
      | None \<Rightarrow> (\<lambda>s. Inl (Err (MissingAttribute n (opcode opn)))))"
  by (simp add: write_inline_attr_def fun_eq_iff split: option.splits)

lemma write_interface_attr_cases:
  "write_interface_attr H opn n =
     (case find_op_attr opn n of Some a \<Rightarrow> write_self_contained_attribute H a
      | None \<Rightarrow> (\<lambda>s. Inl (Err (MissingInterfaceAttribute n (opcode opn)))))"
  by (simp add: write_interface_attr_def fun_eq_iff split: option.splits)

text \<open>The errors that report an operand without a number.\<close>

fun operand_error :: "write_error \<Rightarrow> bool" where
  "operand_error (OperandNotFound v oc) = True"
| "operand_error (GroupOperandNotFound g i) = True"
| "operand_error (VariadicOperandNotFound g i) = True"
| "operand_error _ = False"

lemma collect_bools_error: "collect_bools as = Inl e \<Longrightarrow> \<exists>x. e = Err x \<and> \<not> operand_error x"
  by (induction as) (auto simp: and_then_eq_Inl split: Attribute.splits)

lemma inbounds_values_error: "inbounds_values opn n = Inl e \<Longrightarrow> \<exists>x. e = Err x \<and> \<not> operand_error x"
  by (auto simp: inbounds_values_def dest: collect_bools_error split: option.splits Attribute.splits if_splits)

lemma write_inbounds_seq:
  "write_inbounds opn g =
     (if sint (segment_size opn g) < 0
      then (\<lambda>s. Inl (Err (BytecodeWrite ''negative view index operand count'')))
      else case inbounds_values opn (nat (sint (segment_size opn g))) of
             Inl e \<Rightarrow> (\<lambda>s. Inl e)
           | Inr values \<Rightarrow>
               acts [act_if (True \<in> set values) (gate ''inbounds=true'' Feat_Inbounds),
                     since_version V13_4
                       (acts [put_varint (as_u64 (nat (sint (segment_size opn g)))),
                              for_each (\<lambda>b. put (write_byte (if b then 1 else 0))) values])])"
  by (simp add: write_inbounds_def since_version_def [abs_def] fun_eq_iff Let_def acts_funs split: sum.splits)

lemma body_print_seq:
  "body_print H opn =
     acts [result_count opn, write_result_types opn,
           \<lambda>s. and_then (print_operand_groups opn (fst s)) (\<lambda>x. case x of (num_args, has_token) \<Rightarrow>
             acts [put_varint (if has_token then 1 else 0),
                   write_inline_attr H opn ''str'',
                   put_varint (as_u64 num_args),
                   for_each (put_operand opn) (take num_args (operands opn)),
                   act_if has_token (\<lambda>s. and_then (index (operands opn) num_args) (\<lambda>v. put_operand opn v s))] s)]"
  by (simp add: body_print_def fun_eq_iff acts_funs and_then_assoc)

section \<open>Writers only append\<close>

definition appending :: "(EncodingWriter \<Rightarrow> EncodingWriter) \<Rightarrow> bool" where
  "appending f \<longleftrightarrow> (\<forall>w. \<exists>bs. buf (f w) = buf w @ bs)"

lemma appending_writers [simp]:
  "appending (write_byte b)" "appending (write_bytes bs)" "appending (write_varint v)"
  "appending (write_signed_varint i)" "appending (write_le_var_size_i32 xs)"
  "appending (write_le_var_size_i64 ys)"
  by (simp_all add: appending_def layout_simps)

lemma appending_comp: "appending f \<Longrightarrow> appending g \<Longrightarrow> appending (\<lambda>w. g (f w))"
  unfolding appending_def by (metis append.assoc)

lemma appending_optional_pair [simp]: "appending (optional_pair a b)"
  by (cases a; cases b) (simp_all add: appending_def optional_pair_def layout_simps)

lemma appending_ap_float [simp]: "appending (write_ap_float H v ty)"
  by (auto simp: appending_def write_ap_float_def layout_simps Let_def
      split: Type.splits ScalarType.splits TileElementType.splits)

section \<open>Steps that cannot fail\<close>

text \<open>
  A step that always succeeds and leaves alone what decides about later success: the
  module, the version and the value numbering.
\<close>

definition same_values :: "wstate \<Rightarrow> wstate \<Rightarrow> bool" where
  "same_values s t \<longleftrightarrow> ctx_module (fst t) = ctx_module (fst s) \<and> ctx_version (fst t) = ctx_version (fst s) \<and>
     value_map (fst t) = value_map (fst s) \<and> next_idx (fst t) = next_idx (fst s)"

definition harmless :: "step \<Rightarrow> bool" where
  "harmless a \<longleftrightarrow> (\<forall>s. \<exists>t. a s = Inr t \<and> same_values s t)"

lemma harmless_put [simp]: "harmless (put f)" "harmless (put_varint v)"
  by (auto simp: harmless_def put_def put_varint_def same_values_def)

lemma harmless_type [simp]: "harmless (put_type ty)"
  by (auto simp: harmless_def put_type_def same_values_def split: prod.splits)

lemma harmless_string [simp]: "harmless (put_string str)"
  by (auto simp: harmless_def put_string_def same_values_def split: prod.splits)

lemma harmless_constant [simp]: "harmless (put_constant d)"
  by (auto simp: harmless_def put_constant_def same_values_def split: prod.splits)

lemma harmless_acts: "(\<And>a. a \<in> set as \<Longrightarrow> harmless a) \<Longrightarrow> harmless (acts as)"
proof (induction as)
  case Nil
  then show ?case by (simp add: harmless_def acts.simps same_values_def)
next
  case (Cons a as)
  show ?case unfolding harmless_def
  proof
    fix s
    have "harmless a" "harmless (acts as)" using Cons by simp_all
    then obtain t u where "a s = Inr t" "same_values s t" "acts as t = Inr u" "same_values t u"
      unfolding harmless_def by metis
    then show "\<exists>u. acts (a # as) s = Inr u \<and> same_values s u" by (simp add: acts.simps same_values_def)
  qed
qed

lemma harmless_for_each: "(\<And>x. x \<in> set xs \<Longrightarrow> harmless (f x)) \<Longrightarrow> harmless (for_each f xs)"
  unfolding for_each_fun by (rule harmless_acts) auto

lemma harmless_self_contained: "harmless (write_self_contained_attribute H a)"
proof (induction a)
  case (Attr_Array elems)
  then show ?case by (auto simp: self_contained_seq intro!: harmless_acts harmless_for_each)
next
  case (Attr_Dictionary entries)
  then show ?case
    by (fastforce simp: self_contained_seq intro!: harmless_acts harmless_for_each split: prod.splits)
next
  case (Attr_OptimizationHints entries)
  then show ?case
    by (fastforce simp: self_contained_seq intro!: harmless_acts harmless_for_each split: prod.splits)
qed (auto simp: self_contained_simple intro!: harmless_acts)

lemma harmless_inline: "harmless (write_attr_value_inline H a)"
  by (cases a)
    (auto simp: write_attr_value_inline_def intro!: harmless_acts harmless_for_each harmless_self_contained
      split: prod.splits)

lemma harmless_or_default: "harmless (write_inline_attr_or_default H opn n d)"
  by (auto simp: write_inline_attr_or_default_def harmless_inline split: option.splits)

section \<open>Properties of all operation bodies\<close>

locale step_closed =
  fixes ok :: "step \<Rightarrow> bool" and opn :: Operation
  assumes ok_acts: "(\<And>a. a \<in> set as \<Longrightarrow> ok a) \<Longrightarrow> ok (acts as)"
    and ok_put: "appending f \<Longrightarrow> ok (put f)"
    and ok_harmless: "ok (put_type ty)" "ok (put_string str)" "ok (put_constant d)"
    and ok_gate: "ok (gate n feature)"
    and ok_error: "\<not> operand_error e \<Longrightarrow> ok (\<lambda>s. Inl (Err e))"
    and ok_operand: "v \<in> set (operands opn) \<Longrightarrow> ok (put_operand opn v)"
    and ok_group: "ok (put_group_operand e opn off i)"
    and ok_token: "ok (\<lambda>s. and_then (index (operands opn) k) (\<lambda>v. put_operand opn v s))"
    and ok_print: "(\<And>x. ok (g x)) \<Longrightarrow> ok (\<lambda>s. and_then (print_operand_groups opn (fst s)) (\<lambda>x. g x s))"
    and ok_since: "ok a \<Longrightarrow> harmless a \<Longrightarrow> ok (since_version version a)"
begin

lemma ok_varint: "ok (put_varint v)"
  unfolding put_varint_def by (rule ok_put) simp

lemma ok_for_each: "(\<And>x. x \<in> set xs \<Longrightarrow> ok (f x)) \<Longrightarrow> ok (for_each f xs)"
  unfolding for_each_fun by (rule ok_acts) auto

lemma ok_skip: "ok Inr"
  using ok_acts [of "[]"] by (simp add: acts_funs)

lemma ok_act_if: "(b \<Longrightarrow> ok a) \<Longrightarrow> ok (act_if b a)"
  by (cases b) (simp_all add: ok_skip)

lemma ok_list: "ok (acts [])" "ok a \<Longrightarrow> ok (acts as) \<Longrightarrow> ok (acts (a # as))"
proof -
  show "ok (acts [])" by (rule ok_acts) simp
  assume "ok a" and "ok (acts as)"
  then have "ok (acts [a, acts as])" by (intro ok_acts) auto
  then show "ok (acts (a # as))" by (simp add: acts_funs)
qed

lemma ok_self_contained: "ok (write_self_contained_attribute H a)"
proof (induction a)
  case (Attr_Array elems)
  then show ?case by (auto simp: self_contained_seq intro!: ok_acts ok_for_each ok_varint)
next
  case (Attr_Dictionary entries)
  then show ?case
    by (fastforce simp: self_contained_seq intro!: ok_acts ok_for_each ok_varint ok_harmless split: prod.splits)
next
  case (Attr_OptimizationHints entries)
  then show ?case
    by (fastforce simp: self_contained_seq intro!: ok_acts ok_for_each ok_varint ok_harmless split: prod.splits)
qed (auto simp: self_contained_simple intro!: ok_acts ok_varint ok_harmless ok_put)

lemma ok_inline: "ok (write_attr_value_inline H a)"
  by (cases a)
    (auto simp: write_attr_value_inline_def intro!: ok_acts ok_for_each ok_self_contained ok_varint ok_harmless ok_put
      split: prod.splits)

lemma ok_inline_attr: "ok (write_inline_attr H opn n)"
  by (simp add: write_inline_attr_cases ok_inline ok_error split: option.splits)

lemma ok_or_default: "ok (write_inline_attr_or_default H opn n d)"
  by (simp add: write_inline_attr_or_default_def ok_inline ok_varint split: option.splits)

lemma ok_interface: "ok (write_interface_attr H opn n)"
  by (simp add: write_interface_attr_cases ok_self_contained ok_error split: option.splits)

lemma ok_result_types: "ok (write_result_types opn)"
  unfolding write_result_types_def by (intro ok_for_each ok_harmless)

lemma ok_result_count: "ok (result_count opn)"
  unfolding result_count_def by (rule ok_varint)

lemma ok_operands: "ok (write_operands opn b)"
  unfolding write_operands_def by (intro ok_list ok_act_if ok_for_each ok_varint ok_operand; assumption)

lemma ok_operand_group: "ok (write_operand_group opn g n)"
  unfolding write_operand_group_def by (intro ok_for_each ok_group)

lemma ok_variadic_group: "ok (write_variadic_operand_group opn g)"
  unfolding write_variadic_operand_group_def Let_def
  by (intro ok_list ok_for_each ok_group ok_varint)

lemma ok_inbounds: "ok (write_inbounds opn g)"
proof (cases "sint (segment_size opn g) < 0")
  case True
  then show ?thesis by (simp add: write_inbounds_seq ok_error)
next
  case False
  show ?thesis
  proof (cases "inbounds_values opn (nat (sint (segment_size opn g)))")
    case (Inl e)
    then show ?thesis using False inbounds_values_error [OF Inl] ok_error by (auto simp: write_inbounds_seq)
  next
    case (Inr vs)
    let ?a = "acts [put_varint (as_u64 (nat (sint (segment_size opn g)))),
      for_each (\<lambda>b. put (write_byte (if b then 1 else 0))) vs]"
    have "harmless ?a" by (rule harmless_acts) (auto intro: harmless_for_each)
    moreover have "ok ?a" by (intro ok_list ok_varint ok_for_each ok_put) simp
    ultimately have "ok (since_version V13_4 ?a)" by (rule ok_since [rotated])
    then have "ok (acts [act_if (True \<in> set vs) (gate ''inbounds=true'' Feat_Inbounds), since_version V13_4 ?a])"
      by (intro ok_list ok_act_if ok_gate)
    then show ?thesis using False Inr by (simp add: write_inbounds_seq)
  qed
qed

lemmas ok_steps =
  ok_list ok_act_if ok_varint ok_harmless ok_gate ok_error ok_result_types ok_result_count ok_operands
  ok_operand_group ok_variadic_group ok_inbounds ok_inline_attr ok_or_default ok_interface

lemma ok_regions: "(\<And>r. r \<in> set (op_regions opn) \<Longrightarrow> ok (R r)) \<Longrightarrow> ok (write_regions R opn)"
  unfolding write_regions_def by (intro ok_list ok_varint ok_for_each)

lemma ok_print_groups:
  "ok (\<lambda>s. and_then (print_operand_groups opn (fst s)) (\<lambda>x. case x of (num_args, has_token) \<Rightarrow>
      acts [put_varint (if has_token then 1 else 0), write_inline_attr H opn ''str'',
            put_varint (as_u64 num_args), for_each (put_operand opn) (take num_args (operands opn)),
            act_if has_token (\<lambda>s. and_then (index (operands opn) num_args) (\<lambda>v. put_operand opn v s))] s))"
proof -
  have "ok (\<lambda>s. case x of (num_args, has_token) \<Rightarrow>
      acts [put_varint (if has_token then 1 else 0), write_inline_attr H opn ''str'',
            put_varint (as_u64 num_args), for_each (put_operand opn) (take num_args (operands opn)),
            act_if has_token (\<lambda>s. and_then (index (operands opn) num_args) (\<lambda>v. put_operand opn v s))] s)" for x
  proof (cases x)
    case (Pair num_args has_token)
    show ?thesis unfolding Pair prod.case by (intro ok_steps ok_for_each ok_operand ok_token) (rule in_set_takeD)
  qed
  from ok_print [OF this] show ?thesis .
qed

lemma ok_print_body: "ok (body_print H opn)"
  unfolding body_print_seq by (intro ok_steps ok_print_groups)

lemma ok_flagged: "ok (flagged_group fl k opn g)" "ok (flagged_attr H fl k opn n)"
  unfolding flagged_group_def flagged_attr_def by (intro ok_steps)+

lemma ok_attrs: "ok (for_each (write_inline_attr H opn) ns)"
  by (intro ok_for_each ok_inline_attr)

lemma ok_since_varint: "ok (since_version v (put_varint x))"
  by (rule ok_since) (simp_all add: ok_varint)

lemma ok_since_default: "ok (since_version v (write_inline_attr_or_default H opn n d))"
  by (rule ok_since) (simp_all add: ok_or_default harmless_or_default)

lemma ok_since_producer:
  "ok (since_version v (act_if (find_op_attr opn n \<noteq> None) (write_inline_attr H opn n)))"
proof (cases "find_op_attr opn n")
  case None
  then have "act_if (find_op_attr opn n \<noteq> None) (write_inline_attr H opn n) = acts []" by (simp add: acts_funs)
  then show ?thesis using ok_list(1) harmless_acts [of "[]"] by (simp add: ok_since)
next
  case (Some a)
  then show ?thesis by (simp add: ok_since write_inline_attr_cases ok_inline harmless_inline)
qed

lemmas arm_steps =
  ok_steps ok_attrs ok_flagged ok_since_varint ok_since_default ok_since_producer ok_print_body

lemma ok_plain_arms:
  "ok (body_simple opn)" "ok (body_exp H opn)" "ok (body_mmaf opn)" "ok (body_alloca H opn)"
  "ok (body_default_attr H n d opn)" "ok (body_attrs H ns opn)" "ok (body_attrs_only H ns opn)"
  "ok (body_results_only opn)" "ok (body_assume H opn)" "ok (body_ftoi H opn)" "ok (body_variadic opn)"
  "ok (body_shape opn)" "ok (body_make_tensor_view opn)" "ok (body_float_arith H opn)" "ok (body_ftz opn)"
  "ok (body_minmax opn)" "ok (body_global H opn)"
  unfolding body_simple_def body_exp_def body_mmaf_def body_alloca_def body_default_attr_def
    body_attrs_def body_attrs_only_def body_results_only_def body_assume_def body_ftoi_def Let_def
    body_variadic_def body_shape_def body_make_tensor_view_def body_float_arith_def body_ftz_def
    body_minmax_def body_global_def
  by (intro arm_steps)+

lemma ok_memory_arms:
  "ok (body_atomic_cas H opn)" "ok (body_atomic_rmw H opn)" "ok (body_atomic_red_view H opn)"
  "ok (body_load_ptr H opn)" "ok (body_load_view H opn)" "ok (body_store_ptr H opn)" "ok (body_store_view H opn)"
  unfolding body_atomic_cas_def body_atomic_rmw_def body_atomic_red_view_def body_load_ptr_def
    body_load_view_def body_store_ptr_def body_store_view_def Let_def
  by (intro arm_steps)+

lemma ok_gdc: "ok (body_gdc opn)"
proof (cases "length (operands opn) > 1")
  case True
  then show ?thesis by (simp add: body_gdc_def ok_error)
next
  case False
  have "ok (acts [write_result_types opn, put_varint (if operands opn \<noteq> [] then 1 else 0), write_operands opn False])"
    by (intro arm_steps)
  then show ?thesis using False by (simp add: body_gdc_def)
qed

lemma ok_region_arms:
  assumes "\<And>r. r \<in> set (op_regions opn) \<Longrightarrow> ok (R r)"
  shows "ok (body_module H R opn)" "ok (body_for R opn)" "ok (body_loop R opn)" "ok (body_if R opn)"
    "ok (body_reduce H R ns opn)" "ok (body_entry H R opn)"
  unfolding body_module_def body_for_def body_loop_def body_if_def body_reduce_def body_entry_def Let_def
  by (intro arm_steps ok_regions assms; assumption)+

lemma ok_op_arm:
  assumes "\<And>r. r \<in> set (op_regions opn) \<Longrightarrow> ok (R r)"
  shows "ok (op_arm oc H R opn)"
  using ok_region_arms [OF assms]
  by (cases oc) (simp_all add: ok_plain_arms ok_memory_arms ok_print_body ok_gdc)

lemma ok_attribute_gates: "ok (attribute_gates opn)"
  unfolding attribute_gates_def
  by (intro ok_for_each) (auto simp: ok_gate ok_skip split: prod.splits option.splits)

theorem ok_op_body:
  assumes "\<And>r. r \<in> set (op_regions opn) \<Longrightarrow> ok (R r)"
  shows "ok (write_op_body H R opn)"
  unfolding write_op_body_def by (intro ok_list ok_gate ok_attribute_gates ok_op_arm assms)

end

end
