(* ===== verification/WriterInv.thy ===== *)
theory WriterInv
  imports Writer StepLogic
begin

text \<open>
  What the writer keeps while it serializes operations. A frame relation between the
  states before and after a step, reflexive and transitive and respected by the primitive
  writes, holds for every operation body (locale \<open>frame_rel\<close>, a \<open>step_closed\<close> property). Two
  such relations are interpreted: the shared tables stay well formed and only grow, and
  the value numbering stays sound with respect to the stack of values in scope.
\<close>

section \<open>Frame relations\<close>

definition ensures :: "(wstate \<Rightarrow> wstate \<Rightarrow> bool) \<Rightarrow> step \<Rightarrow> bool" where
  "ensures Q a \<longleftrightarrow> (\<forall>s t. a s = Inr t \<longrightarrow> Q s t)"

lemma ensuresI: "(\<And>s t. a s = Inr t \<Longrightarrow> Q s t) \<Longrightarrow> ensures Q a"
  unfolding ensures_def by blast

lemma ensuresD: "ensures Q a \<Longrightarrow> a s = Inr t \<Longrightarrow> Q s t"
  unfolding ensures_def by blast

locale frame_rel =
  fixes Q :: "wstate \<Rightarrow> wstate \<Rightarrow> bool"
  assumes Q_refl: "Q s s"
    and Q_trans: "Q s t \<Longrightarrow> Q t u \<Longrightarrow> Q s u"
    and Q_put: "appending f \<Longrightarrow> Q s (fst s, f (snd s))"
    and Q_type: "Q s ((fst s)\<lparr>types := snd (type_get_or_insert ty (types (fst s)))\<rparr>, write_varint k (snd s))"
    and Q_string: "Q s ((fst s)\<lparr>strings := snd (string_get_or_insert str (strings (fst s)))\<rparr>, write_varint k (snd s))"
    and Q_constant: "Q s ((fst s)\<lparr>constants := snd (constant_add d (constants (fst s)))\<rparr>, write_varint k (snd s))"
begin

lemma ensures_acts: "(\<And>a. a \<in> set as \<Longrightarrow> ensures Q a) \<Longrightarrow> ensures Q (acts as)"
proof (induction as)
  case Nil
  then show ?case by (intro ensuresI) (simp add: acts_funs Q_refl)
next
  case (Cons a as)
  have "ensures Q a" "ensures Q (acts as)" using Cons by simp_all
  then show ?case unfolding ensures_def acts_funs and_then_eq_Inr by (meson Q_trans)
qed

end

sublocale frame_rel \<subseteq> step_closed "ensures Q" opn for opn
proof
  fix as :: "step list" assume "\<And>a. a \<in> set as \<Longrightarrow> ensures Q a"
  then show "ensures Q (acts as)" by (rule ensures_acts)
next
  fix f assume "appending f"
  then show "ensures Q (put f)" by (intro ensuresI) (auto simp: put_def intro: Q_put)
next
  fix ty show "ensures Q (put_type ty)"
    by (intro ensuresI) (simp add: put_type_def case_prod_unfold Let_def, metis Q_type)
next
  fix str show "ensures Q (put_string str)"
    by (intro ensuresI) (simp add: put_string_def case_prod_unfold Let_def, metis Q_string)
next
  fix d show "ensures Q (put_constant d)"
    by (intro ensuresI) (simp add: put_constant_def case_prod_unfold Let_def, metis Q_constant)
next
  fix n f show "ensures Q (gate n f)"
    by (intro ensuresI) (auto simp: gate_def and_then_eq_Inr intro: Q_refl)
next
  fix e :: write_error show "ensures Q (\<lambda>s. Inl (Err e))" by (simp add: ensures_def)
next
  fix v show "ensures Q (put_operand opn v)"
    by (intro ensuresI) (auto simp: put_operand_def put_varint_def put_def and_then_eq_Inr intro: Q_put)
next
  fix e off i show "ensures Q (put_group_operand e opn off i)"
    by (intro ensuresI) (auto simp: put_group_operand_def put_varint_def put_def and_then_eq_Inr intro: Q_put)
next
  fix k show "ensures Q (\<lambda>s. and_then (index (operands opn) k) (\<lambda>v. put_operand opn v s))"
    by (intro ensuresI) (auto simp: put_operand_def put_varint_def put_def and_then_eq_Inr intro: Q_put)
next
  fix g :: "nat \<times> bool \<Rightarrow> step" assume "\<And>x. ensures Q (g x)"
  then show "ensures Q (\<lambda>s. and_then (print_operand_groups opn (fst s)) (\<lambda>x. g x s))"
    unfolding ensures_def and_then_eq_Inr by blast
next
  fix a v assume "ensures Q a"
  then show "ensures Q (since_version v a)"
    unfolding ensures_def since_version_def act_if_def using Q_refl by (metis Inr_inject)
qed

section \<open>The shared tables\<close>

definition tables_ok :: "WriterCtx \<Rightarrow> bool" where
  "tables_ok ctx \<longleftrightarrow> types_wf (types ctx) \<and> debug_inv (strings ctx) (debug ctx)"

definition tables_extend :: "WriterCtx \<Rightarrow> WriterCtx \<Rightarrow> bool" where
  "tables_extend c c' \<longleftrightarrow>
     (\<exists>ds. map fst (str_map (strings c')) = map fst (str_map (strings c)) @ ds) \<and>
     (\<exists>ds. ty_list (types c') = ty_list (types c) @ ds) \<and>
     (\<exists>ds. const_entries (constants c') = const_entries (constants c) @ ds)"

definition tables_frame :: "wstate \<Rightarrow> wstate \<Rightarrow> bool" where
  "tables_frame s t \<longleftrightarrow>
     ctx_module (fst t) = ctx_module (fst s) \<and> ctx_version (fst t) = ctx_version (fst s) \<and>
     length (per_function (debug (fst t))) = length (per_function (debug (fst s))) \<and>
     (\<exists>bs. buf (snd t) = buf (snd s) @ bs) \<and>
     (tables_ok (fst s) \<longrightarrow> tables_ok (fst t) \<and> tables_extend (fst s) (fst t))"

lemma debug_inv_strings_wf: "debug_inv ss d \<Longrightarrow> strings_wf ss"
  by (simp add: debug_inv_def debug_ok_def)

interpretation tab: frame_rel tables_frame
proof
  fix s show "tables_frame s s" by (simp add: tables_frame_def tables_extend_def)
next
  fix s t u assume "tables_frame s t" and "tables_frame t u"
  then show "tables_frame s u" by (fastforce simp: tables_frame_def tables_extend_def)
next
  fix f s assume "appending f"
  then show "tables_frame s (fst s, f (snd s))"
    by (simp add: tables_frame_def tables_extend_def appending_def)
next
  fix s ty k
  show "tables_frame s ((fst s)\<lparr>types := snd (type_get_or_insert ty (types (fst s)))\<rparr>, write_varint k (snd s))"
    using typs.intern_wf typs.intern_extends
    by (simp add: tables_frame_def tables_extend_def tables_ok_def layout_simps)
next
  fix s str k
  show "tables_frame s ((fst s)\<lparr>strings := snd (string_get_or_insert str (strings (fst s)))\<rparr>, write_varint k (snd s))"
    using strs.intern_extends [OF debug_inv_strings_wf, of "strings (fst s)" "debug (fst s)" str]
      debug_inv_strings [of "strings (fst s)" "debug (fst s)" str]
    by (auto simp: tables_frame_def tables_extend_def tables_ok_def layout_simps)
next
  fix s d k
  show "tables_frame s ((fst s)\<lparr>constants := snd (constant_add d (constants (fst s)))\<rparr>, write_varint k (snd s))"
    by (simp add: tables_frame_def tables_extend_def tables_ok_def layout_simps constant_add_def)
qed

subsection \<open>Operations, blocks and regions\<close>

declare tab.Q_trans [trans]

text \<open>The steps of a block that was written.\<close>

lemma write_block_withE:
  assumes "write_block_with W b s = Inr t"
  obtains bl s1 s2 s3 s4 where "block (ctx_module (fst s)) b = (Inr bl :: (write_error, Block) res)"
    "put_varint (as_u64 (length (args bl))) s = Inr s1"
    "for_each (\<lambda>(v, ty) s. and_then (put_type ty s) (\<lambda>s. Inr (register_value v (fst s), snd s))) (args bl) s1 = Inr s2"
    "put_varint (as_u64 (length (ops bl))) s2 = Inr s3" "for_each W (ops bl) s3 = Inr s4"
    "t = ((fst s4)\<lparr>value_map := (\<lambda>v. case value_map (fst s4) v of
                                        Some k \<Rightarrow> if k < next_idx (fst s) then Some k else None
                                      | None \<Rightarrow> None),
                   next_idx := next_idx (fst s)\<rparr>, snd s4)"
  using assms unfolding write_block_with_def Let_def and_then_eq_Inr
  by (elim exE conjE) (rule that, assumption+, simp)

lemma register_value_simps [simp]:
  "ctx_module (register_value v c) = ctx_module c" "ctx_version (register_value v c) = ctx_version c"
  "strings (register_value v c) = strings c" "types (register_value v c) = types c"
  "constants (register_value v c) = constants c" "debug (register_value v c) = debug c"
  by (simp_all add: register_value_def)

lemma register_results_simps [simp]:
  "ctx_module (register_results i opn c) = ctx_module c \<and> ctx_version (register_results i opn c) = ctx_version c \<and>
   strings (register_results i opn c) = strings c \<and> types (register_results i opn c) = types c \<and>
   constants (register_results i opn c) = constants c \<and> debug (register_results i opn c) = debug c"
proof -
  let ?f = "\<lambda>k ctx. case find_op_result (ctx_module ctx) i (as_u32 k) of
      Some v \<Rightarrow> register_value v ctx | None \<Rightarrow> ctx"
  have "ctx_module (fold ?f ks c) = ctx_module c \<and> ctx_version (fold ?f ks c) = ctx_version c \<and>
      strings (fold ?f ks c) = strings c \<and> types (fold ?f ks c) = types c \<and>
      constants (fold ?f ks c) = constants c \<and> debug (fold ?f ks c) = debug c" for ks
    by (induction ks arbitrary: c) (simp_all split: option.splits)
  then show ?thesis by (simp add: register_results_def)
qed

lemma tables_frame_values:
  assumes "ctx_module c = ctx_module (fst s)" "ctx_version c = ctx_version (fst s)" "strings c = strings (fst s)"
    "types c = types (fst s)" "constants c = constants (fst s)" "debug c = debug (fst s)"
  shows "tables_frame s (c, snd s)"
  using assms by (simp add: tables_frame_def tables_ok_def tables_extend_def)

lemma record_location_frame: "tables_frame (c, w) (record_location loc c, w)"
proof -
  obtain ss d where r: "record_op loc (strings c) (debug c) = (ss, d)" by fastforce
  have "length (per_function d) = length (per_function (debug c))"
  proof -
    obtain a ss1 t1 where "attr_for (current_scope (debug c)) loc (strings c) (attrs (debug c)) = (a, ss1, t1)"
      by (cases "attr_for (current_scope (debug c)) loc (strings c) (attrs (debug c))")
    then show ?thesis using r by (auto simp: record_op_def)
  qed
  moreover have "debug_inv ss d \<and> str_ext (strings c) ss" if "debug_inv (strings c) (debug c)"
    using record_op_inv [OF that r] by (simp add: grows_def)
  ultimately show ?thesis
    using r by (auto simp: record_location_def tables_frame_def tables_ok_def tables_extend_def str_ext_def)
qed

lemma write_operation_with_tables:
  assumes "\<And>r. ensures tables_frame (R r)"
  shows "ensures tables_frame (write_operation_with H R i)"
proof (rule ensuresI)
  fix s t assume "write_operation_with H R i s = Inr t"
  then obtain opn s1 s2 where
    1: "put_varint (ucast (as_u16 (opcode opn))) (record_location (location opn) (fst s), snd s) = Inr s1"
    and 2: "write_op_body H R opn s1 = Inr s2" and 3: "t = (register_results i opn (fst s2), snd s2)"
    by (auto simp: write_operation_with_def and_then_eq_Inr)
  have "tables_frame s (record_location (location opn) (fst s), snd s)"
    using record_location_frame [of "fst s" "snd s"] by simp
  also have "tables_frame (record_location (location opn) (fst s), snd s) s1"
    by (rule ensuresD [OF tab.ok_varint 1])
  also have "tables_frame s1 s2"
    by (rule ensuresD [OF tab.ok_op_body 2]) (rule assms)
  also have "tables_frame s2 t"
    unfolding 3 by (rule tables_frame_values) simp_all
  finally show "tables_frame s t" .
qed

lemma block_args_tables:
  "ensures tables_frame (for_each (\<lambda>(v, ty) s. and_then (put_type ty s) (\<lambda>s. Inr (register_value v (fst s), snd s))) as)"
proof (rule tab.ok_for_each)
  fix x :: "Value \<times> Type"
  obtain v ty where x: "x = (v, ty)" by fastforce
  show "ensures tables_frame (case x of (v, ty) \<Rightarrow> \<lambda>s. and_then (put_type ty s) (\<lambda>s. Inr (register_value v (fst s), snd s)))"
  proof (rule ensuresI)
    fix s t assume "(case x of (v, ty) \<Rightarrow> \<lambda>s. and_then (put_type ty s) (\<lambda>s. Inr (register_value v (fst s), snd s))) s = Inr t"
    then obtain s1 where 1: "put_type ty s = Inr s1" and 2: "t = (register_value v (fst s1), snd s1)"
      unfolding x by (auto simp: and_then_eq_Inr)
    have "tables_frame s s1" by (rule ensuresD [OF tab.ok_harmless(1) 1])
    also have "tables_frame s1 t"
      unfolding 2 by (rule tables_frame_values) simp_all
    finally show "tables_frame s t" .
  qed
qed

lemma write_block_with_tables:
  assumes "\<And>i. ensures tables_frame (W i)"
  shows "ensures tables_frame (write_block_with W b)"
proof (rule ensuresI)
  fix s t assume "write_block_with W b s = Inr t"
  then obtain bl :: Block and s1 s2 s3 s4 where
    1: "put_varint (as_u64 (length (args bl))) s = Inr s1"
    and 2: "for_each (\<lambda>(v, ty) s. and_then (put_type ty s) (\<lambda>s. Inr (register_value v (fst s), snd s))) (args bl) s1 = Inr s2"
    and 3: "put_varint (as_u64 (length (ops bl))) s2 = Inr s3" and 4: "for_each W (ops bl) s3 = Inr s4"
    and 5: "t = ((fst s4)\<lparr>value_map := (\<lambda>v. case value_map (fst s4) v of
                                        Some k \<Rightarrow> if k < next_idx (fst s) then Some k else None
                                      | None \<Rightarrow> None),
                   next_idx := next_idx (fst s)\<rparr>, snd s4)"
    by (rule write_block_withE)
  have "tables_frame s s1" by (rule ensuresD [OF tab.ok_varint 1])
  also have "tables_frame s1 s2" by (rule ensuresD [OF block_args_tables 2])
  also have "tables_frame s2 s3" by (rule ensuresD [OF tab.ok_varint 3])
  also have "tables_frame s3 s4" by (rule ensuresD [OF tab.ok_for_each 4]) (rule assms)
  also have "tables_frame s4 t"
    unfolding 5 by (rule tables_frame_values) simp_all
  finally show "tables_frame s t" .
qed

lemma write_region_with_tables:
  assumes "\<And>b. ensures tables_frame (B b)"
  shows "ensures tables_frame (write_region_with B r)"
proof (rule ensuresI)
  fix s t assume "write_region_with B r s = Inr t"
  then obtain rg :: Region where "acts [put_varint (as_u64 (length (rg_blocks rg))), for_each B (rg_blocks rg)] s = Inr t"
    unfolding write_region_with_def and_then_eq_Inr by blast
  moreover have "ensures tables_frame (acts [put_varint (as_u64 (length (rg_blocks rg))), for_each B (rg_blocks rg)])"
    by (intro tab.ok_list tab.ok_varint tab.ok_for_each assms)
  ultimately show "tables_frame s t" using ensuresD by blast
qed

lemma write_operation_tables: "ensures tables_frame (write_operation H n i)"
proof (induction n arbitrary: i)
  case 0
  then show ?case by (simp add: ensures_def)
next
  case (Suc n)
  have "write_operation H (Suc n) i = write_operation_with H (write_region_with (write_block_with (write_operation H n))) i"
    by (rule ext) simp
  then show ?case
    using Suc by (simp add: write_operation_with_tables write_region_with_tables write_block_with_tables)
qed

end
