(* ===== verification/Numbering.thy ===== *)
theory Numbering
  imports WriterInv
begin

text \<open>
  Value numbering. A reader of the bytecode numbers values in the order it meets their
  definitions and forgets a block's values at its end; its state is the list of values in
  scope. The writer keeps a map from values to numbers instead, with a counter, and rolls
  both back at the end of a block. \<open>scoped\<close> relates the two: every number in the map is the
  position of that value in the list, and the counter is the length of the list. Writing
  a block keeps the relation for the same list, writing an operation extends the list by
  its results.
\<close>

section \<open>The values in scope\<close>

definition scoped :: "WriterCtx \<Rightarrow> Value list \<Rightarrow> bool" where
  "scoped c vs \<longleftrightarrow> next_idx c = as_u64 (length vs) \<and>
     (\<forall>v k. value_map c v = Some k \<longrightarrow> (\<exists>j < length vs. k = as_u64 j \<and> vs ! j = v))"

definition growth :: "wstate \<Rightarrow> wstate \<Rightarrow> nat" where
  "growth s t = length (buf (snd t)) - length (buf (snd s))"

text \<open>The step from \<open>s\<close> to \<open>t\<close> brings the values \<open>ws\<close> into scope.\<close>

definition brings :: "Value list \<Rightarrow> wstate \<Rightarrow> wstate \<Rightarrow> bool" where
  "brings ws s t \<longleftrightarrow> (\<exists>bs. buf (snd t) = buf (snd s) @ bs) \<and> ctx_module (fst t) = ctx_module (fst s) \<and>
     length ws \<le> growth s t \<and>
     (\<forall>vs. scoped (fst s) vs \<longrightarrow> length vs + growth s t < usize_top \<longrightarrow> scoped (fst t) (vs @ ws))"

abbreviation num_frame :: "wstate \<Rightarrow> wstate \<Rightarrow> bool" where
  "num_frame \<equiv> brings []"

lemma scoped_cong: "value_map c' = value_map c \<Longrightarrow> next_idx c' = next_idx c \<Longrightarrow> scoped c' vs = scoped c vs"
  by (simp add: scoped_def)

lemma num_frame_same:
  assumes "ctx_module (fst t) = ctx_module (fst s)" "value_map (fst t) = value_map (fst s)"
    "next_idx (fst t) = next_idx (fst s)" "\<exists>bs. buf (snd t) = buf (snd s) @ bs"
  shows "num_frame s t"
  using assms scoped_cong [of "fst t" "fst s"] by (simp add: brings_def)

lemma growth_trans:
  assumes "\<exists>bs. buf (snd t) = buf (snd s) @ bs" "\<exists>bs. buf (snd u) = buf (snd t) @ bs"
  shows "growth s u = growth s t + growth t u" and "\<exists>bs. buf (snd u) = buf (snd s) @ bs"
  using assms by (auto simp: growth_def)

lemma brings_trans:
  assumes "brings ws s t" and "brings us t u"
  shows "brings (ws @ us) s u"
proof -
  have e: "\<exists>bs. buf (snd t) = buf (snd s) @ bs" "\<exists>bs. buf (snd u) = buf (snd t) @ bs"
    using assms by (simp_all add: brings_def)
  have g: "growth s u = growth s t + growth t u" "\<exists>bs. buf (snd u) = buf (snd s) @ bs"
    using growth_trans [OF e] .
  show ?thesis unfolding brings_def
  proof (intro conjI allI impI)
    fix vs assume vs: "scoped (fst s) vs" "length vs + growth s u < usize_top"
    then have "scoped (fst t) (vs @ ws)" using assms(1) g by (simp add: brings_def)
    moreover have "length (vs @ ws) + growth t u < usize_top"
      using vs(2) g assms(1) by (simp add: brings_def)
    ultimately show "scoped (fst u) (vs @ ws @ us)"
      using assms(2) by (metis append_assoc brings_def)
  qed (use assms g in \<open>simp_all add: brings_def\<close>)
qed

interpretation num: frame_rel num_frame
proof
  fix s show "num_frame s s" by (simp add: brings_def)
next
  fix s t u assume "num_frame s t" and "num_frame t u"
  then show "num_frame s u" using brings_trans [of "[]" s t "[]" u] by simp
next
  fix f s assume "appending f"
  then show "num_frame s (fst s, f (snd s))" by (intro num_frame_same) (simp_all add: appending_def)
qed (rule num_frame_same; simp add: layout_simps)+

section \<open>Every result type takes a byte\<close>

definition grow_by :: "nat \<Rightarrow> step \<Rightarrow> bool" where
  "grow_by n a \<longleftrightarrow> (\<forall>s t. a s = Inr t \<longrightarrow> length (buf (snd s)) + n \<le> length (buf (snd t)))"

lemma grow_byI: "(\<And>s t. a s = Inr t \<Longrightarrow> length (buf (snd s)) + n \<le> length (buf (snd t))) \<Longrightarrow> grow_by n a"
  unfolding grow_by_def by blast

lemma grow_byD: "grow_by n a \<Longrightarrow> a s = Inr t \<Longrightarrow> length (buf (snd s)) + n \<le> length (buf (snd t))"
  unfolding grow_by_def by blast

lemma tables_frame_growth: "ensures tables_frame a \<Longrightarrow> grow_by 0 a"
  by (auto simp: tables_frame_def intro!: grow_byI dest!: ensuresD)

lemma grow_by_seq:
  assumes "grow_by m a" and "grow_by n (acts as)"
  shows "grow_by (m + n) (acts (a # as))"
proof (rule grow_byI)
  fix s t assume "acts (a # as) s = Inr t"
  then obtain u where "a s = Inr u" "acts as u = Inr t" by (auto simp: acts_funs and_then_eq_Inr)
  then show "length (buf (snd s)) + (m + n) \<le> length (buf (snd t))"
    using grow_byD [OF assms(1)] grow_byD [OF assms(2)] by fastforce
qed

lemma put_type_growth: "grow_by 1 (put_type ty)"
proof (rule grow_byI)
  fix s t assume "put_type ty s = Inr t"
  then have "\<exists>i. buf (snd t) = buf (snd s) @ varint i"
    by (auto simp: put_type_def case_prod_unfold Let_def layout_simps)
  then obtain i where "buf (snd t) = buf (snd s) @ varint i" by blast
  moreover have "0 < length (varint i)" by simp
  ultimately show "length (buf (snd s)) + 1 \<le> length (buf (snd t))" by (simp del: length_greater_0_conv)
qed

lemma result_types_growth: "grow_by (length (result_types opn)) (write_result_types opn)"
proof -
  have "grow_by (length tys) (acts (map put_type tys))" for tys
  proof (induction tys)
    case Nil
    then show ?case by (auto simp: acts_funs intro: grow_byI)
  next
    case (Cons ty tys)
    have "length (ty # tys) = 1 + length tys" by simp
    then show ?case unfolding list.map by (simp only: grow_by_seq [OF put_type_growth Cons])
  qed
  then show ?thesis by (simp add: write_result_types_def for_each_fun)
qed

lemma grow_first:
  assumes "ensures tables_frame (acts as)"
  shows "grow_by (length (result_types opn)) (acts (write_result_types opn # as))"
  using grow_by_seq [OF result_types_growth tables_frame_growth [OF assms]] by (simp only: add_0_right)

lemma grow_second:
  assumes "ensures tables_frame (acts as)"
  shows "grow_by (length (result_types opn)) (acts (result_count opn # write_result_types opn # as))"
  using grow_by_seq [OF tables_frame_growth [OF tab.ok_result_count] grow_first [OF assms]] by (simp only: add_0_left)

lemmas grow_steps = grow_first grow_second tab.arm_steps

lemma grow_plain_arms:
  fixes opn defines "n \<equiv> length (result_types opn)"
  shows "grow_by n (body_simple opn)" "grow_by n (body_exp H opn)" "grow_by n (body_mmaf opn)" "grow_by n (body_alloca H opn)"
  "grow_by n (body_default_attr H x d opn)" "grow_by n (body_attrs H ns opn)" "grow_by n (body_attrs_only H ns opn)"
  "grow_by n (body_results_only opn)" "grow_by n (body_assume H opn)" "grow_by n (body_ftoi H opn)" "grow_by n (body_variadic opn)"
  "grow_by n (body_shape opn)" "grow_by n (body_make_tensor_view opn)" "grow_by n (body_float_arith H opn)" "grow_by n (body_ftz opn)"
  "grow_by n (body_minmax opn)" "grow_by n (body_global H opn)"
  unfolding n_def body_simple_def body_exp_def body_mmaf_def body_alloca_def body_default_attr_def
    body_attrs_def body_attrs_only_def body_results_only_def body_assume_def body_ftoi_def Let_def
    body_variadic_def body_shape_def body_make_tensor_view_def body_float_arith_def body_ftz_def
    body_minmax_def body_global_def
  by (intro grow_steps result_types_growth)+

lemma grow_memory_arms:
  fixes opn defines "n \<equiv> length (result_types opn)"
  shows "grow_by n (body_atomic_cas H opn)" "grow_by n (body_atomic_rmw H opn)" "grow_by n (body_atomic_red_view H opn)"
  "grow_by n (body_load_ptr H opn)" "grow_by n (body_load_view H opn)" "grow_by n (body_store_ptr H opn)" "grow_by n (body_store_view H opn)"
  unfolding n_def body_atomic_cas_def body_atomic_rmw_def body_atomic_red_view_def body_load_ptr_def
    body_load_view_def body_store_ptr_def body_store_view_def Let_def
  by (intro grow_steps)+

lemma grow_gdc: "grow_by (length (result_types opn)) (body_gdc opn)"
proof (cases "length (operands opn) > 1")
  case True
  then show ?thesis by (auto simp: body_gdc_def intro: grow_byI)
next
  case False
  have "grow_by (length (result_types opn))
      (acts [write_result_types opn, put_varint (if operands opn \<noteq> [] then 1 else 0), write_operands opn False])"
    by (intro grow_steps)
  then show ?thesis unfolding body_gdc_def using False by (simp only: if_False)
qed

lemma grow_print: "grow_by (length (result_types opn)) (body_print H opn)"
  unfolding body_print_seq by (rule grow_second) (intro tab.ok_list tab.ok_print_groups)

lemma grow_region_arms:
  assumes "\<And>r. ensures tables_frame (R r)"
  shows "grow_by (length (result_types opn)) (body_module H R opn)" "grow_by (length (result_types opn)) (body_for R opn)"
    "grow_by (length (result_types opn)) (body_loop R opn)" "grow_by (length (result_types opn)) (body_if R opn)"
    "grow_by (length (result_types opn)) (body_reduce H R ns opn)" "grow_by (length (result_types opn)) (body_entry H R opn)"
  unfolding body_module_def body_for_def body_loop_def body_if_def body_reduce_def body_entry_def Let_def
  by (intro grow_steps tab.ok_regions assms)+

lemma grow_op_arm:
  assumes "\<And>r. ensures tables_frame (R r)"
  shows "grow_by (length (result_types opn)) (op_arm oc H R opn)"
  using grow_region_arms [OF assms]
  by (cases oc) (simp_all only: op_arm.simps grow_plain_arms grow_memory_arms grow_print grow_gdc)

lemma grow_op_body:
  assumes "\<And>r. ensures tables_frame (R r)"
  shows "grow_by (length (result_types opn)) (write_op_body H R opn)"
proof -
  have "grow_by (length (result_types opn)) (acts [op_arm (opcode opn) H R opn])"
    using grow_op_arm [OF assms] by (simp add: acts_funs)
  then have "grow_by (0 + (0 + length (result_types opn))) (write_op_body H R opn)"
    unfolding write_op_body_def
    by (intro grow_by_seq tables_frame_growth tab.ok_gate tab.ok_attribute_gates)
  then show ?thesis by simp
qed

section \<open>Registering values\<close>

lemma scoped_register:
  assumes "scoped c vs"
  shows "scoped (register_value v c) (vs @ [v])"
  unfolding scoped_def
proof (intro conjI allI impI)
  show "next_idx (register_value v c) = as_u64 (length (vs @ [v]))"
    using assms by (simp add: scoped_def register_value_def)
  fix x k assume "value_map (register_value v c) x = Some k"
  then consider "x = v" "k = as_u64 (length vs)" | "value_map c x = Some k"
    using assms by (auto simp: scoped_def register_value_def split: if_splits)
  then show "\<exists>j < length (vs @ [v]). k = as_u64 j \<and> (vs @ [v]) ! j = x"
  proof cases
    case 2
    then obtain j where "j < length vs" "k = as_u64 j" "vs ! j = x"
      using assms by (auto simp: scoped_def)
    then show ?thesis by (intro exI [of _ j]) (simp add: nth_append)
  qed auto
qed

text \<open>The values an operation defines, in the order of its result types.\<close>

definition op_results :: "Module \<Rightarrow> OpId \<Rightarrow> Operation \<Rightarrow> Value list" where
  "op_results m i opn = List.map_filter (\<lambda>k. find_op_result m i (as_u32 k)) [0..<length (result_types opn)]"

lemma length_map_filter_le: "length (List.map_filter f xs) \<le> length xs"
  by (induction xs) (auto simp: List.map_filter_simps split: option.splits)

lemma length_op_results: "length (op_results m i opn) \<le> length (result_types opn)"
  using length_map_filter_le [of "\<lambda>k. find_op_result m i (as_u32 k)" "[0..<length (result_types opn)]"]
  by (simp add: op_results_def)

lemma scoped_results:
  assumes "scoped c vs"
  shows "scoped (register_results i opn c) (vs @ op_results (ctx_module c) i opn)"
proof -
  let ?f = "\<lambda>k c. case find_op_result (ctx_module c) i (as_u32 k) of Some v \<Rightarrow> register_value v c | None \<Rightarrow> c"
  have "scoped c vs \<Longrightarrow> scoped (fold ?f ks c) (vs @ List.map_filter (\<lambda>k. find_op_result (ctx_module c) i (as_u32 k)) ks)" for ks
  proof (induction ks arbitrary: c vs)
    case Nil
    then show ?case by (simp add: List.map_filter_simps)
  next
    case (Cons k ks)
    show ?case
    proof (cases "find_op_result (ctx_module c) i (as_u32 k)")
      case None
      then show ?thesis using Cons by (simp add: List.map_filter_simps)
    next
      case (Some v)
      then show ?thesis
        using Cons.IH [OF scoped_register [OF Cons.prems]] by (simp add: List.map_filter_simps)
    qed
  qed
  from this [OF assms] show ?thesis by (simp add: register_results_def op_results_def)
qed

section \<open>Operations, blocks and regions\<close>

definition results_of :: "Module \<Rightarrow> OpId \<Rightarrow> Value list" where
  "results_of m i = (case op m i :: (write_error, Operation) res of Inr opn \<Rightarrow> op_results m i opn | Inl _ \<Rightarrow> [])"

lemma record_location_values [simp]:
  "ctx_module (record_location loc c) = ctx_module c" "value_map (record_location loc c) = value_map c"
  "next_idx (record_location loc c) = next_idx c"
  by (simp_all add: record_location_def split: prod.splits)

text \<open>Values registered after a step that wrote at least as many bytes.\<close>

lemma brings_after:
  assumes st: "num_frame s t" and n: "length ws \<le> growth s t" and m: "ctx_module c = ctx_module (fst t)"
    and sc: "\<And>vs. scoped (fst t) vs \<Longrightarrow> scoped c (vs @ ws)"
  shows "brings ws s (c, snd t)"
proof -
  have "growth s (c, snd t) = growth s t" by (simp add: growth_def)
  then show ?thesis using assms by (auto simp: brings_def)
qed

lemma write_operation_with_brings:
  assumes num: "\<And>r. ensures num_frame (R r)" and tab: "\<And>r. ensures tables_frame (R r)"
    and w: "write_operation_with H R i s = Inr t"
  shows "brings (results_of (ctx_module (fst s)) i) s t"
proof -
  obtain opn s1 s2 where
    0: "op (ctx_module (fst s)) i = (Inr opn :: (write_error, Operation) res)"
    and 1: "put_varint (ucast (as_u16 (opcode opn))) (record_location (location opn) (fst s), snd s) = Inr s1"
    and 2: "write_op_body H R opn s1 = Inr s2" and 3: "t = (register_results i opn (fst s2), snd s2)"
    using w by (auto simp: write_operation_with_def and_then_eq_Inr)
  have "num_frame s (record_location (location opn) (fst s), snd s)"
    by (rule num_frame_same) simp_all
  then have s1: "num_frame s s1" by (rule num.Q_trans) (rule ensuresD [OF num.ok_varint 1])
  have s2: "num_frame s1 s2"
    by (rule ensuresD [OF num.ok_op_body 2]) (rule num)
  have ss: "num_frame s s2" by (rule num.Q_trans [OF s1 s2])
  have "length (result_types opn) \<le> growth s s2"
    using grow_byD [OF grow_op_body [OF tab] 2] s1 by (auto simp: growth_def brings_def)
  then have "length (op_results (ctx_module (fst s2)) i opn) \<le> growth s s2"
    using length_op_results order_trans by blast
  then have "brings (op_results (ctx_module (fst s2)) i opn) s t"
    unfolding 3 by (rule brings_after [OF ss]) (simp_all add: scoped_results)
  moreover have "ctx_module (fst s2) = ctx_module (fst s)" using ss by (simp add: brings_def)
  ultimately show ?thesis using 0 by (simp add: results_of_def)
qed

lemma block_args_brings:
  assumes "for_each (\<lambda>(v, ty) s. and_then (put_type ty s) (\<lambda>s. Inr (register_value v (fst s), snd s))) as s = Inr t"
  shows "brings (map fst as) s t"
  using assms
proof (induction as arbitrary: s)
  case Nil
  then show ?case using num.Q_refl by simp
next
  case (Cons a as)
  obtain v ty where a: "a = (v, ty)" by fastforce
  with Cons.prems obtain s1 where 1: "put_type ty s = Inr s1"
    and 2: "for_each (\<lambda>(v, ty) s. and_then (put_type ty s) (\<lambda>s. Inr (register_value v (fst s), snd s))) as
              (register_value v (fst s1), snd s1) = Inr t"
    by (auto simp: and_then_eq_Inr)
  have "num_frame s s1" by (rule ensuresD [OF num.ok_harmless(1) 1])
  moreover have "length [v] \<le> growth s s1" using grow_byD [OF put_type_growth 1] by (simp add: growth_def)
  ultimately have "brings [v] s (register_value v (fst s1), snd s1)"
    by (rule brings_after) (simp_all add: scoped_register)
  from brings_trans [OF this Cons.IH [OF 2]] show ?case by (simp add: a)
qed

lemma ops_brings:
  assumes "\<And>i s t. W i s = Inr t \<Longrightarrow> brings (results_of (ctx_module (fst s)) i) s t"
    and "for_each W is s = Inr t"
  shows "brings (concat (map (results_of (ctx_module (fst s))) is)) s t"
  using assms(2)
proof (induction "is" arbitrary: s)
  case Nil
  then show ?case using num.Q_refl by simp
next
  case (Cons i "is")
  then obtain s1 where 1: "W i s = Inr s1" and 2: "for_each W is s1 = Inr t"
    by (auto simp: and_then_eq_Inr)
  have b: "brings (results_of (ctx_module (fst s)) i) s s1" by (rule assms(1) [OF 1])
  moreover have "ctx_module (fst s1) = ctx_module (fst s)" using b by (simp add: brings_def)
  ultimately show ?case using brings_trans [OF b Cons.IH [OF 2]] by simp
qed

text \<open>At its end a block forgets the values it brought.\<close>

lemma scoped_rollback:
  assumes sc: "scoped c (vs @ ws)" and n: "length (vs @ ws) < usize_top" and k: "saved = as_u64 (length vs)"
  shows "scoped (c\<lparr>value_map := (\<lambda>v. case value_map c v of Some k \<Rightarrow> if k < saved then Some k else None | None \<Rightarrow> None),
                   next_idx := saved\<rparr>) vs"
  unfolding scoped_def
proof (intro conjI allI impI)
  fix v i
  assume "value_map (c\<lparr>value_map := (\<lambda>v. case value_map c v of Some k \<Rightarrow> if k < saved then Some k else None | None \<Rightarrow> None),
                   next_idx := saved\<rparr>) v = Some i"
  then have i: "value_map c v = Some i" "i < saved" by (auto split: option.splits if_splits)
  then obtain j where j: "j < length (vs @ ws)" "i = as_u64 j" "(vs @ ws) ! j = v"
    using sc by (auto simp: scoped_def)
  then have "j < length vs" using i(2) n k by (simp add: word_less_nat_alt)
  then show "\<exists>j < length vs. i = as_u64 j \<and> vs ! j = v" using j by (auto simp: nth_append)
qed (simp add: k)

lemma write_block_with_num:
  assumes "\<And>i s t. W i s = Inr t \<Longrightarrow> brings (results_of (ctx_module (fst s)) i) s t"
  shows "ensures num_frame (write_block_with W b)"
proof (rule ensuresI)
  fix s t assume "write_block_with W b s = Inr t"
  then obtain bl :: Block and s1 s2 s3 s4 where
    1: "put_varint (as_u64 (length (args bl))) s = Inr s1"
    and 2: "for_each (\<lambda>(v, ty) s. and_then (put_type ty s) (\<lambda>s. Inr (register_value v (fst s), snd s))) (args bl) s1 = Inr s2"
    and 3: "put_varint (as_u64 (length (ops bl))) s2 = Inr s3" and 4: "for_each W (ops bl) s3 = Inr s4"
    and 5: "t = ((fst s4)\<lparr>value_map := (\<lambda>v. case value_map (fst s4) v of
                                        Some k \<Rightarrow> if k < next_idx (fst s) then Some k else None
                                      | None \<Rightarrow> None),
                   next_idx := next_idx (fst s)\<rparr>, snd s4)"
    by (rule write_block_withE)
  define ws where "ws = map fst (args bl) @ concat (map (results_of (ctx_module (fst s3))) (ops bl))"
  have b: "brings ws s s4"
    using brings_trans [OF ensuresD [OF num.ok_varint 1] brings_trans [OF block_args_brings [OF 2]
            brings_trans [OF ensuresD [OF num.ok_varint 3] ops_brings [OF assms 4]]]]
    by (simp add: ws_def)
  have g: "growth s t = growth s s4" by (simp add: growth_def 5)
  show "num_frame s t" unfolding brings_def g
  proof (intro conjI allI impI)
    fix vs assume vs: "scoped (fst s) vs" "length vs + growth s s4 < usize_top"
    then have "scoped (fst s4) (vs @ ws)" "length (vs @ ws) < usize_top"
      using b by (auto simp: brings_def)
    then have "scoped (fst t) vs"
      unfolding 5 fst_conv by (rule scoped_rollback) (use vs in \<open>simp add: scoped_def\<close>)
    then show "scoped (fst t) (vs @ [])" by simp
  qed (use b in \<open>simp_all add: brings_def 5\<close>)
qed

lemma write_region_with_num:
  assumes "\<And>b. ensures num_frame (B b)"
  shows "ensures num_frame (write_region_with B r)"
proof (rule ensuresI)
  fix s t assume "write_region_with B r s = Inr t"
  then obtain rg :: Region where "acts [put_varint (as_u64 (length (rg_blocks rg))), for_each B (rg_blocks rg)] s = Inr t"
    unfolding write_region_with_def and_then_eq_Inr by blast
  moreover have "ensures num_frame (acts [put_varint (as_u64 (length (rg_blocks rg))), for_each B (rg_blocks rg)])"
    by (intro num.ok_list num.ok_varint num.ok_for_each assms)
  ultimately show "num_frame s t" using ensuresD by blast
qed

lemma write_operation_brings:
  "write_operation H n i s = Inr t \<Longrightarrow> brings (results_of (ctx_module (fst s)) i) s t"
proof (induction n arbitrary: i s t)
  case (Suc n)
  show ?case
  proof (rule write_operation_with_brings)
    show "ensures num_frame (write_region_with (write_block_with (write_operation H n)) r)" for r
      by (intro write_region_with_num write_block_with_num Suc.IH)
    show "ensures tables_frame (write_region_with (write_block_with (write_operation H n)) r)" for r
      by (intro write_region_with_tables write_block_with_tables write_operation_tables)
    show "write_operation_with H (write_region_with (write_block_with (write_operation H n))) i s = Inr t"
      using Suc.prems by simp
  qed
qed simp

section \<open>Operands\<close>

text \<open>An operand is written as the position of its value in scope.\<close>

lemma put_operand_scoped:
  assumes "put_operand opn v s = Inr t" and "scoped (fst s) vs"
  shows "\<exists>j < length vs. vs ! j = v \<and> t = (fst s, write_varint (as_u64 j) (snd s))"
proof -
  obtain k where k: "value_map (fst s) v = Some k" "t = (fst s, write_varint k (snd s))"
    using assms(1) by (auto simp: put_operand_def operand_index_def ok_or_def put_varint_def put_def split: option.splits)
  then obtain j where "j < length vs" "k = as_u64 j" "vs ! j = v" using assms(2) by (auto simp: scoped_def)
  with k show ?thesis by auto
qed

lemma put_operands_scoped:
  assumes "for_each (put_operand opn) ws s = Inr t" and "scoped (fst s) vs"
  shows "\<exists>js. map ((!) vs) js = ws \<and> (\<forall>j \<in> set js. j < length vs) \<and>
     t = (fst s, fold (\<lambda>j. write_varint (as_u64 j)) js (snd s))"
  using assms
proof (induction ws arbitrary: s)
  case Nil
  then show ?case by (intro exI [of _ "[]"]) simp
next
  case (Cons v ws)
  then obtain s1 where s1: "put_operand opn v s = Inr s1" "for_each (put_operand opn) ws s1 = Inr t"
    by (auto simp: and_then_eq_Inr)
  obtain j where j: "j < length vs" "vs ! j = v" "s1 = (fst s, write_varint (as_u64 j) (snd s))"
    using put_operand_scoped [OF s1(1) Cons.prems(2)] by blast
  then have "scoped (fst s1) vs" using Cons.prems(2) by simp
  from Cons.IH [OF s1(2) this] obtain js where "map ((!) vs) js = ws" "\<forall>j \<in> set js. j < length vs"
     "t = (fst s1, fold (\<lambda>j. write_varint (as_u64 j)) js (snd s1))" by blast
  with j show ?case by (intro exI [of _ "j # js"]) simp
qed

end
