(* ===== verification/Faults.thy ===== *)
theory Faults
  imports StepLogic Writer
begin

text \<open>
  Faults that cannot happen. Two questions about the writer have the shape "no run ends
  with such a fault": whether it runs out of fuel, and whether it misses an operand. For
  both, the parts of the writer that neither recurse nor look up operands raise only other
  faults. The locale \<open>faults\<close> proves this once, for any kind of fault that excludes panics and
  errors that do not concern operands.
\<close>

definition avoids :: "('e fault \<Rightarrow> bool) \<Rightarrow> ('e, 'a) res \<Rightarrow> bool" where
  "avoids bad x \<longleftrightarrow> (\<forall>e. x = Inl e \<longrightarrow> \<not> bad e)"

lemma avoids_simps [simp]: "avoids bad (Inr y)" "avoids bad (Inl e) \<longleftrightarrow> \<not> bad e"
  by (simp_all add: avoids_def)

lemma avoids_and_then: "avoids bad x \<Longrightarrow> (\<And>y. x = Inr y \<Longrightarrow> avoids bad (f y)) \<Longrightarrow> avoids bad (and_then x f)"
  by (cases x) simp_all

lemma avoids_for_each: "(\<And>x s. x \<in> set xs \<Longrightarrow> avoids bad (f x s)) \<Longrightarrow> avoids bad (for_each f xs s)"
  by (induction xs arbitrary: s) (simp_all add: avoids_and_then)

lemma avoids_acts: "(\<And>a s. a \<in> set as \<Longrightarrow> avoids bad (a s)) \<Longrightarrow> avoids bad (acts as s)"
  by (induction as arbitrary: s) (simp_all add: avoids_and_then)

lemma avoids_guarded:
  "avoids bad (a s) \<Longrightarrow> avoids bad (act_if b a s)" "avoids bad (a s) \<Longrightarrow> avoids bad (since_version v a s)"
  by (simp_all add: act_if_def since_version_def)

lemma avoids_harmless: "harmless a \<Longrightarrow> avoids bad (a s)"
  unfolding harmless_def by (metis avoids_simps(1))

locale faults =
  fixes bad :: "write_error fault \<Rightarrow> bool"
  assumes panic: "\<not> bad Panic"
    and plain: "\<not> operand_error e \<Longrightarrow> \<not> bad (Err e)"
begin

lemma index_ok: "avoids bad (index xs k)"
  by (simp add: index_def panic)

lemma lookups_ok: "avoids bad (op m i)" "avoids bad (block m b)" "avoids bad (region m r)"
  by (cases i, simp add: index_ok) (cases b, simp add: index_ok, cases r, simp add: index_ok)

lemma require_version_avoids: "avoids bad (require_version n q v)"
  by (simp add: require_version_def plain)

lemma ok_or_ok: "\<not> operand_error e \<Longrightarrow> avoids bad (ok_or e x)"
  by (cases x) (simp_all add: plain)

lemma gate_ok: "avoids bad (gate n f s)"
  unfolding gate_def by (intro avoids_and_then require_version_avoids) simp

lemma check_hints_ok: "avoids bad (check_hints v e)"
  unfolding check_hints_def
  by (auto simp: require_version_avoids intro!: avoids_and_then split: prod.split option.split)

lemma check_op_hints_ok: "avoids bad (check_op_hints v opn)"
  unfolding check_op_hints_def
  by (intro avoids_for_each) (auto intro!: avoids_for_each check_hints_ok split: prod.split Attribute.split)

lemma return_check_ok:
  "avoids bad (if opcode opn = Op_Return
               then if in_for then Inl (Err (BytecodeWrite ''return is not allowed inside for''))
                    else if in_loop
                         then require_version ''return inside loop'' (feature_since Feat_LoopReturn) v
                         else Inr ()
               else Inr ())"
  by (simp add: plain require_version_avoids)

lemma header_hints_ok_ok: "avoids bad (header_hints_ok v h)"
  by (auto simp: header_hints_ok_def plain split: option.split Attribute.split)

lemma serialize_type_ok: "avoids bad (serialize_type_with_pointer_attribute ty v pa s)"
  by (induction ty arbitrary: pa) (auto simp: plain intro!: avoids_and_then require_version_avoids)

lemma write_type_entries_ok: "avoids bad (write_type_entries tys v k s)"
  by (induction tys arbitrary: k s)
    (auto simp: serialize_type_def serialize_type_ok intro!: avoids_and_then split: prod.split)

lemma patch_offsets_ok: "(\<And>b k x. avoids bad (patch b k x)) \<Longrightarrow> avoids bad (patch_offsets patch p n offs b)"
  unfolding patch_offsets_def by (rule avoids_for_each) (simp split: prod.split)

lemma patch_u32_ok: "avoids bad (patch_u32 b k x)"
  by (simp add: patch_u32_def patch_bytes_def panic)

lemma write_type_section_ok: "avoids bad (write_type_section out tys v)"
  by (auto simp: write_type_section_def Let_def
      intro!: avoids_and_then write_type_entries_ok patch_offsets_ok patch_u32_ok split: prod.split)

lemma write_global_ok: "avoids bad (write_global g s)"
  unfolding write_global_def acts_funs and_then_Inr_right
  by (intro avoids_and_then avoids_guarded gate_ok) (rule avoids_harmless, simp)+

lemma write_global_section_ok: "avoids bad (write_global_section out c)"
  by (auto simp: write_global_section_def Let_def intro!: avoids_and_then avoids_for_each write_global_ok split: prod.split)

lemma self_contained_ok: "avoids bad (write_self_contained_attribute H a s)"
  by (rule avoids_harmless [OF harmless_self_contained])

text \<open>A function, when its body avoids the fault.\<close>

lemma write_function_ok:
  assumes body: "\<And>c. ctx_module c = ctx_module (fst s) \<Longrightarrow>
    avoids bad (write_function_body H n i (c\<lparr>value_map := (\<lambda>_. None), next_idx := 0\<rparr>))"
  shows "avoids bad (write_function H n i s)"
proof -
  have f: "avoids bad (and_then (write_function_body H n i (c\<lparr>value_map := (\<lambda>_. None), next_idx := 0\<rparr>))
      (\<lambda>(ctx, body). Inr (ctx, write_bytes body (write_varint (as_u64 (length body)) w))))"
    if "ctx_module c = ctx_module (fst s)" for c w
    by (rule avoids_and_then [OF body [OF that]]) (simp split: prod.split)
  have k: "ctx_module (fst u) = ctx_module (fst t)" if "write_self_contained_attribute H x t = Inr u" for x t u
    using harmless_self_contained [of H x] that unfolding harmless_def same_values_def by (metis Inr_inject)
  show ?thesis
    unfolding write_function_def Let_def
    by (intro avoids_and_then lookups_ok ok_or_ok)
      (auto intro!: avoids_and_then f self_contained_ok header_hints_ok_ok dest!: k split: prod.split option.split)
qed

text \<open>Without a bound on the recursion to watch, the pre-scan is free of other faults, too.\<close>

lemma check_region_versions_ok:
  assumes "\<not> bad NoFuel"
  shows "avoids bad (check_region_versions n m i v in_loop in_for)"
proof (induction n arbitrary: i in_loop in_for)
  case (Suc n)
  show ?case unfolding check_region_versions.simps
    by (intro avoids_and_then avoids_for_each lookups_ok check_op_hints_ok return_check_ok Suc.IH)
qed (simp add: assms)

lemma prescan_region_avoids:
  assumes "\<not> bad NoFuel"
  shows "avoids bad (prescan_region n m r t)"
proof (induction n arbitrary: r t)
  case (Suc n)
  show ?case unfolding prescan_region.simps by (intro avoids_and_then avoids_for_each lookups_ok Suc.IH)
qed (simp add: assms)

lemma prescan_module_avoids:
  assumes "\<not> bad NoFuel"
  shows "avoids bad (prescan_module m v)"
  unfolding prescan_module_def prescan_function_def
  by (intro avoids_and_then avoids_for_each check_region_versions_ok prescan_region_avoids lookups_ok assms)
    (auto intro!: avoids_and_then require_version_avoids split: option.split)

end

end
