(* ===== verification/WriterFuel.thy ===== *)
theory WriterFuel
  imports WriterInv Faults
begin

text \<open>
  Termination of the writer. Operations nest through handles, so a module can describe a
  cycle, on which the recursive functions of the source do not return. Here the fuel runs
  out exactly then: when no operation nests itself, a chain of nested operations has at
  most as many members as the module has operations, and the fuel the writer starts with
  is enough.
\<close>

section \<open>Nesting\<close>

definition nests :: "Module \<Rightarrow> OpId \<Rightarrow> OpId \<Rightarrow> bool" where
  "nests m i j \<longleftrightarrow> (\<exists>(opn :: Operation) r rg b bl. op m i = (Inr opn :: write_error fault + Operation) \<and>
     r \<in> set (op_regions opn) \<and> region m r = (Inr rg :: write_error fault + Region) \<and>
     b \<in> set (rg_blocks rg) \<and> block m b = (Inr bl :: write_error fault + Block) \<and> j \<in> set (ops bl))"

text \<open>No chain of \<open>n\<close> nested operations starts at \<open>i\<close>.\<close>

fun shallow :: "Module \<Rightarrow> nat \<Rightarrow> OpId \<Rightarrow> bool" where
  "shallow m 0 i = False"
| "shallow m (Suc n) i = (\<forall>j. nests m i j \<longrightarrow> shallow m n j)"

definition acyclic_nesting :: "Module \<Rightarrow> bool" where
  "acyclic_nesting m \<longleftrightarrow> acyclic {(i, j). nests m i j}"

text \<open>A chain of nested operations.\<close>

inductive chain :: "Module \<Rightarrow> OpId list \<Rightarrow> bool" for m where
  chain_one: "chain m [i]"
| chain_Cons: "nests m i j \<Longrightarrow> chain m (j # js) \<Longrightarrow> chain m (i # j # js)"

inductive_cases chain_ConsE: "chain m (i # is)"

lemma deep_chain: "\<not> shallow m n i \<Longrightarrow> \<exists>is. length is = n \<and> chain m (i # is)"
proof (induction n arbitrary: i)
  case 0
  then show ?case by (simp add: chain_one)
next
  case (Suc n)
  then obtain j where j: "nests m i j" "\<not> shallow m n j" by auto
  from Suc.IH [OF j(2)] obtain js where "length js = n" "chain m (j # js)" by blast
  with j(1) show ?case by (intro exI [of _ "j # js"]) (simp add: chain_Cons)
qed

lemma chain_reaches: "chain m (i # is) \<Longrightarrow> j \<in> set is \<Longrightarrow> (i, j) \<in> {(i, j). nests m i j}\<^sup>+"
proof (induction "is" arbitrary: i)
  case (Cons k ks)
  from Cons.prems(1) have k: "nests m i k" "chain m (k # ks)" by (auto elim: chain_ConsE)
  show ?case
  proof (cases "j = k")
    case True
    then show ?thesis using k(1) by auto
  next
    case False
    then have "(k, j) \<in> {(i, j). nests m i j}\<^sup>+" using Cons k by simp
    then show ?thesis using k(1) by (auto intro: trancl_into_trancl2)
  qed
qed simp

lemma chain_distinct: "acyclic_nesting m \<Longrightarrow> chain m is \<Longrightarrow> distinct is"
proof (induction "is")
  case (Cons i "is")
  have "i \<notin> set is" using chain_reaches [OF Cons.prems(2)] Cons.prems(1) by (auto simp: acyclic_nesting_def acyclic_def)
  moreover have "distinct is" using Cons by (cases "is") (auto elim: chain_ConsE)
  ultimately show ?case by simp
qed simp

fun op_index :: "OpId \<Rightarrow> nat" where
  "op_index (OpId i) = unat i"

lemma op_index_inj: "inj op_index"
  by (rule injI) (metis OpId.exhaust op_index.simps word_unat_eq_iff)

lemma op_index_valid: "op m i = (Inr opn :: write_error fault + Operation) \<Longrightarrow> op_index i < length (operations m)"
  by (cases i) (auto simp: index_def split: if_splits)

lemma chain_valid: "chain m (is @ [j]) \<Longrightarrow> i \<in> set is \<Longrightarrow> op_index i < length (operations m)"
proof (induction "is")
  case (Cons k ks)
  obtain k' ks' where k': "ks @ [j] = k' # ks'" by (cases ks) auto
  then have "nests m k k'" "chain m (ks @ [j])" using Cons.prems(1) by (auto elim: chain_ConsE)
  moreover from this have "op_index k < length (operations m)" by (auto simp: nests_def intro: op_index_valid)
  ultimately show ?case using Cons by auto
qed simp

lemma acyclic_shallow:
  assumes "acyclic_nesting m"
  shows "shallow m (module_fuel m) i"
proof (rule ccontr)
  assume "\<not> shallow m (module_fuel m) i"
  from deep_chain [OF this] obtain is0 where is0: "length is0 = module_fuel m" "chain m (i # is0)" by blast
  then obtain js j where js: "i # is0 = js @ [j]" by (metis list.distinct(1) rev_exhaust)
  have n: "length js = module_fuel m" using is0(1) arg_cong [OF js, of length] by simp
  have "distinct js" using chain_distinct [OF assms is0(2)] unfolding js by simp
  moreover have "inj_on op_index (set js)" using op_index_inj by (rule inj_on_subset) simp
  ultimately have "card (op_index ` set js) = length js" by (simp add: card_image distinct_card)
  moreover have "op_index ` set js \<subseteq> {..<length (operations m)}"
    using chain_valid [of m js j] is0(2) unfolding js by auto
  then have "card (op_index ` set js) \<le> length (operations m)" using card_mono [of "{..<length (operations m)}"] by simp
  ultimately show False using n by (simp add: module_fuel_def)
qed

section \<open>Steps that return\<close>

text \<open>A fallible computation returned, with a result, an error or a panic.\<close>

definition returns :: "'e fault + 'a \<Rightarrow> bool" where
  "returns x \<longleftrightarrow> avoids (\<lambda>e. e = NoFuel) x"

lemma returns_simps [simp]: "returns (Inr y)" "returns (Inl (Err e))" "returns (Inl Panic)" "\<not> returns (Inl NoFuel)"
  by (simp_all add: returns_def)

definition settles :: "Module \<Rightarrow> step \<Rightarrow> bool" where
  "settles m a \<longleftrightarrow> (\<forall>s. ctx_module (fst s) = m \<longrightarrow> returns (a s) \<and> (\<forall>t. a s = Inr t \<longrightarrow> ctx_module (fst t) = m))"

lemma settlesI:
  assumes "\<And>s. ctx_module (fst s) = m \<Longrightarrow> returns (a s)"
    and "\<And>s t. ctx_module (fst s) = m \<Longrightarrow> a s = Inr t \<Longrightarrow> ctx_module (fst t) = m"
  shows "settles m a"
  unfolding settles_def using assms by blast

lemma settlesD:
  assumes "settles m a" and "ctx_module (fst s) = m"
  shows "returns (a s)" and "a s = Inr t \<Longrightarrow> ctx_module (fst t) = m"
  using assms unfolding settles_def by blast+

lemma and_then_returns:
  "returns x \<Longrightarrow> (\<And>y. x = Inr y \<Longrightarrow> returns (f y)) \<Longrightarrow> returns (and_then x f)"
  unfolding returns_def by (rule avoids_and_then)

interpretation fuel_faults: faults "\<lambda>e. e = NoFuel"
  by unfold_locales simp_all

lemma index_returns [simp]: "returns (index xs k)"
  by (simp add: index_def)

lemma lookups_return [simp]:
  "returns (op m i)" "returns (block m b)" "returns (region m r)" "returns (value_data m v)"
  by (cases i, simp) (cases b, simp, cases r, simp, cases v, simp)

lemma settles_acts: "(\<And>a. a \<in> set as \<Longrightarrow> settles m a) \<Longrightarrow> settles m (acts as)"
proof (induction as)
  case Nil
  then show ?case by (simp add: settles_def acts_funs)
next
  case (Cons a as)
  have a: "settles m a" and as: "settles m (acts as)" using Cons by simp_all
  show ?case
  proof (rule settlesI)
    fix s :: wstate assume s: "ctx_module (fst s) = m"
    show "returns (acts (a # as) s)"
      unfolding acts_funs by (intro and_then_returns settlesD(1) [OF a s] settlesD(1) [OF as] settlesD(2) [OF a s])
    show "ctx_module (fst t) = m" if "acts (a # as) s = Inr t" for t
      using that settlesD(2) [OF a s] settlesD(2) [OF as] unfolding acts_funs and_then_eq_Inr by blast
  qed
qed

interpretation fuel: step_closed "settles m" opn for m opn
proof
  fix as :: "step list" assume "\<And>a. a \<in> set as \<Longrightarrow> settles m a"
  then show "settles m (acts as)" by (rule settles_acts)
next
  fix f assume "appending f"
  then show "settles m (put f)" by (simp add: settles_def put_def)
next
  fix ty show "settles m (put_type ty)" by (auto simp: settles_def put_type_def split: prod.splits)
next
  fix str show "settles m (put_string str)" by (auto simp: settles_def put_string_def split: prod.splits)
next
  fix d show "settles m (put_constant d)" by (auto simp: settles_def put_constant_def split: prod.splits)
next
  fix n f show "settles m (gate n f)"
    by (auto simp: settles_def gate_def require_version_def)
next
  fix e :: write_error show "settles m (\<lambda>s. Inl (Err e))" by (simp add: settles_def)
next
  fix v show "settles m (put_operand opn v)"
    by (auto simp: settles_def put_operand_def operand_index_def ok_or_def put_varint_def put_def split: option.splits)
next
  fix e off i show "settles m (put_group_operand e opn off i)"
    by (auto simp: settles_def put_group_operand_def ok_or_def put_varint_def put_def index_def split: option.splits)
next
  fix k show "settles m (\<lambda>s. and_then (index (operands opn) k) (\<lambda>v. put_operand opn v s))"
    by (auto simp: settles_def put_operand_def operand_index_def ok_or_def put_varint_def put_def index_def
        split: option.splits)
next
  fix g :: "nat \<times> bool \<Rightarrow> step" assume g: "\<And>x. settles m (g x)"
  have "returns (print_operand_groups opn c)" for c
    unfolding print_operand_groups_def value_type_def Let_def
    by (simp add: and_then_returns)
  then have "returns (and_then (print_operand_groups opn (fst s)) (\<lambda>x. g x s))" if "ctx_module (fst s) = m" for s
    by (rule and_then_returns) (rule settlesD(1) [OF g that])
  moreover have "ctx_module (fst t) = m"
    if "ctx_module (fst s) = m" and "and_then (print_operand_groups opn (fst s)) (\<lambda>x. g x s) = Inr t" for s t
    using that(2) settlesD(2) [OF g that(1)] unfolding and_then_eq_Inr by blast
  ultimately show "settles m (\<lambda>s. and_then (print_operand_groups opn (fst s)) (\<lambda>x. g x s))"
    by (intro settlesI)
next
  fix a v assume "settles m a"
  then show "settles m (since_version v a)"
    unfolding settles_def since_version_def act_if_def by (metis Inr_inject returns_simps(1))
qed

section \<open>Operations, regions and blocks\<close>

text \<open>The end of a block as a step, and a block as a sequence of steps.\<close>

definition rollback :: "u64 \<Rightarrow> step" where
  "rollback saved s =
     Inr ((fst s)\<lparr>value_map := (\<lambda>v. case value_map (fst s) v of
                                  Some k \<Rightarrow> if k < saved then Some k else None
                                | None \<Rightarrow> None),
                  next_idx := saved\<rparr>, snd s)"

definition block_arg :: "Value \<times> Type \<Rightarrow> step" where
  "block_arg = (\<lambda>(v, ty) s. and_then (put_type ty s) (\<lambda>s. Inr (register_value v (fst s), snd s)))"

lemma write_block_with_acts:
  "write_block_with W b s =
     and_then (block (ctx_module (fst s)) b) (\<lambda>bl.
       acts [put_varint (as_u64 (length (args bl))), for_each block_arg (args bl),
             put_varint (as_u64 (length (ops bl))), for_each W (ops bl), rollback (next_idx (fst s))] s)"
proof -
  have "and_then x (rollback k) = and_then x (\<lambda>s. Inr ((fst s)\<lparr>value_map := (\<lambda>v. case value_map (fst s) v of
       Some j \<Rightarrow> if j < k then Some j else None | None \<Rightarrow> None), next_idx := k\<rparr>, snd s))" for x k
    by (rule arg_cong [where f = "and_then x"]) (rule ext, simp add: rollback_def)
  then show ?thesis by (simp add: write_block_with_def Let_def acts_funs block_arg_def)
qed

lemma settles_rollback: "settles m (rollback k)"
  by (simp add: settles_def rollback_def)

lemma settles_block_arg: "settles m (block_arg x)"
proof -
  obtain v ty where x: "x = (v, ty)" by fastforce
  have "block_arg x = acts [put_type ty, \<lambda>s. Inr (register_value v (fst s), snd s)]"
    by (rule ext) (simp add: x block_arg_def acts_funs)
  moreover have "settles m (\<lambda>s. Inr (register_value v (fst s), snd s))" by (simp add: settles_def)
  ultimately show ?thesis by (auto intro!: fuel.ok_list fuel.ok_harmless(1))
qed

lemma settles_lookup:
  fixes get :: "Module \<Rightarrow> write_error fault + 'b" and g :: "'b \<Rightarrow> wstate \<Rightarrow> step"
  assumes "returns (get m)" and "\<And>x s. get m = Inr x \<Longrightarrow> settles m (g x s)"
  shows "settles m (\<lambda>s. and_then (get (ctx_module (fst s))) (\<lambda>x. g x s s))"
proof (rule settlesI)
  fix s :: wstate assume s: "ctx_module (fst s) = m"
  show "returns (and_then (get (ctx_module (fst s))) (\<lambda>x. g x s s))"
    unfolding s by (rule and_then_returns [OF assms(1)]) (rule settlesD(1) [OF assms(2) s])
  fix t assume "and_then (get (ctx_module (fst s))) (\<lambda>x. g x s s) = Inr t"
  then obtain x where "get m = Inr x" "g x s s = Inr t" unfolding s and_then_eq_Inr by blast
  then show "ctx_module (fst t) = m" using settlesD(2) [OF assms(2) s] by blast
qed

lemma write_block_with_settles:
  assumes "\<And>bl i. block m b = (Inr bl :: write_error fault + Block) \<Longrightarrow> i \<in> set (ops bl) \<Longrightarrow> settles m (W i)"
  shows "settles m (write_block_with W b)"
proof -
  let ?g = "\<lambda>bl s. acts [put_varint (as_u64 (length (args bl))), for_each block_arg (args bl),
             put_varint (as_u64 (length (ops bl))), for_each W (ops bl), rollback (next_idx (fst s))]"
  have "write_block_with W b = (\<lambda>s. and_then (block (ctx_module (fst s)) b) (\<lambda>bl. ?g bl s s))"
    by (rule ext) (rule write_block_with_acts)
  moreover have "settles m (\<lambda>s. and_then (block (ctx_module (fst s)) b) (\<lambda>bl. ?g bl s s))"
    by (intro settles_lookup [where g = ?g and get = "\<lambda>m. block m b"] lookups_return fuel.ok_list fuel.ok_varint
        fuel.ok_for_each settles_block_arg settles_rollback) (rule assms)
  ultimately show ?thesis by simp
qed

lemma write_region_with_settles:
  assumes "\<And>rg b. region m r = (Inr rg :: write_error fault + Region) \<Longrightarrow> b \<in> set (rg_blocks rg) \<Longrightarrow> settles m (B b)"
  shows "settles m (write_region_with B r)"
proof -
  have "write_region_with B r = (\<lambda>s. and_then (region (ctx_module (fst s)) r) (\<lambda>rg.
       acts [put_varint (as_u64 (length (rg_blocks rg))), for_each B (rg_blocks rg)] s))"
    by (rule ext) (simp add: write_region_with_def)
  moreover have "settles m (\<lambda>s. and_then (region (ctx_module (fst s)) r) (\<lambda>rg.
       acts [put_varint (as_u64 (length (rg_blocks rg))), for_each B (rg_blocks rg)] s))"
    by (intro settles_lookup [where get = "\<lambda>m. region m r" and
          g = "\<lambda>rg s. acts [put_varint (as_u64 (length (rg_blocks rg))), for_each B (rg_blocks rg)]"]
        lookups_return fuel.ok_list fuel.ok_varint fuel.ok_for_each) (rule assms)
  ultimately show ?thesis by simp
qed

lemma write_operation_with_settles:
  assumes "\<And>opn r. op m i = (Inr opn :: write_error fault + Operation) \<Longrightarrow> r \<in> set (op_regions opn) \<Longrightarrow> settles m (R r)"
  shows "settles m (write_operation_with H R i)"
proof -
  let ?g = "\<lambda>opn s. acts [\<lambda>s. Inr (record_location (location opn) (fst s), snd s), put_varint (ucast (as_u16 (opcode opn))),
     write_op_body H R opn, \<lambda>s. Inr (register_results i opn (fst s), snd s)]"
  have "settles m (\<lambda>s. Inr (record_location (location opn) (fst s), snd s))" for opn :: Operation
    by (simp add: settles_def record_location_def split: prod.splits)
  moreover have "settles m (\<lambda>s. Inr (register_results i opn (fst s), snd s))" for opn :: Operation
    by (simp add: settles_def)
  ultimately have "settles m (\<lambda>s. and_then (op (ctx_module (fst s)) i) (\<lambda>opn. ?g opn s s))"
    by (intro settles_lookup [where g = ?g and get = "\<lambda>m. op m i"] lookups_return fuel.ok_list fuel.ok_varint
        fuel.ok_op_body) (assumption | rule assms)+
  moreover have "write_operation_with H R i = (\<lambda>s. and_then (op (ctx_module (fst s)) i) (\<lambda>opn. ?g opn s s))"
    by (rule ext) (simp add: write_operation_with_def acts_funs)
  ultimately show ?thesis by simp
qed

lemma write_operation_settles: "shallow m n i \<Longrightarrow> settles m (write_operation H n i)"
proof (induction n arbitrary: i)
  case (Suc n)
  have "settles m (write_operation_with H (write_region_with (write_block_with (write_operation H n))) i)"
  proof (intro write_operation_with_settles write_region_with_settles write_block_with_settles Suc.IH)
    fix opn r rg b bl j
    assume "op m i = (Inr opn :: write_error fault + Operation)" "r \<in> set (op_regions opn)"
      "region m r = (Inr rg :: write_error fault + Region)" "b \<in> set (rg_blocks rg)"
      "block m b = (Inr bl :: write_error fault + Block)" "j \<in> set (ops bl)"
    then have "nests m i j" unfolding nests_def by blast
    then show "shallow m n j" using Suc.prems by simp
  qed
  moreover have "write_operation H (Suc n) i = write_operation_with H (write_region_with (write_block_with (write_operation H n))) i"
    by (rule ext) simp
  ultimately show ?case by simp
qed simp

section \<open>Checks and pre-scan\<close>

lemma for_each_returns: "(\<And>x s. x \<in> set xs \<Longrightarrow> returns (f x s)) \<Longrightarrow> returns (for_each f xs s)"
  unfolding returns_def by (rule avoids_for_each)

lemmas require_version_returns [simp] = fuel_faults.require_version_avoids [folded returns_def]
lemmas check_op_hints_returns = fuel_faults.check_op_hints_ok [folded returns_def]

lemma check_region_versions_returns: "shallow m n i \<Longrightarrow> returns (check_region_versions n m i v in_loop in_for)"
proof (induction n arbitrary: i in_loop in_for)
  case (Suc n)
  have "returns (check_region_versions n m j v l f)"
    if "op m i = (Inr opn :: write_error fault + Operation)" "r \<in> set (op_regions opn)"
      "region m r = (Inr rg :: write_error fault + Region)" "b \<in> set (rg_blocks rg)"
      "block m b = (Inr bl :: write_error fault + Block)" "j \<in> set (ops bl)" for opn r rg b bl j l f
  proof (rule Suc.IH)
    have "nests m i j" unfolding nests_def using that by blast
    then show "shallow m n j" using Suc.prems by simp
  qed
  then show ?case
    unfolding check_region_versions.simps
    by (intro and_then_returns for_each_returns lookups_return check_op_hints_returns) simp_all
qed simp

lemma prescan_region_returns:
  assumes "\<And>rg b bl i. region m r = (Inr rg :: write_error fault + Region) \<Longrightarrow> b \<in> set (rg_blocks rg) \<Longrightarrow>
    block m b = (Inr bl :: write_error fault + Block) \<Longrightarrow> i \<in> set (ops bl) \<Longrightarrow> shallow m n i"
  shows "returns (prescan_region (Suc n) m r t)"
  using assms
proof (induction n arbitrary: r t)
  case 0
  have "ops bl = []" if "region m r = (Inr rg :: write_error fault + Region)" "b \<in> set (rg_blocks rg)"
      "block m b = (Inr bl :: write_error fault + Block)" for rg b bl
    using 0 [OF that] by (cases "ops bl") auto
  then show ?case unfolding prescan_region.simps(2)
    by (intro and_then_returns for_each_returns lookups_return) auto
next
  case (Suc n)
  have "returns (prescan_region (Suc n) m r' t)"
    if "region m r = (Inr rg :: write_error fault + Region)" "b \<in> set (rg_blocks rg)"
      "block m b = (Inr bl :: write_error fault + Block)" "i \<in> set (ops bl)"
      "op m i = (Inr opn :: write_error fault + Operation)" "r' \<in> set (op_regions opn)" for rg b bl i opn r' t
  proof (rule Suc.IH)
    fix rg' b' bl' j assume "region m r' = (Inr rg' :: write_error fault + Region)" "b' \<in> set (rg_blocks rg')"
      "block m b' = (Inr bl' :: write_error fault + Block)" "j \<in> set (ops bl')"
    then have "nests m i j" unfolding nests_def using that by blast
    then show "shallow m n j" using Suc.prems [OF that(1-4)] by simp
  qed
  then show ?case unfolding prescan_region.simps(2) [of "Suc n"]
    by (intro and_then_returns for_each_returns lookups_return)
qed

lemma prescan_function_returns:
  assumes "shallow m (Suc n) i"
  shows "returns (prescan_function (Suc n) m i t)"
proof -
  have "returns (prescan_region (Suc n) m r t)"
    if "op m i = (Inr opn :: write_error fault + Operation)" "r \<in> set (op_regions opn)" for opn r t
  proof (rule prescan_region_returns)
    fix rg b bl j assume "region m r = (Inr rg :: write_error fault + Region)" "b \<in> set (rg_blocks rg)"
      "block m b = (Inr bl :: write_error fault + Block)" "j \<in> set (ops bl)"
    then have "nests m i j" unfolding nests_def using that by blast
    then show "shallow m n j" using assms by simp
  qed
  then show ?thesis unfolding prescan_function_def by (intro and_then_returns for_each_returns lookups_return)
qed

lemma prescan_module_returns:
  assumes "acyclic_nesting m"
  shows "returns (prescan_module m v)"
proof -
  have s: "shallow m (module_fuel m) i" for i using acyclic_shallow [OF assms] .
  have "returns (prescan_function (module_fuel m) m i t)" for i t
    using prescan_function_returns [of m "length (operations m)"] s [of i] by (simp only: module_fuel_def)
  with check_region_versions_returns [OF s] show ?thesis
    unfolding prescan_module_def by (intro and_then_returns for_each_returns) (auto intro!: and_then_returns split: option.split)
qed

end
