(* ===== verification/Verify.thy ===== *)
theory Verify
  imports Numbering WriterFuel
begin

text \<open>
  The two verifiers of \<open>cutile-ir/src/ir/module.rs\<close>, which a compiler runs before it writes
  bytecode: \<open>verify_dominance\<close> checks that every operand is visible where it is used,
  \<open>verify_bytecode_indices\<close> simulates the value numbering of the writer. Both collect
  messages; a message is modelled by its arguments instead of its text. The dominance
  verifier is proved equivalent to a definition of program points and the values visible
  there.
\<close>

section \<open>Dominance\<close>

datatype verify_error =
    DoesNotDominate OpId nat Opcode OpId Value
  | NotInValueMap OpId nat Opcode OpId Value u64
  | FixedResultCount OpId Opcode OpId nat nat
  | ResultWithoutValue OpId Opcode OpId nat nat

text \<open>\<open>Error::Verification\<close> joins the messages.\<close>

datatype verify_failure = Verification "verify_error list"

type_synonym 'a vres = "(verify_failure, 'a) res"

definition missing_operands :: "(nat \<Rightarrow> Value \<Rightarrow> verify_error) \<Rightarrow> (Value \<Rightarrow> bool) \<Rightarrow> Value list \<Rightarrow> verify_error list" where
  "missing_operands err known vs = map (\<lambda>(i, v). err i v) (List.filter (\<lambda>(_, v). \<not> known v) (enumerate 0 vs))"

definition see_results :: "Module \<Rightarrow> OpId \<Rightarrow> Operation \<Rightarrow> Value set \<Rightarrow> Value set" where
  "see_results m i opn visible =
     fold (\<lambda>k vis. case find_op_result m i (as_u32 k) of Some v \<Rightarrow> insert v vis | None \<Rightarrow> vis)
       [0..<length (result_types opn)] visible"

text \<open>One iteration of the loop of \<open>verify_block\<close>; \<open>R\<close> verifies a nested region.\<close>

definition verify_block_op ::
  "(RegionId \<Rightarrow> Value set \<Rightarrow> verify_error list \<Rightarrow> verify_error list vres) \<Rightarrow> Module \<Rightarrow> OpId \<Rightarrow> OpId
    \<Rightarrow> Value set \<times> verify_error list \<Rightarrow> (Value set \<times> verify_error list) vres" where
  "verify_block_op R m func i = (\<lambda>(visible, errors).
     and_then (op m i) (\<lambda>opn.
       let errors = errors @ missing_operands (\<lambda>k v. DoesNotDominate func k (opcode opn) i v) (\<lambda>v. v \<in> visible) (operands opn);
           visible = see_results m i opn visible
       in and_then (for_each (\<lambda>r errors. R r visible errors) (op_regions opn) errors) (\<lambda>errors.
            Inr (visible, errors))))"

definition verify_block_with ::
  "(RegionId \<Rightarrow> Value set \<Rightarrow> verify_error list \<Rightarrow> verify_error list vres) \<Rightarrow> Module \<Rightarrow> OpId \<Rightarrow> Value set \<Rightarrow> BlockId
    \<Rightarrow> verify_error list \<Rightarrow> verify_error list vres" where
  "verify_block_with R m func parent_visible b errors =
     and_then (block m b) (\<lambda>bl.
     and_then (for_each (verify_block_op R m func) (ops bl)
                 (fold (\<lambda>(v, _). insert v) (args bl) parent_visible, errors)) (\<lambda>(_, errors).
       Inr errors))"

fun verify_region ::
  "nat \<Rightarrow> Module \<Rightarrow> OpId \<Rightarrow> RegionId \<Rightarrow> Value set \<Rightarrow> verify_error list \<Rightarrow> verify_error list vres" where
  "verify_region 0 m func r parent_visible errors = Inl NoFuel"
| "verify_region (Suc n) m func r parent_visible errors =
     and_then (region m r) (\<lambda>rg.
       for_each (verify_block_with (verify_region n m func) m func parent_visible) (rg_blocks rg) errors)"

definition verify_dominance :: "Module \<Rightarrow> unit vres" where
  "verify_dominance m =
     and_then (for_each (\<lambda>func errors.
         and_then (op m func) (\<lambda>func_op.
           for_each (\<lambda>r errors. verify_region (module_fuel m) m func r {} errors) (op_regions func_op) errors))
       (mod_functions m) []) (\<lambda>errors.
     if errors = [] then Inr () else Inl (Err (Verification errors)))"

section \<open>Value indices\<close>

type_synonym bc_state = "(Value \<rightharpoonup> u64) \<times> u64 \<times> verify_error list"

definition bc_register :: "Value \<Rightarrow> bc_state \<Rightarrow> bc_state" where
  "bc_register v = (\<lambda>(vmap, next, errors). (vmap(v \<mapsto> next), next + 1, errors))"

definition bc_result :: "Module \<Rightarrow> OpId \<Rightarrow> OpId \<Rightarrow> Operation \<Rightarrow> nat \<Rightarrow> bc_state \<Rightarrow> bc_state" where
  "bc_result m func i opn k s =
     (case find_op_result m i (as_u32 k) of
        Some v \<Rightarrow> bc_register v s
      | None \<Rightarrow> (case s of (vmap, next, errors) \<Rightarrow>
          (vmap, next + 1,
           errors @ [ResultWithoutValue func (opcode opn) i (length (result_types opn)) k])))"

definition bc_count_errors :: "OpId \<Rightarrow> OpId \<Rightarrow> Operation \<Rightarrow> verify_error list" where
  "bc_count_errors func i opn =
     (case fixed_result_count (opcode opn) of
        Some expected \<Rightarrow>
          if length (result_types opn) \<noteq> expected
          then [FixedResultCount func (opcode opn) i (length (result_types opn)) expected] else []
      | None \<Rightarrow> [])"

definition verify_bc_operation_with ::
  "(BlockId \<Rightarrow> bc_state \<Rightarrow> bc_state vres) \<Rightarrow> Module \<Rightarrow> OpId \<Rightarrow> OpId \<Rightarrow> bc_state \<Rightarrow> bc_state vres" where
  "verify_bc_operation_with B m func i = (\<lambda>(vmap, next, errors).
     and_then (op m i) (\<lambda>opn.
       let errors = errors
             @ missing_operands (\<lambda>k v. NotInValueMap func k (opcode opn) i v next) (\<lambda>v. vmap v \<noteq> None) (operands opn)
             @ bc_count_errors func i opn;
           s = fold (bc_result m func i opn) [0..<length (result_types opn)] (vmap, next, errors)
       in for_each (\<lambda>r s. and_then (region m r) (\<lambda>rg. for_each B (rg_blocks rg) s)) (op_regions opn) s))"

definition verify_bc_block_with ::
  "(OpId \<Rightarrow> bc_state \<Rightarrow> bc_state vres) \<Rightarrow> Module \<Rightarrow> BlockId \<Rightarrow> bc_state \<Rightarrow> bc_state vres" where
  "verify_bc_block_with W m b s =
     (let saved_next_idx = fst (snd s) in
      and_then (block m b) (\<lambda>bl.
      and_then (for_each W (ops bl) (fold (\<lambda>(v, _). bc_register v) (args bl) s)) (\<lambda>(vmap, _, errors).
        Inr (\<lambda>v. case vmap v of
               Some k \<Rightarrow> if k < saved_next_idx then Some k else None
             | None \<Rightarrow> None, saved_next_idx, errors))))"

fun verify_bc_operation :: "nat \<Rightarrow> Module \<Rightarrow> OpId \<Rightarrow> OpId \<Rightarrow> bc_state \<Rightarrow> bc_state vres" where
  "verify_bc_operation 0 m func i s = Inl NoFuel"
| "verify_bc_operation (Suc n) m func i s =
     verify_bc_operation_with (verify_bc_block_with (verify_bc_operation n m func) m) m func i s"

definition verify_bc_block :: "nat \<Rightarrow> Module \<Rightarrow> OpId \<Rightarrow> BlockId \<Rightarrow> bc_state \<Rightarrow> bc_state vres" where
  "verify_bc_block n m func = verify_bc_block_with (verify_bc_operation n m func) m"

definition verify_bc_function :: "nat \<Rightarrow> Module \<Rightarrow> OpId \<Rightarrow> verify_error list \<Rightarrow> verify_error list vres" where
  "verify_bc_function n m func errors =
     and_then (op m func) (\<lambda>func_op.
       case op_regions func_op of
         [] \<Rightarrow> Inr errors
       | r # _ \<Rightarrow>
           and_then (region m r) (\<lambda>rg.
             case rg_blocks rg of
               [] \<Rightarrow> Inr errors
             | b # _ \<Rightarrow>
                 and_then (block m b) (\<lambda>bl.
                 and_then (for_each (verify_bc_operation n m func) (ops bl)
                             (fold (\<lambda>(v, _). bc_register v) (args bl) (\<lambda>_. None, 0, errors))) (\<lambda>(_, _, errors).
                   Inr errors))))"

definition verify_bytecode_indices :: "Module \<Rightarrow> unit vres" where
  "verify_bytecode_indices m =
     and_then (for_each (verify_bc_function (module_fuel m) m) (mod_functions m) []) (\<lambda>errors.
     if errors = [] then Inr () else Inl (Err (Verification errors)))"

section \<open>Program points\<close>

text \<open>
  The operation \<open>i\<close> stands in region \<open>r\<close> at a point where the values \<open>ws\<close> are in scope,
  when the values \<open>vs\<close> are in scope at the region itself. With \<open>own\<close>, an operation's results
  are in scope in its own regions, which is the rule of the verifiers; the writer registers
  them after the regions.
\<close>

type_synonym lookup_op = "(write_error, Operation) res"
type_synonym lookup_region = "(write_error, Region) res"
type_synonym lookup_block = "(write_error, Block) res"

definition in_region :: "Module \<Rightarrow> RegionId \<Rightarrow> Value list \<Rightarrow> Value list \<Rightarrow> OpId \<Rightarrow> bool" where
  "in_region m r vs ws i \<longleftrightarrow> (\<exists>rg b bl pre post. region m r = (Inr rg :: lookup_region) \<and> b \<in> set (rg_blocks rg) \<and>
     block m b = (Inr bl :: lookup_block) \<and> ops bl = pre @ i # post \<and>
     ws = vs @ map fst (args bl) @ concat (map (results_of m) pre))"

inductive at_point :: "bool \<Rightarrow> Module \<Rightarrow> RegionId \<Rightarrow> Value list \<Rightarrow> Value list \<Rightarrow> OpId \<Rightarrow> bool" for own m where
  here: "in_region m r vs ws i \<Longrightarrow> at_point own m r vs ws i"
| inner: "in_region m r vs us j \<Longrightarrow> op m j = (Inr opn :: lookup_op) \<Longrightarrow> r' \<in> set (op_regions opn) \<Longrightarrow>
    at_point own m r' (us @ (if own then results_of m j else [])) ws i \<Longrightarrow> at_point own m r vs ws i"

inductive_cases at_pointE: "at_point own m r vs ws i"

text \<open>Every operand in the region is in scope.\<close>

definition operands_visible :: "bool \<Rightarrow> Module \<Rightarrow> RegionId \<Rightarrow> Value list \<Rightarrow> bool" where
  "operands_visible own m r vs \<longleftrightarrow> (\<forall>ws i opn. at_point own m r vs ws i \<longrightarrow> op m i = (Inr opn :: lookup_op) \<longrightarrow>
     set (operands opn) \<subseteq> set ws)"

lemma operands_visible_unfold:
  "operands_visible own m r vs \<longleftrightarrow> (\<forall>ws i opn. in_region m r vs ws i \<longrightarrow> op m i = (Inr opn :: lookup_op) \<longrightarrow>
     set (operands opn) \<subseteq> set ws \<and>
     (\<forall>r' \<in> set (op_regions opn). operands_visible own m r' (ws @ (if own then results_of m i else []))))"
  unfolding operands_visible_def by (safe; blast intro: here inner elim: at_pointE)

lemma lookup_transfer:
  "op m i = (Inr opn :: ('e, Operation) res) \<longleftrightarrow> op m i = (Inr opn :: lookup_op)"
  "region m r = (Inr rg :: ('e, Region) res) \<longleftrightarrow> region m r = (Inr rg :: lookup_region)"
  "block m b = (Inr bl :: ('e, Block) res) \<longleftrightarrow> block m b = (Inr bl :: lookup_block)"
  by (cases i, simp add: index_def) (cases r, simp add: index_def, cases b, simp add: index_def)

section \<open>The dominance verifier is exact\<close>

lemma missing_operands_Nil: "missing_operands err known vs = [] \<longleftrightarrow> (\<forall>v \<in> set vs. known v)"
proof -
  have "(\<forall>x \<in> set (enumerate 0 vs). case x of (_, v) \<Rightarrow> known v) \<longleftrightarrow> (\<forall>v \<in> snd ` set (enumerate 0 vs). known v)" by auto
  moreover have "snd ` set (enumerate 0 vs) = set vs" by (metis map_snd_enumerate set_map)
  ultimately show ?thesis by (auto simp: missing_operands_def filter_empty_conv)
qed

lemma see_results_eq: "see_results m i opn vis = vis \<union> set (op_results m i opn)"
proof -
  have "fold (\<lambda>k vis. case find_op_result m i (as_u32 k) of Some v \<Rightarrow> insert v vis | None \<Rightarrow> vis) ks vis
      = vis \<union> set (List.map_filter (\<lambda>k. find_op_result m i (as_u32 k)) ks)" for ks vis
    by (induction ks arbitrary: vis) (auto simp: List.map_filter_simps split: option.split)
  then show ?thesis by (simp add: see_results_def op_results_def)
qed

lemma results_of_op: "op m i = (Inr opn :: lookup_op) \<Longrightarrow> results_of m i = op_results m i opn"
  by (simp add: results_of_def)

text \<open>What verifying adds to the messages: nothing exactly when the condition holds.\<close>

definition reports :: "bool \<Rightarrow> verify_error list \<Rightarrow> verify_error list \<Rightarrow> bool" where
  "reports good errors errors' \<longleftrightarrow> (\<exists>new. errors' = errors @ new \<and> (new = [] \<longleftrightarrow> good))"

lemma reports_trans: "reports a es es' \<Longrightarrow> reports b es' es'' \<Longrightarrow> reports (a \<and> b) es es''"
  by (auto simp: reports_def)

lemma for_each_reports:
  assumes "\<And>x es es'. x \<in> set xs \<Longrightarrow> f x es = Inr es' \<Longrightarrow> reports (P x) es es'" and "for_each f xs es = Inr es'"
  shows "reports (\<forall>x \<in> set xs. P x) es es'"
  using assms
proof (induction xs arbitrary: es)
  case Nil
  then show ?case by (simp add: reports_def)
next
  case (Cons x xs)
  then obtain es1 where "f x es = Inr es1" "for_each f xs es1 = Inr es'" by (auto simp: and_then_eq_Inr)
  then have "reports (P x) es es1" "reports (\<forall>x \<in> set xs. P x) es1 es'" using Cons by auto
  from reports_trans [OF this] show ?case by simp
qed

text \<open>The condition on the operations of a block, one after the other.\<close>

fun ops_visible :: "Module \<Rightarrow> Value list \<Rightarrow> OpId list \<Rightarrow> bool" where
  "ops_visible m us [] = True"
| "ops_visible m us (i # is) \<longleftrightarrow>
     (\<forall>opn. op m i = (Inr opn :: lookup_op) \<longrightarrow> set (operands opn) \<subseteq> set us \<and>
        (\<forall>r \<in> set (op_regions opn). operands_visible True m r (us @ results_of m i))) \<and>
     ops_visible m (us @ results_of m i) is"

lemma ops_visible_split:
  "ops_visible m us is \<longleftrightarrow> (\<forall>pre i post opn. is = pre @ i # post \<longrightarrow> op m i = (Inr opn :: lookup_op) \<longrightarrow>
      set (operands opn) \<subseteq> set (us @ concat (map (results_of m) pre)) \<and>
      (\<forall>r \<in> set (op_regions opn). operands_visible True m r (us @ concat (map (results_of m) pre) @ results_of m i)))"
  (is "_ \<longleftrightarrow> ?P us is")
proof (induction "is" arbitrary: us)
  case (Cons i "is")
  have "?P us (i # is) \<longleftrightarrow> (\<forall>opn. op m i = (Inr opn :: lookup_op) \<longrightarrow> set (operands opn) \<subseteq> set us \<and>
        (\<forall>r \<in> set (op_regions opn). operands_visible True m r (us @ results_of m i))) \<and> ?P (us @ results_of m i) is"
    (is "_ \<longleftrightarrow> ?Q \<and> _")
  proof (intro iffI conjI)
    assume p: "?P us (i # is)"
    show ?Q using p [rule_format, of "[]" i "is"] by simp
    show "?P (us @ results_of m i) is"
    proof (intro allI impI)
      fix pre j post opn assume "is = pre @ j # post" "op m j = (Inr opn :: lookup_op)"
      then show "set (operands opn) \<subseteq> set ((us @ results_of m i) @ concat (map (results_of m) pre)) \<and>
        (\<forall>r \<in> set (op_regions opn). operands_visible True m r ((us @ results_of m i) @ concat (map (results_of m) pre) @ results_of m j))"
        using p [rule_format, of "i # pre" j post opn] by simp
    qed
  next
    assume pq: "?Q \<and> ?P (us @ results_of m i) is"
    show "?P us (i # is)"
    proof (intro allI impI)
      fix pre j post opn assume a: "i # is = pre @ j # post" "op m j = (Inr opn :: lookup_op)"
      show "set (operands opn) \<subseteq> set (us @ concat (map (results_of m) pre)) \<and>
        (\<forall>r \<in> set (op_regions opn). operands_visible True m r (us @ concat (map (results_of m) pre) @ results_of m j))"
      proof (cases pre)
        case Nil
        then show ?thesis using a pq by simp
      next
        case (Cons k pre')
        then show ?thesis using a conjunct2 [OF pq, rule_format, of pre' j post opn] by simp
      qed
    qed
  qed
  then show ?case by (simp only: ops_visible.simps Cons.IH)
qed simp

lemma verify_ops_report:
  assumes R: "\<And>r us es es'. R r (set us) es = Inr es' \<Longrightarrow> reports (operands_visible True m r us) es es'"
    and "for_each (verify_block_op R m func) is (set us, es) = Inr (vis, es')"
  shows "reports (ops_visible m us is) es es'"
  using assms(2)
proof (induction "is" arbitrary: us es)
  case Nil
  then show ?case by (simp add: reports_def)
next
  case (Cons i "is")
  obtain opn where o: "op m i = (Inr opn :: Operation vres)"
    using Cons.prems by (cases "op m i :: Operation vres") (simp_all add: verify_block_op_def)
  then have o': "op m i = (Inr opn :: lookup_op)" by (rule iffD1 [OF lookup_transfer(1)])
  define es1 where "es1 = es @ missing_operands (\<lambda>k v. DoesNotDominate func k (opcode opn) i v) (\<lambda>v. v \<in> set us) (operands opn)"
  have v: "see_results m i opn (set us) = set (us @ results_of m i)" by (simp add: see_results_eq results_of_op [OF o'])
  have "verify_block_op R m func i (set us, es) =
      and_then (for_each (\<lambda>r. R r (set (us @ results_of m i))) (op_regions opn) es1) (\<lambda>es. Inr (set (us @ results_of m i), es))"
    unfolding verify_block_op_def prod.case o and_then_Inr Let_def v es1_def ..
  then obtain es2 where r: "for_each (\<lambda>r. R r (set (us @ results_of m i))) (op_regions opn) es1 = Inr es2"
    and k: "for_each (verify_block_op R m func) is (set (us @ results_of m i), es2) = Inr (vis, es')"
    using Cons.prems by (auto simp only: for_each.simps and_then_eq_Inr Inr_inject)
  have "reports (set (operands opn) \<subseteq> set us) es es1"
    by (auto simp: reports_def es1_def missing_operands_Nil subset_iff)
  moreover have "reports (\<forall>r \<in> set (op_regions opn). operands_visible True m r (us @ results_of m i)) es1 es2"
    by (rule for_each_reports [OF R r])
  moreover have "reports (ops_visible m (us @ results_of m i) is) es2 es'" by (rule Cons.IH [OF k])
  ultimately have "reports ((set (operands opn) \<subseteq> set us \<and> (\<forall>r \<in> set (op_regions opn). operands_visible True m r (us @ results_of m i))) \<and>
      ops_visible m (us @ results_of m i) is) es es'" by (meson reports_trans)
  then show ?case by (simp add: o')
qed

lemma region_visible:
  assumes "region m r = (Inr rg :: lookup_region)"
  shows "operands_visible True m r us \<longleftrightarrow> (\<forall>b \<in> set (rg_blocks rg). \<forall>bl. block m b = (Inr bl :: lookup_block) \<longrightarrow>
    ops_visible m (us @ map fst (args bl)) (ops bl))"
proof -
  have e: "in_region m r us ws i \<longleftrightarrow> (\<exists>b \<in> set (rg_blocks rg). \<exists>bl. block m b = (Inr bl :: lookup_block) \<and>
      (\<exists>pre post. ops bl = pre @ i # post \<and> ws = us @ map fst (args bl) @ concat (map (results_of m) pre)))" for ws i
    unfolding in_region_def using assms by auto
  show ?thesis
  proof (intro iffI ballI allI impI)
    fix b bl assume v: "operands_visible True m r us" and b: "b \<in> set (rg_blocks rg)" "block m b = (Inr bl :: lookup_block)"
    show "ops_visible m (us @ map fst (args bl)) (ops bl)"
      unfolding ops_visible_split
    proof (intro allI impI)
      fix pre i post opn assume "ops bl = pre @ i # post" and o: "op m i = (Inr opn :: lookup_op)"
      then have "in_region m r us (us @ map fst (args bl) @ concat (map (results_of m) pre)) i"
        unfolding e using b by blast
      with v o show "set (operands opn) \<subseteq> set ((us @ map fst (args bl)) @ concat (map (results_of m) pre)) \<and>
          (\<forall>r \<in> set (op_regions opn). operands_visible True m r
            ((us @ map fst (args bl)) @ concat (map (results_of m) pre) @ results_of m i))"
        unfolding operands_visible_unfold [of True m r] by fastforce
    qed
  next
    assume v: "\<forall>b \<in> set (rg_blocks rg). \<forall>bl. block m b = (Inr bl :: lookup_block) \<longrightarrow>
      ops_visible m (us @ map fst (args bl)) (ops bl)"
    show "operands_visible True m r us"
      unfolding operands_visible_unfold [of True m r]
    proof (intro allI impI)
      fix ws i opn assume "in_region m r us ws i" and o: "op m i = (Inr opn :: lookup_op)"
      then obtain b bl pre post where b: "b \<in> set (rg_blocks rg)" "block m b = (Inr bl :: lookup_block)"
        and p: "ops bl = pre @ i # post" and ws: "ws = us @ map fst (args bl) @ concat (map (results_of m) pre)"
        unfolding e by blast
      from v b have "ops_visible m (us @ map fst (args bl)) (ops bl)" by blast
      from this [unfolded ops_visible_split, rule_format, OF p o]
      show "set (operands opn) \<subseteq> set ws \<and>
          (\<forall>r' \<in> set (op_regions opn). operands_visible True m r' (ws @ (if True then results_of m i else [])))"
        by (simp add: ws)
    qed
  qed
qed

lemma fold_insert_args: "fold (\<lambda>(v, _). insert v) as (set us) = set (us @ map fst as)"
proof -
  have "fold (\<lambda>(v, _). insert v) as X = X \<union> fst ` set as" for X
    by (induction as arbitrary: X) auto
  then show ?thesis by simp
qed

lemma verify_region_reports:
  "verify_region n m func r (set us) es = Inr es' \<Longrightarrow> reports (operands_visible True m r us) es es'"
proof (induction n arbitrary: r us es es')
  case (Suc n)
  obtain rg where rg: "region m r = (Inr rg :: Region vres)"
    and f: "for_each (verify_block_with (verify_region n m func) m func (set us)) (rg_blocks rg) es = Inr es'"
    using Suc.prems by (auto simp: and_then_eq_Inr)
  have "reports (\<forall>b \<in> set (rg_blocks rg). \<forall>bl. block m b = (Inr bl :: lookup_block) \<longrightarrow>
      ops_visible m (us @ map fst (args bl)) (ops bl)) es es'"
  proof (rule for_each_reports [OF _ f])
    fix b es es' assume v: "verify_block_with (verify_region n m func) m func (set us) b es = Inr es'"
    obtain bl vis where b: "block m b = (Inr bl :: Block vres)"
      and o: "for_each (verify_block_op (verify_region n m func) m func) (ops bl) (set (us @ map fst (args bl)), es) = Inr (vis, es')"
      using v unfolding verify_block_with_def fold_insert_args and_then_eq_Inr by (auto split: prod.splits)
    have "reports (ops_visible m (us @ map fst (args bl)) (ops bl)) es es'"
      by (rule verify_ops_report [OF _ o]) (rule Suc.IH)
    moreover have "block m b = (Inr bl :: lookup_block)" using b by (rule iffD1 [OF lookup_transfer(3)])
    ultimately show "reports (\<forall>bl. block m b = (Inr bl :: lookup_block) \<longrightarrow> ops_visible m (us @ map fst (args bl)) (ops bl)) es es'"
      by simp
  qed
  then show ?case using region_visible [OF iffD1 [OF lookup_transfer(2) rg]] by simp
qed simp

text \<open>The functions of the module.\<close>

definition function_visible :: "bool \<Rightarrow> Module \<Rightarrow> OpId \<Rightarrow> bool" where
  "function_visible own m func \<longleftrightarrow> (\<forall>fop. op m func = (Inr fop :: lookup_op) \<longrightarrow>
     (\<forall>r \<in> set (op_regions fop). operands_visible own m r []))"

lemma verify_dominance_reports:
  assumes "for_each (\<lambda>func errors.
         and_then (op m func) (\<lambda>func_op.
           for_each (\<lambda>r errors. verify_region n m func r {} errors) (op_regions func_op) errors))
       fs es = (Inr es' :: verify_error list vres)"
  shows "reports (\<forall>func \<in> set fs. function_visible True m func) es es'"
proof (rule for_each_reports [OF _ assms])
  fix func es es'
  assume "and_then (op m func) (\<lambda>func_op.
           for_each (\<lambda>r errors. verify_region n m func r {} errors) (op_regions func_op) es) = (Inr es' :: verify_error list vres)"
  then obtain fop where f: "op m func = (Inr fop :: Operation vres)"
    and v: "for_each (\<lambda>r errors. verify_region n m func r {} errors) (op_regions fop) es = Inr es'"
    by (auto simp: and_then_eq_Inr)
  have "reports (\<forall>r \<in> set (op_regions fop). operands_visible True m r []) es es'"
    by (rule for_each_reports [OF _ v]) (rule verify_region_reports [where us = "[]", simplified])
  then show "reports (function_visible True m func) es es'"
    using iffD1 [OF lookup_transfer(1) f] by (simp add: function_visible_def)
qed

text \<open>Verifying itself reports nothing through the error channel.\<close>

definition quiet :: "'e fault + 'a \<Rightarrow> bool" where
  "quiet x \<longleftrightarrow> (\<forall>e. x \<noteq> Inl (Err e))"

lemma quiet_simps [simp]: "quiet (Inr y)" "quiet (Inl Panic)" "quiet (Inl NoFuel)" "quiet (index xs k)"
  by (simp_all add: quiet_def index_def)

lemma quiet_lookups [simp]: "quiet (op m i)" "quiet (block m b)" "quiet (region m r)"
  by (cases i, simp) (cases b, simp, cases r, simp)

lemma quiet_and_then: "quiet x \<Longrightarrow> (\<And>y. x = Inr y \<Longrightarrow> quiet (f y)) \<Longrightarrow> quiet (and_then x f)"
  by (cases x) (simp_all add: quiet_def)

lemma quiet_for_each: "(\<And>x s. x \<in> set xs \<Longrightarrow> quiet (f x s)) \<Longrightarrow> quiet (for_each f xs s)"
  by (induction xs arbitrary: s) (simp_all add: quiet_and_then)

lemma verify_region_quiet: "quiet (verify_region n m func r vis es)"
proof (induction n arbitrary: r vis es)
  case (Suc n)
  have "quiet (verify_block_op (verify_region n m func) m func i s)" for i s
    unfolding verify_block_op_def Let_def case_prod_unfold by (intro quiet_and_then quiet_for_each quiet_lookups quiet_simps Suc.IH)
  then show ?case unfolding verify_region.simps verify_block_with_def case_prod_unfold
    by (intro quiet_and_then quiet_for_each quiet_lookups quiet_simps)
qed simp

lemma verify_region_returns:
  assumes "\<And>rg b bl i. region m r = (Inr rg :: lookup_region) \<Longrightarrow> b \<in> set (rg_blocks rg) \<Longrightarrow>
    block m b = (Inr bl :: lookup_block) \<Longrightarrow> i \<in> set (ops bl) \<Longrightarrow> shallow m n i"
  shows "returns (verify_region (Suc n) m func r vis es)"
  using assms
proof (induction n arbitrary: r vis es)
  case 0
  have o: "ops bl = []" if "region m r = (Inr rg :: Region vres)" "b \<in> set (rg_blocks rg)" "block m b = (Inr bl :: Block vres)" for rg b bl
    using 0 [OF iffD1 [OF lookup_transfer(2) that(1)] that(2) iffD1 [OF lookup_transfer(3) that(3)]] by (cases "ops bl") auto
  show ?case unfolding verify_region.simps(2) [of 0] verify_block_with_def case_prod_unfold
    by (intro and_then_returns for_each_returns lookups_return returns_simps) (simp add: o)
next
  case (Suc n)
  have IH: "returns (verify_region (Suc n) m func r' vis es)"
    if "region m r = (Inr rg :: Region vres)" "b \<in> set (rg_blocks rg)" "block m b = (Inr bl :: Block vres)" "i \<in> set (ops bl)"
      "op m i = (Inr opn :: Operation vres)" "r' \<in> set (op_regions opn)" for rg b bl i opn r' vis es
  proof (rule Suc.IH)
    fix rg' b' bl' j assume "region m r' = (Inr rg' :: lookup_region)" "b' \<in> set (rg_blocks rg')"
      "block m b' = (Inr bl' :: lookup_block)" "j \<in> set (ops bl')"
    then have "nests m i j" unfolding nests_def using iffD1 [OF lookup_transfer(1) that(5)] that(6) by blast
    then show "shallow m n j"
      using Suc.prems [OF iffD1 [OF lookup_transfer(2) that(1)] that(2) iffD1 [OF lookup_transfer(3) that(3)] that(4)] by simp
  qed
  show ?case unfolding verify_region.simps(2) [of "Suc n"] verify_block_with_def verify_block_op_def Let_def case_prod_unfold
    by (intro and_then_returns for_each_returns lookups_return returns_simps IH)
qed

definition verify_functions :: "Module \<Rightarrow> verify_error list vres" where
  "verify_functions m = for_each (\<lambda>func errors.
         and_then (op m func) (\<lambda>func_op.
           for_each (\<lambda>r errors. verify_region (module_fuel m) m func r {} errors) (op_regions func_op) errors))
       (mod_functions m) []"

lemma verify_dominance_cases:
  "verify_dominance m = and_then (verify_functions m) (\<lambda>errors. if errors = [] then Inr () else Inl (Err (Verification errors)))"
  by (simp add: verify_dominance_def verify_functions_def)

lemma verify_functions_quiet: "quiet (verify_functions m)"
  unfolding verify_functions_def by (intro quiet_for_each quiet_and_then quiet_lookups verify_region_quiet)

lemma verify_functions_return:
  assumes "acyclic_nesting m"
  shows "returns (verify_functions m)"
proof -
  have "returns (verify_region (module_fuel m) m func r vis es)"
    if "op m func = (Inr fop :: Operation vres)" "r \<in> set (op_regions fop)" for func fop r vis es
    unfolding module_fuel_def
  proof (rule verify_region_returns)
    fix rg b bl i assume "region m r = (Inr rg :: lookup_region)" "b \<in> set (rg_blocks rg)"
      "block m b = (Inr bl :: lookup_block)" "i \<in> set (ops bl)"
    then have "nests m func i" unfolding nests_def using iffD1 [OF lookup_transfer(1) that(1)] that(2) by blast
    moreover have "shallow m (Suc (length (operations m))) func"
      using acyclic_shallow [OF assms, of func] by (simp only: module_fuel_def)
    ultimately show "shallow m (length (operations m)) i" by simp
  qed
  then show ?thesis unfolding verify_functions_def by (intro for_each_returns and_then_returns lookups_return)
qed

lemma verify_dominance_exact:
  assumes "acyclic_nesting m" and "verify_dominance m \<noteq> Inl Panic"
  shows "verify_dominance m = Inr () \<longleftrightarrow> (\<forall>func \<in> set (mod_functions m). function_visible True m func)"
proof (cases "verify_functions m")
  case (Inl e)
  then have "e = Panic" using verify_functions_quiet [of m] verify_functions_return [OF assms(1)]
    by (cases e) (auto simp: quiet_def)
  then show ?thesis using assms(2) Inl by (simp add: verify_dominance_cases)
next
  case (Inr es)
  have "reports (\<forall>func \<in> set (mod_functions m). function_visible True m func) [] es"
    using Inr unfolding verify_functions_def by (rule verify_dominance_reports)
  then show ?thesis using Inr by (auto simp: reports_def verify_dominance_cases)
qed

end
