(* ===== verification/FileFrames.thy ===== *)
theory FileFrames
  imports WriterInv
begin

text \<open>
  What writing whole functions and globals does to the shared tables, and the bytes it
  appends: each function and global refers to entries that are, and stay, in the tables.
\<close>

section \<open>References into the tables\<close>

definition str_known :: "WriterCtx \<Rightarrow> string \<Rightarrow> u64 \<Rightarrow> bool" where
  "str_known c str k \<longleftrightarrow>
     (\<exists>j < length (map fst (str_map (strings c))). map fst (str_map (strings c)) ! j = str \<and> k = as_u64 j)"

definition ty_known :: "WriterCtx \<Rightarrow> Type \<Rightarrow> u64 \<Rightarrow> bool" where
  "ty_known c ty k \<longleftrightarrow> (\<exists>j < length (ty_list (types c)). ty_list (types c) ! j = ty \<and> k = as_u64 j)"

lemma tables_extend_refl [simp]: "tables_extend c c"
  by (simp add: tables_extend_def)

lemma tables_extend_trans: "tables_extend c c' \<Longrightarrow> tables_extend c' c'' \<Longrightarrow> tables_extend c c''"
  by (fastforce simp: tables_extend_def)

lemma nth_extend: "ys = xs @ zs \<Longrightarrow> j < length xs \<Longrightarrow> j < length ys \<and> ys ! j = xs ! j"
  by (simp add: nth_append)

lemma str_known_extend: "tables_extend c c' \<Longrightarrow> str_known c str k \<Longrightarrow> str_known c' str k"
  unfolding tables_extend_def str_known_def using nth_extend by metis

lemma ty_known_extend: "tables_extend c c' \<Longrightarrow> ty_known c ty k \<Longrightarrow> ty_known c' ty k"
  unfolding tables_extend_def ty_known_def using nth_extend by metis

lemma str_intern_known:
  assumes "tables_ok c" and "string_get_or_insert str (strings c) = (k, ss)"
  shows "tables_ok (c\<lparr>strings := ss\<rparr>) \<and> tables_extend c (c\<lparr>strings := ss\<rparr>) \<and> str_known (c\<lparr>strings := ss\<rparr>) str k"
proof -
  have d: "debug_inv (strings c) (debug c)" "types_wf (types c)" using assms(1) by (simp_all add: tables_ok_def)
  have ss: "ss = snd (string_get_or_insert str (strings c))" "k = fst (string_get_or_insert str (strings c))"
    using assms(2) by simp_all
  have "debug_inv ss (debug c)" unfolding ss(1) by (rule debug_inv_strings [OF d(1)])
  moreover have "\<exists>ds. map fst (str_map ss) = map fst (str_map (strings c)) @ ds"
    unfolding ss(1) by (rule strs.intern_extends [OF debug_inv_strings_wf [OF d(1)]])
  moreover have "\<exists>j < length (map fst (str_map ss)). map fst (str_map ss) ! j = str \<and> k = as_u64 (0 + j)"
    using strs.intern_id [OF debug_inv_strings_wf [OF d(1)], of str] ss by simp
  ultimately show ?thesis using d(2) unfolding tables_ok_def tables_extend_def str_known_def by simp
qed

lemma ty_intern_known:
  assumes "tables_ok c" and "type_get_or_insert ty (types c) = (k, tys)"
  shows "tables_ok (c\<lparr>types := tys\<rparr>) \<and> tables_extend c (c\<lparr>types := tys\<rparr>) \<and> ty_known (c\<lparr>types := tys\<rparr>) ty k"
proof -
  have d: "types_wf (types c)" using assms(1) by (simp add: tables_ok_def)
  have tys: "tys = snd (type_get_or_insert ty (types c))" "k = fst (type_get_or_insert ty (types c))"
    using assms(2) by simp_all
  show ?thesis
    using typs.intern_wf [OF d, of ty] typs.intern_extends [OF d, of ty] typs.intern_id [OF d, of ty] assms(1)
    by (auto simp: tys tables_ok_def tables_extend_def ty_known_def)
qed

section \<open>The frame of a sequence of entries\<close>

text \<open>As \<open>tables_frame\<close>, but functions may be added to the debug information.\<close>

definition file_frame :: "wstate \<Rightarrow> wstate \<Rightarrow> bool" where
  "file_frame s t \<longleftrightarrow>
     ctx_module (fst t) = ctx_module (fst s) \<and> ctx_version (fst t) = ctx_version (fst s) \<and>
     (\<exists>bs. buf (snd t) = buf (snd s) @ bs) \<and>
     (tables_ok (fst s) \<longrightarrow> tables_ok (fst t) \<and> tables_extend (fst s) (fst t))"

lemma file_frame_refl [simp]: "file_frame s s"
  by (simp add: file_frame_def)

lemma file_frame_trans [trans]:
  assumes "file_frame s t" and "file_frame t u"
  shows "file_frame s u"
  using assms tables_extend_trans unfolding file_frame_def by (metis append_assoc)

lemma tables_file_frame: "tables_frame s t \<Longrightarrow> file_frame s t"
  by (simp add: tables_frame_def file_frame_def)

lemma for_each_file_frame:
  assumes "\<And>x s t. x \<in> set xs \<Longrightarrow> f x s = Inr t \<Longrightarrow> file_frame s t" and "for_each f xs s = Inr t"
  shows "file_frame s t"
  using assms
proof (induction xs arbitrary: s)
  case (Cons x xs)
  then obtain s1 where "f x s = Inr s1" "for_each f xs s1 = Inr t" by (auto simp: and_then_eq_Inr)
  then show ?case using Cons.IH [of s1] Cons.prems(1) file_frame_trans by (metis list.set_intros)
qed simp

section \<open>Globals\<close>

definition global_bytes :: "BytecodeVersion \<Rightarrow> Global \<Rightarrow> u64 \<Rightarrow> u64 \<Rightarrow> nat \<Rightarrow> bytes" where
  "global_bytes v g name ty const =
     varint name @ varint ty @ varint (as_u64 const) @ varint (alignment g)
     @ (if v \<ge> V13_3
        then [symbol_visibility_u8 (symbol_visibility g)] @ varint (if g_constant g then 1 else 0) else [])"

lemma write_global_frame: "ensures tables_frame (write_global g)"
proof -
  have "ensures tables_frame (since_version V13_3
         (acts [put (write_byte (symbol_visibility_u8 (symbol_visibility g))),
                put_varint (if g_constant g then 1 else 0)]))"
    by (rule tab.ok_since) (intro tab.ok_list tab.ok_varint tab.ok_put harmless_acts; auto)+
  then show ?thesis unfolding write_global_def
    by (intro tab.ok_list tab.ok_act_if tab.ok_gate tab.ok_harmless tab.ok_varint)
qed

lemma gate_passed: "gate n f s = Inr t \<Longrightarrow> t = s"
  by (auto simp: gate_def and_then_eq_Inr)

lemma write_global_bytes:
  assumes ok: "tables_ok (fst s)" and w: "write_global g s = Inr t"
  shows "\<exists>ni ti. buf (snd t) = buf (snd s) @ global_bytes (ctx_version (fst s)) g ni ti (length (const_entries (constants (fst s)))) \<and>
    str_known (fst t) (sym_name g) ni \<and> ty_known (fst t) (de_element_type (g_value g)) ti \<and>
    const_entries (constants (fst t)) = const_entries (constants (fst s)) @ [constant_data (de_data (g_value g))]"
proof -
  obtain ni ss where ss: "string_get_or_insert (sym_name g) (strings (fst s)) = (ni, ss)" by fastforce
  obtain ti tys where tys: "type_get_or_insert (de_element_type (g_value g)) (types (fst s)) = (ti, tys)" by fastforce
  define c1 where "c1 = (fst s)\<lparr>strings := ss\<rparr>"
  define c2 where "c2 = c1\<lparr>types := tys\<rparr>"
  define c3 where "c3 = c2\<lparr>constants := \<lparr>const_entries = const_entries (constants (fst s)) @ [constant_data (de_data (g_value g))]\<rparr>\<rparr>"
  let ?n = "length (const_entries (constants (fst s)))"
  have 1: "tables_ok c1" "str_known c1 (sym_name g) ni" using str_intern_known [OF ok ss] by (simp_all add: c1_def)
  have "types c1 = types (fst s)" by (simp add: c1_def)
  then have 2: "tables_extend c1 c2" "ty_known c2 (de_element_type (g_value g)) ti"
    using ty_intern_known [OF 1(1)] tys by (simp_all add: c2_def)
  have 3: "tables_extend c2 c3" by (simp add: c3_def c2_def c1_def tables_extend_def)
  obtain s1 where g: "s1 = s" and
    r: "acts [put_string (sym_name g), put_type (de_element_type (g_value g)), put_constant (de_data (g_value g)),
              put_varint (alignment g),
              since_version V13_3 (acts [put (write_byte (symbol_visibility_u8 (symbol_visibility g))),
                    put_varint (if g_constant g then 1 else 0)])] s1 = Inr t"
    using w by (auto simp: write_global_def acts_funs and_then_eq_Inr act_if_def split: if_splits dest!: gate_passed)
  have "fst t = c3 \<and> buf (snd t) = buf (snd s) @ global_bytes (ctx_version (fst s)) g ni ti ?n"
    using r
    by (auto simp: g acts_funs put_string_def put_type_def put_constant_def constant_add_def ss tys
        put_varint_def put_def since_version_def act_if_def layout_simps global_bytes_def
        c3_def c2_def c1_def split: if_splits)
  then show ?thesis
    using str_known_extend [OF 3 str_known_extend [OF 2(1) 1(2)]] ty_known_extend [OF 3 2(2)]
    by (auto simp: c3_def)
qed

definition global_entry :: "WriterCtx \<Rightarrow> BytecodeVersion \<Rightarrow> nat \<times> Global \<Rightarrow> bytes \<Rightarrow> bool" where
  "global_entry c v = (\<lambda>(k, g) bs. \<exists>ni ti. bs = global_bytes v g ni ti k \<and>
     str_known c (sym_name g) ni \<and> ty_known c (de_element_type (g_value g)) ti)"

lemma global_entry_extend: "tables_extend c c' \<Longrightarrow> global_entry c v kg bs \<Longrightarrow> global_entry c' v kg bs"
  by (cases kg) (simp add: global_entry_def, blast intro: str_known_extend ty_known_extend)

lemma globals_bytes:
  assumes "tables_ok (fst s)" and "for_each write_global gs s = Inr t"
  shows "file_frame s t \<and> (\<exists>es. buf (snd t) = buf (snd s) @ concat es \<and>
    list_all2 (global_entry (fst t) (ctx_version (fst s))) (enumerate (length (const_entries (constants (fst s)))) gs) es)"
  using assms
proof (induction gs arbitrary: s)
  case (Cons g gs)
  then obtain s1 where 1: "write_global g s = Inr s1" and 2: "for_each write_global gs s1 = Inr t"
    by (auto simp: and_then_eq_Inr)
  have f: "file_frame s s1" by (rule tables_file_frame [OF ensuresD [OF write_global_frame 1]])
  then have ok: "tables_ok (fst s1)" and v: "ctx_version (fst s1) = ctx_version (fst s)"
    using Cons.prems(1) by (simp_all add: file_frame_def)
  obtain ni ti where b: "buf (snd s1) = buf (snd s) @ global_bytes (ctx_version (fst s)) g ni ti (length (const_entries (constants (fst s))))"
    and k: "str_known (fst s1) (sym_name g) ni" "ty_known (fst s1) (de_element_type (g_value g)) ti"
    and c: "const_entries (constants (fst s1)) = const_entries (constants (fst s)) @ [constant_data (de_data (g_value g))]"
    using write_global_bytes [OF Cons.prems(1) 1] by blast
  obtain es where f': "file_frame s1 t" and e: "buf (snd t) = buf (snd s1) @ concat es"
    "list_all2 (global_entry (fst t) (ctx_version (fst s))) (enumerate (Suc (length (const_entries (constants (fst s))))) gs) es"
    using Cons.IH [OF ok 2] by (auto simp: v c)
  have "global_entry (fst t) (ctx_version (fst s)) (length (const_entries (constants (fst s))), g)
      (global_bytes (ctx_version (fst s)) g ni ti (length (const_entries (constants (fst s)))))"
  proof (rule global_entry_extend)
    show "tables_extend (fst s1) (fst t)" using f' ok by (simp add: file_frame_def)
  qed (use k in \<open>auto simp: global_entry_def\<close>)
  then show ?case using e b file_frame_trans [OF f f']
    by (intro conjI exI [of _ "global_bytes (ctx_version (fst s)) g ni ti (length (const_entries (constants (fst s)))) # es"])
      simp_all
qed auto

section \<open>Functions\<close>

definition function_flags :: "Operation \<Rightarrow> u8" where
  "function_flags opn =
     (if opcode opn = Op_Entry then function_flag_u8 FunctionFlag_KindKernel else 0)
     OR (if opcode opn = Op_Entry \<and> find_attr (attributes opn) ''optimization_hints'' \<noteq> None
         then function_flag_u8 FunctionFlag_HasOptimizationHints else 0)"

definition function_bytes :: "Operation \<Rightarrow> u64 \<Rightarrow> u64 \<Rightarrow> u64 \<Rightarrow> bytes \<Rightarrow> bytes \<Rightarrow> bytes" where
  "function_bytes opn name sig di hints body =
     varint name @ varint sig @ [function_flags opn] @ varint di @ hints
     @ varint (as_u64 (length body)) @ body"

definition hinted :: "Operation \<Rightarrow> bool" where
  "hinted opn \<longleftrightarrow> opcode opn = Op_Entry \<and> find_attr (attributes opn) ''optimization_hints'' \<noteq> None"

definition function_entry :: "WriterCtx \<Rightarrow> OpId \<Rightarrow> bytes \<Rightarrow> bool" where
  "function_entry c i bs \<longleftrightarrow> (\<exists>opn name ty ni ti di hints body.
     op (ctx_module c) i = (Inr opn :: (write_error, Operation) res) \<and>
     find_string_attr (attributes opn) ''sym_name'' = Some name \<and> find_type_attr (attributes opn) ''function_type'' = Some ty \<and>
     bs = function_bytes opn ni ti di hints body \<and> (\<not> hinted opn \<longrightarrow> hints = []) \<and>
     str_known c name ni \<and> ty_known c ty ti)"

lemma function_entry_extend:
  "tables_extend c c' \<Longrightarrow> ctx_module c' = ctx_module c \<Longrightarrow> function_entry c i bs \<Longrightarrow> function_entry c' i bs"
  unfolding function_entry_def
  by (simp only:, elim exE conjE, intro exI conjI)
    (assumption | erule (1) str_known_extend | erule (1) ty_known_extend)+

lemma fold_register_tables:
  "tables_frame (c, w) (fold (\<lambda>(v, _). register_value v) as c, w)"
proof (induction as arbitrary: c)
  case (Cons a as)
  obtain v ty where a: "a = (v, ty)" by fastforce
  have "tables_frame (c, w) (register_value v c, w)"
    using tables_frame_values [of "register_value v c" "(c, w)"] by simp
  also have "tables_frame \<dots> (fold (\<lambda>(v, _). register_value v) as (register_value v c), w)" by (rule Cons)
  finally show ?case by (simp add: a)
qed (simp add: tab.Q_refl)

text \<open>The body is empty, or the operations of the entry block.\<close>

lemma write_function_bodyE:
  assumes "write_function_body H n i c = Inr (c', body)"
  obtains "c' = c" "body = []"
  | bl :: Block and t where "for_each (write_operation H n) (ops bl)
        (fold (\<lambda>(v, _). register_value v) (args bl) c, writer_new) = Inr t" "c' = fst t" "body = buf (snd t)"
proof -
  obtain opn :: Operation where 1: "(case op_regions opn of
         [] \<Rightarrow> Inr (c, [])
       | r # _ \<Rightarrow>
           and_then (region (ctx_module c) r) (\<lambda>rg.
             case rg_blocks rg of
               [] \<Rightarrow> Inr (c, [])
             | b # _ \<Rightarrow>
                 and_then (block (ctx_module c) b) (\<lambda>bl.
                 and_then (for_each (write_operation H n) (ops bl)
                             (fold (\<lambda>(v, _). register_value v) (args bl) c, writer_new)) (\<lambda>s.
                   Inr (fst s, buf (snd s)))))) = (Inr (c', body) :: (write_error, WriterCtx \<times> bytes) res)"
    using assms unfolding write_function_body_def and_then_eq_Inr by blast
  show thesis
  proof (cases "op_regions opn")
    case Nil
    with 1 that(1) show ?thesis by simp
  next
    case (Cons r rs)
    with 1 obtain rg :: Region where 2: "(case rg_blocks rg of
               [] \<Rightarrow> Inr (c, [])
             | b # _ \<Rightarrow>
                 and_then (block (ctx_module c) b) (\<lambda>bl.
                 and_then (for_each (write_operation H n) (ops bl)
                             (fold (\<lambda>(v, _). register_value v) (args bl) c, writer_new)) (\<lambda>s.
                   Inr (fst s, buf (snd s))))) = (Inr (c', body) :: (write_error, WriterCtx \<times> bytes) res)"
      unfolding Cons list.case and_then_eq_Inr by blast
    show ?thesis
    proof (cases "rg_blocks rg")
      case Nil
      with 2 that(1) show ?thesis by simp
    next
      case (Cons b bs)
      show ?thesis
        using 2 unfolding Cons list.case and_then_eq_Inr by (elim exE conjE) (rule that(2), assumption, auto)
    qed
  qed
qed

lemma function_body_frame:
  assumes "write_function_body H n i c = Inr (c', body)"
  shows "\<exists>w. buf w = body \<and> tables_frame (c, writer_new) (c', w)"
  using assms
proof (cases rule: write_function_bodyE)
  case 1
  then show ?thesis by (intro exI [of _ writer_new]) (simp add: layout_simps tab.Q_refl)
next
  case (2 bl t)
  have "tables_frame (c, writer_new) (fold (\<lambda>(v, _). register_value v) (args bl) c, writer_new)"
    by (rule fold_register_tables)
  also have "tables_frame \<dots> t"
    by (rule ensuresD [OF tab.ok_for_each 2(1)]) (rule write_operation_tables)
  finally show ?thesis using 2 by (intro exI [of _ "snd t"]) simp
qed

lemma write_function_entry:
  assumes ok: "tables_ok (fst s)" and w: "write_function H n i s = Inr t"
  shows "file_frame s t \<and> (\<exists>bs. buf (snd t) = buf (snd s) @ bs \<and> function_entry (fst t) i bs) \<and>
    length (per_function (debug (fst t))) = Suc (length (per_function (debug (fst s))))"
proof -
  obtain opn name ty where o: "op (ctx_module (fst s)) i = (Inr opn :: (write_error, Operation) res)"
    and nm: "find_string_attr (attributes opn) ''sym_name'' = Some name"
    and ft: "find_type_attr (attributes opn) ''function_type'' = Some ty"
    using w unfolding write_function_def and_then_eq_Inr ok_or_eq_Inr
    by (elim exE conjE) (rule that)
  obtain ni ss where ss: "string_get_or_insert name (strings (fst s)) = (ni, ss)" by fastforce
  obtain ti tys where tys: "type_get_or_insert ty (types (fst s)) = (ti, tys)" by fastforce
  define c1 where "c1 = (fst s)\<lparr>strings := ss\<rparr>"
  define c2 where "c2 = c1\<lparr>types := tys\<rparr>"
  obtain di ss' d where bf: "begin_function name (find_string_attr (attributes opn) ''di_name'') (location opn) ss (debug (fst s)) = (di, ss', d)"
    by (cases "begin_function name (find_string_attr (attributes opn) ''di_name'') (location opn) ss (debug (fst s))")
  define c3 where "c3 = c2\<lparr>strings := ss', debug := d\<rparr>"
  define w3 where "w3 = write_varint di (write_byte (function_flags opn) (write_varint ti (write_varint ni (snd s))))"
  define hints where "hints = (if opcode opn = Op_Entry then find_attr (attributes opn) ''optimization_hints'' else None)"
  have 1: "tables_ok c1" "tables_extend (fst s) c1" "str_known c1 name ni"
    using str_intern_known [OF ok ss] by (simp_all add: c1_def)
  have "types c1 = types (fst s)" by (simp add: c1_def)
  then have 2: "tables_ok c2" "tables_extend c1 c2" "ty_known c2 ty ti"
    using ty_intern_known [OF 1(1)] tys by (simp_all add: c2_def)
  have "debug_inv ss (debug (fst s))" using 2(1) by (simp add: tables_ok_def c2_def c1_def)
  note d = begin_function_inv [OF this bf]
  then have 3: "tables_ok c3" "tables_extend c2 c3"
    using 2(1) by (auto simp: tables_ok_def tables_extend_def c3_def c2_def c1_def grows_def str_ext_def)
  have e: "write_function H n i s =
      and_then (header_hints_ok (ctx_version (fst s)) hints) (\<lambda>_.
      and_then (case hints of Some a \<Rightarrow> write_self_contained_attribute H a (c3, w3) | None \<Rightarrow> Inr (c3, w3)) (\<lambda>(ctx, w).
      and_then (write_function_body H n i (ctx\<lparr>value_map := (\<lambda>_. None), next_idx := 0\<rparr>)) (\<lambda>(ctx, body).
        Inr (ctx, write_bytes body (write_varint (as_u64 (length body)) w)))))"
    by (simp add: write_function_def o nm ft ss tys bf Let_def c3_def c2_def c1_def w3_def function_flags_def hints_def
        cong: option.case_cong)
  obtain c4 w4 c5 body where h: "(case hints of Some a \<Rightarrow> write_self_contained_attribute H a (c3, w3) | None \<Rightarrow> Inr (c3, w3)) = Inr (c4, w4)"
    and b: "write_function_body H n i (c4\<lparr>value_map := (\<lambda>_. None), next_idx := 0\<rparr>) = Inr (c5, body)"
    and t: "t = (c5, write_bytes body (write_varint (as_u64 (length body)) w4))"
    using w unfolding e and_then_eq_Inr by (elim exE conjE) (auto simp: and_then_eq_Inr)
  have t34: "tables_frame (c3, w3) (c4, w4)"
  proof (cases hints)
    case None
    then show ?thesis using h tab.Q_refl by simp
  next
    case (Some a)
    then show ?thesis using h ensuresD [OF tab.ok_self_contained] by simp
  qed
  then have f34: "file_frame (c3, w3) (c4, w4)" by (rule tables_file_frame)
  obtain w5 where w5: "buf w5 = body" "tables_frame (c4\<lparr>value_map := (\<lambda>_. None), next_idx := 0\<rparr>, writer_new) (c5, w5)"
    using function_body_frame [OF b] by blast
  have f03: "file_frame s (c3, w3)"
    unfolding file_frame_def
  proof (intro conjI impI)
    show "tables_extend (fst s) (fst (c3, w3))" using 1(2) 2(2) 3(2) tables_extend_trans unfolding fst_conv by blast
  qed (use 3(1) in \<open>simp_all add: c3_def c2_def c1_def w3_def layout_simps\<close>)
  have ok4: "tables_ok c4" "tables_extend c3 c4" using f34 3 by (simp_all add: file_frame_def)
  have 5: "tables_ok c5" "tables_extend c4 c5" "ctx_module c5 = ctx_module c4" "ctx_version c5 = ctx_version c4"
    using w5(2) ok4(1) by (simp_all add: tables_frame_def tables_ok_def tables_extend_def)
  have f45: "file_frame (c4, w4) t"
    using 5 by (simp add: file_frame_def t layout_simps)
  obtain hb where hb: "buf w4 = buf w3 @ hb" using f34 by (auto simp: file_frame_def)
  have "hints = None \<Longrightarrow> hb = []" using h hb by simp
  then have nh: "\<not> hinted opn \<longrightarrow> hb = []" by (auto simp: hinted_def hints_def)
  have "buf (snd t) = buf (snd s) @ function_bytes opn ni ti di hb body"
    by (simp add: t hb w3_def layout_simps function_bytes_def)
  moreover have "function_entry (fst t) i (function_bytes opn ni ti di hb body)"
    unfolding function_entry_def
  proof (intro exI conjI)
    show "op (ctx_module (fst t)) i = (Inr opn :: (write_error, Operation) res)"
      using o f03 f34 5(3) by (simp add: t file_frame_def)
    show "str_known (fst t) name ni"
      unfolding t fst_conv
      by (rule str_known_extend [OF 5(2) str_known_extend [OF ok4(2) str_known_extend [OF 3(2) str_known_extend [OF 2(2) 1(3)]]]])
    show "ty_known (fst t) ty ti"
      unfolding t fst_conv by (rule ty_known_extend [OF 5(2) ty_known_extend [OF ok4(2) ty_known_extend [OF 3(2) 2(3)]]])
  qed (rule nm ft nh refl)+
  moreover have "length (per_function (debug (fst t))) = Suc (length (per_function (debug (fst s))))"
    using t34 w5(2) d by (simp add: t tables_frame_def c3_def)
  ultimately show ?thesis using file_frame_trans [OF file_frame_trans [OF f03 f34] f45] by blast
qed

lemma functions_bytes:
  assumes "tables_ok (fst s)" and "for_each (write_function H n) is s = Inr t"
  shows "file_frame s t \<and> (\<exists>es. buf (snd t) = buf (snd s) @ concat es \<and> list_all2 (function_entry (fst t)) is es) \<and>
    length (per_function (debug (fst t))) = length (per_function (debug (fst s))) + length is"
  using assms
proof (induction "is" arbitrary: s)
  case (Cons i "is")
  then obtain s1 where 1: "write_function H n i s = Inr s1" and 2: "for_each (write_function H n) is s1 = Inr t"
    by (auto simp: and_then_eq_Inr)
  note e1 = write_function_entry [OF Cons.prems(1) 1]
  then obtain bs where f: "file_frame s s1" and bs: "buf (snd s1) = buf (snd s) @ bs" "function_entry (fst s1) i bs" by blast
  then have ok: "tables_ok (fst s1)" using Cons.prems(1) by (simp add: file_frame_def)
  obtain es where f': "file_frame s1 t" and es: "buf (snd t) = buf (snd s1) @ concat es" "list_all2 (function_entry (fst t)) is es"
    using Cons.IH [OF ok 2] by blast
  have "function_entry (fst t) i bs"
    by (rule function_entry_extend [OF _ _ bs(2)]) (use f' ok in \<open>simp_all add: file_frame_def\<close>)
  then have "list_all2 (function_entry (fst t)) (i # is) (bs # es)" using es(2) by simp
  moreover have "buf (snd t) = buf (snd s) @ concat (bs # es)" using bs(1) es(1) by simp
  ultimately show ?case using file_frame_trans [OF f f'] e1 Cons.IH [OF ok 2] by fastforce
qed auto

section \<open>Pre-scan\<close>

text \<open>The tables are well formed and hold the strings of \<open>S\<close>.\<close>

definition scan_ok :: "string set \<Rightarrow> tables \<Rightarrow> bool" where
  "scan_ok S t \<longleftrightarrow> strings_wf (fst t) \<and> types_wf (snd t) \<and> S \<subseteq> fst ` set (str_map (fst t))"

lemma scan_ok_new: "scan_ok {} (strings_new, types_new)"
  by (simp add: scan_ok_def strings_wf_new types_wf_new)

lemma scan_string_adds: "scan_ok S t \<Longrightarrow> scan_ok (insert str S) (scan_string str t)"
proof -
  assume t: "scan_ok S t"
  then have w: "strings_wf (fst t)" by (simp add: scan_ok_def)
  obtain ds where "map fst (str_map (snd (string_get_or_insert str (fst t)))) = map fst (str_map (fst t)) @ ds"
    using strs.intern_extends [OF w] by blast
  from arg_cong [OF this, of set] have "fst ` set (str_map (fst t)) \<subseteq> fst ` set (str_map (snd (string_get_or_insert str (fst t))))"
    by auto
  then show ?thesis
    using t strs.intern_wf [OF w, of str] strs.intern_member [OF w, of str] by (auto simp: scan_ok_def scan_string_def)
qed

lemma scan_steps_ok: "scan_ok S t \<Longrightarrow> scan_ok S (scan_string str t)" "scan_ok S t \<Longrightarrow> scan_ok S (scan_type ty t)"
  using scan_string_adds [of S t str] typs.intern_wf by (simp_all add: scan_ok_def scan_type_def)

lemma fold_scan_ok: "scan_ok S t \<Longrightarrow> (\<And>x t. x \<in> set xs \<Longrightarrow> scan_ok S t \<Longrightarrow> scan_ok S (f x t)) \<Longrightarrow> scan_ok S (fold f xs t)"
  by (induction xs arbitrary: t) auto

lemma prescan_attribute_ok: "scan_ok S t \<Longrightarrow> scan_ok S (prescan_attribute n a t)"
proof (induction n a t rule: prescan_attribute.induct)
  case (4 n entries t)
  then show ?case by (auto intro!: fold_scan_ok scan_steps_ok)
next
  case (5 n entries t)
  then show ?case by (auto intro!: fold_scan_ok scan_steps_ok)
next
  case (6 n elems t)
  then show ?case by (auto intro!: fold_scan_ok scan_steps_ok)
qed (auto intro!: scan_steps_ok)

lemma prescan_attributes_ok: "scan_ok S t \<Longrightarrow> scan_ok S (prescan_attributes as t)"
  unfolding prescan_attributes_def by (rule fold_scan_ok) (auto intro: prescan_attribute_ok)

lemma for_each_scan_ok:
  assumes "\<And>x s t. x \<in> set xs \<Longrightarrow> f x s = Inr t \<Longrightarrow> scan_ok S s \<Longrightarrow> scan_ok S t"
    and "for_each f xs s = Inr t" and "scan_ok S s"
  shows "scan_ok S t"
  using assms
proof (induction xs arbitrary: s)
  case (Cons x xs)
  then obtain s1 where "f x s = Inr s1" "for_each f xs s1 = Inr t" by (auto simp: and_then_eq_Inr)
  then show ?case using Cons.IH [of s1] Cons.prems by (metis list.set_intros)
qed simp

lemma prescan_region_ok: "prescan_region n m r t = Inr t' \<Longrightarrow> scan_ok S t \<Longrightarrow> scan_ok S t'"
proof (induction n arbitrary: r t t')
  case (Suc n)
  then obtain rg :: Region where 1: "for_each (\<lambda>b t.
       and_then (block m b) (\<lambda>bl.
       for_each (\<lambda>i t.
         and_then (op m i) (\<lambda>opn.
         for_each (\<lambda>r t. prescan_region n m r t) (op_regions opn)
           (prescan_attributes (attributes opn) (fold scan_type (result_types opn) t))))
         (ops bl) (fold (\<lambda>(_, ty). scan_type ty) (args bl) t)))
       (rg_blocks rg) t = (Inr t' :: (write_error, tables) res)"
    by (auto simp: and_then_eq_Inr)
  show ?case
  proof (rule for_each_scan_ok [OF _ 1 Suc.prems(2)])
    fix b s u assume "and_then (block m b) (\<lambda>bl.
       for_each (\<lambda>i t.
         and_then (op m i) (\<lambda>opn.
         for_each (\<lambda>r t. prescan_region n m r t) (op_regions opn)
           (prescan_attributes (attributes opn) (fold scan_type (result_types opn) t))))
         (ops bl) (fold (\<lambda>(_, ty). scan_type ty) (args bl) s)) = (Inr u :: (write_error, tables) res)" and s: "scan_ok S s"
    then obtain bl :: Block where 2: "for_each (\<lambda>i t.
         and_then (op m i) (\<lambda>opn.
         for_each (\<lambda>r t. prescan_region n m r t) (op_regions opn)
           (prescan_attributes (attributes opn) (fold scan_type (result_types opn) t))))
         (ops bl) (fold (\<lambda>(_, ty). scan_type ty) (args bl) s) = (Inr u :: (write_error, tables) res)"
      by (auto simp: and_then_eq_Inr)
    show "scan_ok S u"
    proof (rule for_each_scan_ok [OF _ 2])
      show "scan_ok S (fold (\<lambda>(_, ty). scan_type ty) (args bl) s)"
        using s by (rule fold_scan_ok) (auto intro: scan_steps_ok)
      fix i s u assume "and_then (op m i) (\<lambda>opn.
         for_each (\<lambda>r t. prescan_region n m r t) (op_regions opn)
           (prescan_attributes (attributes opn) (fold scan_type (result_types opn) s))) = (Inr u :: (write_error, tables) res)"
        and s: "scan_ok S s"
      then obtain opn :: Operation where 3: "for_each (\<lambda>r t. prescan_region n m r t) (op_regions opn)
           (prescan_attributes (attributes opn) (fold scan_type (result_types opn) s)) = (Inr u :: (write_error, tables) res)"
        by (auto simp: and_then_eq_Inr)
      show "scan_ok S u"
        by (rule for_each_scan_ok [OF _ 3])
          (auto intro: Suc.IH prescan_attributes_ok fold_scan_ok scan_steps_ok s)
    qed
  qed
qed simp

lemma prescan_module_ok:
  assumes "prescan_module m v = Inr t"
  shows "scan_ok (set_option (producer m)) t"
proof -
  obtain t0 where t0: "scan_ok (set_option (producer m)) t0"
    and f: "for_each (\<lambda>i t.
       and_then (check_region_versions (module_fuel m) m i v False False) (\<lambda>_.
         prescan_function (module_fuel m) m i t)) (mod_functions m) t0 = Inr t"
  proof -
    obtain t1 where 1: "scan_ok (set_option (producer m)) t1" and 2: "for_each (\<lambda>i t.
       and_then (check_region_versions (module_fuel m) m i v False False) (\<lambda>_.
         prescan_function (module_fuel m) m i t)) (mod_functions m)
       (fold (\<lambda>g t. scan_type (de_element_type (g_value g)) (scan_string (sym_name g) t)) (globals m) t1) = Inr t"
    proof (cases "producer m")
      case None
      then show ?thesis using assms scan_ok_new by (intro that [of "(strings_new, types_new)"]) (simp_all add: prescan_module_def)
    next
      case (Some p)
      then show ?thesis
        using assms scan_string_adds [OF scan_ok_new, of p]
        by (intro that [of "scan_string p (strings_new, types_new)"]) (auto simp: prescan_module_def and_then_eq_Inr)
    qed
    have "scan_ok (set_option (producer m)) (fold (\<lambda>g t. scan_type (de_element_type (g_value g)) (scan_string (sym_name g) t)) (globals m) t1)"
      using 1 by (rule fold_scan_ok) (auto intro: scan_steps_ok)
    then show ?thesis using 2 that by blast
  qed
  show ?thesis
  proof (rule for_each_scan_ok [OF _ f t0])
    fix i s u assume "and_then (check_region_versions (module_fuel m) m i v False False) (\<lambda>_.
         prescan_function (module_fuel m) m i s) = Inr u" and s: "scan_ok (set_option (producer m)) s"
    then obtain opn :: Operation where
      1: "for_each (prescan_region (module_fuel m) m) (op_regions opn) (prescan_attributes (attributes opn) s)
          = (Inr u :: (write_error, tables) res)"
      by (auto simp: and_then_eq_Inr prescan_function_def)
    show "scan_ok (set_option (producer m)) u"
      by (rule for_each_scan_ok [OF _ 1]) (auto intro: prescan_region_ok prescan_attributes_ok s)
  qed
qed

end
