(* ===== verification/Decoder.thy ===== *)
theory Decoder
  imports DebugInfo TypeRoundTrip
begin

text \<open>
  The decoder of whole files (\<open>decode_bytecode\<close> in \<open>cutile-ir/src/bytecode/decoder.rs\<close>): it
  collects the raw sections, then parses them in dependency order. The text it prints is
  the rendering of the parsed tables, so the result here is those tables; the lines of
  the global and function sections, which are built before printing, are exact.
\<close>

section \<open>Collecting sections\<close>

text \<open>\<open>RawSections\<close>: one optional payload for each of the \<open>NUM_SECTIONS\<close> identifiers.\<close>

type_synonym RawSections = "bytes option list"

definition raw_default :: RawSections where
  "raw_default = replicate NUM_SECTIONS None"

definition raw_insert :: "u8 \<Rightarrow> bytes \<Rightarrow> RawSections \<Rightarrow> RawSections" where
  "raw_insert i payload secs = (if unat i < length secs then secs[unat i := Some payload] else secs)"

definition raw_get :: "u8 \<Rightarrow> RawSections \<Rightarrow> bytes option" where
  "raw_get i secs = (case get_opt secs (unat i) of Some p \<Rightarrow> p | None \<Rightarrow> None)"

text \<open>Every read keeps the data and moves forward within it.\<close>

definition forward :: "Reader \<Rightarrow> Reader \<Rightarrow> bool" where
  "forward r r' \<longleftrightarrow> data r' = data r \<and> pos r \<le> pos r' \<and> (pos r < pos r' \<longrightarrow> pos r' \<le> length (data r))"

lemma forward_refl [simp]: "forward r r"
  by (simp add: forward_def)

lemma forward_trans: "forward r r' \<Longrightarrow> forward r' r'' \<Longrightarrow> forward r r''"
  by (auto simp: forward_def)

lemma read_byte_forward: "read_byte r = Inr (b, r') \<Longrightarrow> forward r r' \<and> pos r < pos r'"
  by (auto simp: read_byte_def forward_def split: if_splits)

lemma read_bytes_forward: "read_bytes n r = Inr (bs, r') \<Longrightarrow> forward r r'"
  by (auto simp: read_bytes_def forward_def and_then_eq_Inr split: if_splits)

lemma read_varint_loop_forward: "read_varint_loop acc sh r = Inr (v, r') \<Longrightarrow> forward r r'"
proof (induction acc sh r rule: read_varint_loop.induct)
  case (1 acc sh r)
  from "1.prems" obtain b r1 where b: "read_byte r = Inr (b, r1)"
    by (subst (asm) read_varint_loop.simps) (auto simp: and_then_eq_Inr)
  note f = conjunct1 [OF read_byte_forward [OF b]]
  show ?case
  proof (cases "b AND 0x80 = 0")
    case True
    then show ?thesis using f "1.prems" b by (simp add: read_varint_loop.simps [of acc sh r])
  next
    case False
    then have "read_varint_loop (acc OR push_bit sh (ucast (b AND 0x7F))) (sh + 7) r1 = Inr (v, r') \<and> sh + 7 \<le> 63"
      using "1.prems" b by (simp add: read_varint_loop.simps [of acc sh r] split: if_splits)
    then have "forward r1 r'" using "1.IH" [OF b refl refl False] by simp
    then show ?thesis by (rule forward_trans [OF f])
  qed
qed

lemma read_varint_forward: "read_varint r = Inr (v, r') \<Longrightarrow> forward r r'"
  unfolding read_varint_def by (rule read_varint_loop_forward)

lemma skip_bytes_forward: "skip_bytes n r = Inr r' \<Longrightarrow> forward r r'"
proof (induction n arbitrary: r)
  case (Suc n)
  then obtain b r1 where "read_byte r = Inr (b, r1)" "skip_bytes n r1 = Inr r'"
    by (auto simp: and_then_eq_Inr split: if_splits)
  then show ?case using Suc.IH read_byte_forward forward_trans by blast
qed simp

lemma skip_padding_forward: "skip_padding a r = Inr r' \<Longrightarrow> forward r r'"
  by (auto simp: skip_padding_def split: if_splits dest: skip_bytes_forward)

lemma read_section_header_forward:
  assumes "read_section_header r = Inr (sh, r')"
  shows "forward r r' \<and> pos r < pos r'"
proof -
  obtain b r1 where b: "read_byte r = Inr (b, r1)"
    using assms by (auto simp: read_section_header_def and_then_eq_Inr)
  have "forward r1 r'"
    using assms b
    by (auto simp: read_section_header_def and_then_eq_Inr Let_def split: if_splits
        dest!: read_varint_forward skip_padding_forward intro: forward_trans)
  then show ?thesis using read_byte_forward [OF b] forward_trans by (auto simp: forward_def)
qed

function collect_sections :: "Reader \<Rightarrow> RawSections \<Rightarrow> (decode_error, RawSections) res" where
  "collect_sections r secs =
     and_then (read_section_header r) (\<lambda>(sh, r).
       if sh_id sh = section_id Section_EndOfBytecode then Inr secs
       else and_then (read_bytes (sh_data_len sh) r) (\<lambda>(payload, r).
              collect_sections r (raw_insert (sh_id sh) payload secs)))"
  by pat_completeness auto
termination
proof (relation "measure (\<lambda>(r, secs). length (data r) - pos r)", simp)
  fix r secs x sh r1 y payload r2
  assume h: "read_section_header r = Inr x" "(sh, r1) = x"
    and b: "read_bytes (sh_data_len sh) r1 = Inr y" "(payload, r2) = y"
  have 1: "forward r r1 \<and> pos r < pos r1" using read_section_header_forward h by blast
  moreover have "forward r1 r2" using read_bytes_forward b by blast
  ultimately show "((r2, raw_insert (sh_id sh) payload secs), r, secs) \<in> measure (\<lambda>(r, secs). length (data r) - pos r)"
    by (auto simp: forward_def)
qed

declare collect_sections.simps [simp del]

section \<open>Globals and functions\<close>

definition vis_text :: "u8 \<Rightarrow> string" where
  "vis_text b = (if b = 0 then ''public'' else if b = 1 then ''private'' else ''unknown'')"

definition bool_text :: "bool \<Rightarrow> string" where
  "bool_text b = (if b then ''true'' else ''false'')"

definition parse_global ::
  "string list \<Rightarrow> string list \<Rightarrow> BytecodeVersion \<Rightarrow> Reader \<Rightarrow> (decode_error, string \<times> Reader) res" where
  "parse_global ss tys version r =
     and_then (read_varint r) (\<lambda>(name_idx, r).
     and_then (read_varint r) (\<lambda>(type_idx, r).
     and_then (read_varint r) (\<lambda>(const_idx, r).
     and_then (read_varint r) (\<lambda>(al, r).
     and_then (if version \<ge> V13_3
               then and_then (read_byte r) (\<lambda>(v, r).
                    and_then (read_varint r) (\<lambda>(c, r).
                      Inr ('', '' @ vis_text v @ '', constant='' @ bool_text (c \<noteq> 0), r)))
               else Inr ([], r)) (\<lambda>(suffix, r).
       Inr (''@'' @ name_at ss name_idx @ '' : '' @ name_at tys type_idx
            @ '' = const['' @ show_word const_idx @ ''], align '' @ show_word al @ suffix, r))))))"

definition parse_global_section ::
  "bytes \<Rightarrow> string list \<Rightarrow> string list \<Rightarrow> BytecodeVersion \<Rightarrow> (decode_error, string list) res" where
  "parse_global_section d ss tys version =
     and_then (read_varint (reader_new d)) (\<lambda>(count, r).
     and_then (with_capacity 24 (as_usize count)) (\<lambda>_.
     and_then (read_many (parse_global ss tys version) (as_usize count) r) (\<lambda>(gs, r). Inr gs)))"

definition count_ops_in_body :: "bytes \<Rightarrow> nat" where
  "count_ops_in_body d = length d"

definition parse_func :: "string list \<Rightarrow> string list \<Rightarrow> Reader \<Rightarrow> (decode_error, string \<times> Reader) res" where
  "parse_func ss tys r =
     and_then (read_varint r) (\<lambda>(name_idx, r).
     and_then (read_varint r) (\<lambda>(sig_idx, r).
     and_then (read_byte r) (\<lambda>(flags_byte, r).
     and_then (read_varint r) (\<lambda>(loc_idx, r).
     let is_kernel = (flags_byte AND function_flag_u8 FunctionFlag_KindKernel \<noteq> 0);
         has_hints = (flags_byte AND function_flag_u8 FunctionFlag_HasOptimizationHints \<noteq> 0);
         kind = (if is_kernel then ''entry'' else ''func'')
     in and_then (read_varint r) (\<lambda>(body_len, r).
        and_then (read_bytes (as_usize body_len) r) (\<lambda>(body_data, r).
          Inr (''  '' @ kind @ '' @'' @ name_at ss name_idx @ '' : '' @ name_at tys sig_idx @ [CHR 0x0A]
               @ ''    body: '' @ show_word body_len @ '' bytes, ~''
               @ show_nat (count_ops_in_body body_data) @ '' ops'' @ [CHR 0x0A]
               @ (if has_hints then ''    [has optimization_hints]'' @ [CHR 0x0A] else []), r)))))))"

definition parse_func_section :: "bytes \<Rightarrow> string list \<Rightarrow> string list \<Rightarrow> (decode_error, string list) res" where
  "parse_func_section d ss tys =
     and_then (read_varint (reader_new d)) (\<lambda>(count, r).
     and_then (with_capacity 24 (as_usize count)) (\<lambda>_.
     and_then (read_many (parse_func ss tys) (as_usize count) r) (\<lambda>(fs, r). Inr fs)))"

section \<open>The file\<close>

record Dump =
  dump_version :: BytecodeVersion
  dump_strings :: "string list"
  dump_producer :: "string option"
  dump_types :: "string list"
  dump_constants :: "nat list"
  dump_globals :: "string list"
  dump_functions :: "string list"
  dump_debug :: "(DebugLine list \<times> u64 list list) option"

definition parse_producer :: "bytes option \<Rightarrow> string list \<Rightarrow> (decode_error, string option) res" where
  "parse_producer payload ss =
     (case payload of
        None \<Rightarrow> Inr None
      | Some d \<Rightarrow>
          and_then (read_varint (reader_new d)) (\<lambda>(i, r).
          and_then (ok_or ProducerIndexOutOfRange (get_opt ss (as_usize i))) (\<lambda>n. Inr (Some n))))"

definition parse_opt :: "(bytes \<Rightarrow> ('e, 'a) res) \<Rightarrow> 'a \<Rightarrow> bytes option \<Rightarrow> ('e, 'a) res" where
  "parse_opt f dflt payload = (case payload of Some d \<Rightarrow> f d | None \<Rightarrow> Inr dflt)"

definition decode_bytecode :: "bytes \<Rightarrow> (decode_error, Dump) res" where
  "decode_bytecode d =
     and_then (read_header (reader_new d)) (\<lambda>(version, r).
     and_then (collect_sections r raw_default) (\<lambda>secs.
     and_then (parse_string_section (raw_get (section_id Section_String) secs)) (\<lambda>ss.
     and_then (parse_producer (raw_get (section_id Section_Producer) secs) ss) (\<lambda>prd.
     and_then (parse_type_section (raw_get (section_id Section_Type) secs) version) (\<lambda>tys.
     and_then (parse_constant_section (raw_get (section_id Section_Constant) secs)) (\<lambda>cs.
     and_then (parse_opt (\<lambda>p. parse_global_section p ss tys version) []
                 (raw_get (section_id Section_Global) secs)) (\<lambda>gs.
     and_then (parse_opt (\<lambda>p. parse_func_section p ss tys) []
                 (raw_get (section_id Section_Func) secs)) (\<lambda>fs.
     and_then (parse_opt (\<lambda>p. and_then (parse_debug_section p ss) (\<lambda>x. Inr (Some x))) None
                 (raw_get (section_id Section_Debug) secs)) (\<lambda>dbg.
       Inr \<lparr>dump_version = version, dump_strings = ss, dump_producer = prd, dump_types = tys,
            dump_constants = map length cs, dump_globals = gs, dump_functions = fs,
            dump_debug = dbg\<rparr>)))))))))"

end
