(* ===== verification/RoundTrip.thy ===== *)
theory RoundTrip
  imports FileFrames Decoder
begin

text \<open>
  Whole files: the sections of a file the writer produced, found again by the decoder and
  parsed back to the tables the writer held.
\<close>

section \<open>Sections in sequence\<close>

type_synonym sect = "Section \<times> u64 \<times> bytes"

fun sect_bytes :: "nat \<Rightarrow> sect list \<Rightarrow> bytes" where
  "sect_bytes p [] = []"
| "sect_bytes p ((sid, al, b) # ss) =
     section_header_bytes p sid (length b) al @ b
     @ sect_bytes (p + length (section_header_bytes p sid (length b) al) + length b) ss"

lemma sect_bytes_append:
  "sect_bytes p (xs @ ys) = sect_bytes p xs @ sect_bytes (p + length (sect_bytes p xs)) ys"
  by (induction p xs rule: sect_bytes.induct) (simp_all add: add.assoc)

text \<open>Appending one section to a file.\<close>

lemma append_section:
  assumes "out = pre @ sect_bytes (length pre) xs"
  shows "write_section_header out sid (length b) al @ b = pre @ sect_bytes (length pre) (xs @ [(sid, al, b)])"
  by (simp add: assms write_section_header_eq sect_bytes_append)

lemma payload_le: "(sid, al, b) \<in> set ss \<Longrightarrow> length b \<le> length (sect_bytes p ss)"
  by (induction p ss rule: sect_bytes.induct) fastforce+

definition raw_add :: "sect \<Rightarrow> RawSections \<Rightarrow> RawSections" where
  "raw_add = (\<lambda>(sid, al, b). raw_insert (section_id sid) b)"

lemma collect_sections_bytes:
  assumes "length pre + length (sect_bytes (length pre) ss) + 1 < isize_top"
    and "\<forall>(sid, _) \<in> set ss. sid \<noteq> Section_EndOfBytecode"
  shows "collect_sections (reader_at pre (sect_bytes (length pre) ss @ [section_id Section_EndOfBytecode])) secs
       = Inr (fold raw_add ss secs)"
  using assms
proof (induction ss arbitrary: pre secs)
  case Nil
  have "at (reader_at pre [section_id Section_EndOfBytecode]) [section_id Section_EndOfBytecode]"
    using Nil.prems by (intro at_reader_at) simp
  from read_section_header_end [OF this] show ?case
    by (simp add: collect_sections.simps [of "reader_at pre _"])
next
  case (Cons s ss)
  obtain sid al b where s: "s = (sid, al, b)" by (cases s)
  define h where "h = section_header_bytes (length pre) sid (length b) al"
  define rest where "rest = sect_bytes (length (pre @ h @ b)) ss @ [section_id Section_EndOfBytecode]"
  have suf: "sect_bytes (length pre) (s # ss) @ [section_id Section_EndOfBytecode] = h @ b @ rest"
    by (simp add: s h_def rest_def add.assoc)
  have "length (sect_bytes (length pre) (s # ss)) + 1 = length h + length b + length rest"
    using arg_cong [OF suf, of length] by simp
  then have bound: "length pre + length h + length b + length rest < isize_top"
    using Cons.prems(1) by linarith
  have sid: "sid \<noteq> Section_EndOfBytecode" using Cons.prems(2) by (simp add: s)
  have p: "pos (reader_at pre (h @ b @ rest)) = length pre" by (simp add: reader_at_def)
  have "at (reader_at pre (h @ b @ rest)) (h @ b @ rest)"
    using bound by (intro at_reader_at) simp
  from read_section_header_at [of "reader_at pre (h @ b @ rest)" sid "length b" al "b @ rest", unfolded p, folded h_def, OF this sid]
  have "read_section_header (reader_at pre (h @ b @ rest))
      = Inr (\<lparr>sh_id = section_id sid, sh_data_len = length b\<rparr>, reader_at (pre @ h) (b @ rest))"
    using bound by (simp add: advance_reader_at)
  moreover have "read_bytes (length b) (reader_at (pre @ h) (b @ rest)) = Inr (b, reader_at (pre @ h @ b) rest)"
    using read_bytes_step [of "length b" b "pre @ h" rest] bound by simp
  moreover have "collect_sections (reader_at (pre @ h @ b) rest) (raw_insert (section_id sid) b secs)
      = Inr (fold raw_add ss (raw_insert (section_id sid) b secs))"
    unfolding rest_def by (rule Cons.IH) (use Cons.prems(2) bound in \<open>simp_all add: rest_def s\<close>)
  ultimately show ?case
    unfolding suf using sid
    by (simp add: collect_sections.simps [of "reader_at pre _"] s raw_add_def section_id_end)
qed

lemma raw_get_insert:
  assumes "length secs = NUM_SECTIONS"
  shows "raw_get (section_id t) (raw_insert (section_id sid) b secs) = (if t = sid then Some b else raw_get (section_id t) secs)"
proof -
  have "unat (section_id u) < 8" for u using section_id_less [of u] by (simp add: word_less_nat_alt)
  moreover have "as_usize (section_id t) = as_usize (section_id sid) \<longleftrightarrow> t = sid"
    by (simp add: word_unat_eq_iff [symmetric])
  ultimately show ?thesis using assms
    by (auto simp: raw_get_def raw_insert_def get_opt_def NUM_SECTIONS_def nth_list_update)
qed

lemma length_raw_add [simp]: "length (raw_add s secs) = length secs"
  by (simp add: raw_add_def raw_insert_def split: prod.splits)

lemma raw_get_fold:
  assumes "length secs = NUM_SECTIONS" and "distinct (map fst ss)"
  shows "raw_get (section_id t) (fold raw_add ss secs) =
    (case map_of ss t of Some (_, b) \<Rightarrow> Some b | None \<Rightarrow> raw_get (section_id t) secs)"
  using assms
proof (induction ss arbitrary: secs)
  case (Cons s ss)
  obtain sid al b where s: "s = (sid, al, b)" by (cases s)
  have "raw_get (section_id t) (fold raw_add (s # ss) secs)
      = (case map_of ss t of Some (_, b) \<Rightarrow> Some b | None \<Rightarrow> raw_get (section_id t) (raw_add s secs))"
    using Cons by simp
  moreover have "sid = t \<Longrightarrow> map_of ss t = None" using Cons.prems(2) by (force simp: s map_of_eq_None_iff)
  ultimately show ?case
    using raw_get_insert [OF Cons.prems(1), of t sid b] by (auto simp: s raw_add_def split: option.splits)
qed simp

lemma length_raw_default [simp]: "length raw_default = NUM_SECTIONS"
  by (simp add: raw_default_def)

lemma raw_get_default: "raw_get (section_id t) raw_default = None"
  by (cases t) (simp_all add: raw_get_def raw_default_def get_opt_def NUM_SECTIONS_def)

section \<open>Names behind indices\<close>

definition string_names :: "WriterCtx \<Rightarrow> string list" where
  "string_names c = map (shown \<circ> fst) (str_map (strings c))"

definition type_names :: "WriterCtx \<Rightarrow> string list" where
  "type_names c = map (type_desc None) (ty_list (types c))"

lemma name_of_string:
  assumes "str_known c str k" and "length (str_map (strings c)) < usize_top"
  shows "name_at (string_names c) k = shown str"
proof -
  obtain j where j: "j < length (str_map (strings c))" "map fst (str_map (strings c)) ! j = str" "k = as_u64 j"
    using assms(1) by (auto simp: str_known_def)
  then have "string_names c ! j = shown str" by (auto simp: string_names_def)
  then show ?thesis using j assms(2) by (simp add: name_at_def get_opt_def string_names_def)
qed

lemma name_of_type:
  assumes "ty_known c ty k" and "length (ty_list (types c)) < usize_top"
  shows "name_at (type_names c) k = type_desc None ty"
  using assms by (auto simp: ty_known_def name_at_def get_opt_def type_names_def)

section \<open>Globals read back\<close>

definition global_line :: "BytecodeVersion \<Rightarrow> nat \<times> Global \<Rightarrow> string" where
  "global_line v = (\<lambda>(k, g).
     ''@'' @ shown (sym_name g) @ '' : '' @ type_desc None (de_element_type (g_value g))
     @ '' = const['' @ show_word (as_u64 k) @ ''], align '' @ show_word (alignment g)
     @ (if v \<ge> V13_3
        then '', '' @ vis_text (symbol_visibility_u8 (symbol_visibility g))
             @ '', constant='' @ bool_text (g_constant g)
        else []))"

lemma parse_global_entry:
  assumes "global_entry c v kg e" and "length (str_map (strings c)) < usize_top" "length (ty_list (types c)) < usize_top"
    and "length pre + (length e + length rest) < isize_top"
  shows "parse_global (string_names c) (type_names c) v (reader_at pre (e @ rest))
       = Inr (global_line v kg, reader_at (pre @ e) rest)"
proof -
  obtain k g where kg: "kg = (k, g)" by (cases kg)
  obtain ni ti where e: "e = global_bytes v g ni ti k"
    and k: "str_known c (sym_name g) ni" "ty_known c (de_element_type (g_value g)) ti"
    using assms(1) by (auto simp: global_entry_def kg)
  define cst where "cst = (if g_constant g then 1 else 0 :: u64)"
  have cst: "cst \<noteq> 0 \<longleftrightarrow> g_constant g" by (simp add: cst_def)
  note names = name_of_string [OF k(1) assms(2)] name_of_type [OF k(2) assms(3)]
  show ?thesis
  proof (cases "v \<ge> V13_3")
    case True
    then have eq: "e = varint ni @ varint ti @ varint (as_u64 k) @ varint (alignment g)
        @ [symbol_visibility_u8 (symbol_visibility g)] @ varint cst"
      by (simp add: e global_bytes_def cst_def)
    show ?thesis using True names assms(4) unfolding eq
      by (simp add: parse_global_def reader_steps global_line_def kg cst)
  next
    case False
    then have eq: "e = varint ni @ varint ti @ varint (as_u64 k) @ varint (alignment g)"
      by (simp add: e global_bytes_def)
    show ?thesis using False names assms(4) unfolding eq
      by (simp add: parse_global_def reader_steps global_line_def kg)
  qed
qed

lemma read_many_entries:
  assumes "list_all2 P xs es"
    and "\<And>x e. P x e \<Longrightarrow> \<exists>y. R x y \<and> (\<forall>pre rest. length pre + (length e + length rest) < isize_top \<longrightarrow>
      f (reader_at pre (e @ rest)) = Inr (y, reader_at (pre @ e) rest))"
    and "length pre + (length (concat es) + length rest) < isize_top"
  shows "\<exists>ys. list_all2 R xs ys \<and>
    read_many f (length xs) (reader_at pre (concat es @ rest)) = Inr (ys, reader_at (pre @ concat es) rest)"
  using assms(1,3)
proof (induction xs es arbitrary: pre rule: list_all2_induct)
  case (Cons x xs e es)
  obtain y where y: "R x y" "\<forall>pre rest. length pre + (length e + length rest) < isize_top \<longrightarrow>
      f (reader_at pre (e @ rest)) = Inr (y, reader_at (pre @ e) rest)"
    using assms(2) [OF Cons.hyps(1)] by blast
  have "f (reader_at pre (e @ concat es @ rest)) = Inr (y, reader_at (pre @ e) (concat es @ rest))"
    using Cons.prems by (intro y(2) [rule_format]) simp
  moreover obtain ys where "list_all2 R xs ys"
    "read_many f (length xs) (reader_at (pre @ e) (concat es @ rest)) = Inr (ys, reader_at (pre @ e @ concat es) rest)"
    using Cons.IH [of "pre @ e"] Cons.prems by auto
  ultimately show ?case using y(1) by (intro exI [of _ "y # ys"]) simp
qed simp

text \<open>Entries that are not empty are no more numerous than their bytes.\<close>

lemma entries_le: "list_all2 P xs es \<Longrightarrow> (\<And>x e. P x e \<Longrightarrow> e \<noteq> []) \<Longrightarrow> length xs \<le> length (concat es)"
proof (induction rule: list_all2_induct)
  case (Cons x xs e es)
  then have "0 < length e" by simp
  then show ?case using Cons by (simp del: length_greater_0_conv)
qed simp

lemma list_all2_eq_map: "list_all2 (\<lambda>x y. y = g x) xs ys \<Longrightarrow> ys = map g xs"
  by (induction rule: list_all2_induct) simp_all

lemma parse_globals:
  assumes "list_all2 (global_entry c v) kgs es" and "length (str_map (strings c)) < usize_top" "length (ty_list (types c)) < usize_top"
    and "length (varint (as_u64 (length kgs)) @ concat es) < 2 ^ 32"
  shows "parse_global_section (varint (as_u64 (length kgs)) @ concat es) (string_names c) (type_names c) v
       = Inr (map (global_line v) kgs)"
proof -
  let ?n = "as_u64 (length kgs)"
  have "length kgs \<le> length (concat es)"
    using assms(1) by (rule entries_le) (auto simp: global_entry_def global_bytes_def)
  then have n: "length kgs < 2 ^ 32" using assms(4) by simp
  have "\<exists>ys. list_all2 (\<lambda>x y. y = global_line v x) kgs ys \<and>
      read_many (parse_global (string_names c) (type_names c) v) (length kgs) (reader_at (varint ?n) (concat es @ []))
        = Inr (ys, reader_at (varint ?n @ concat es) [])"
    by (rule read_many_entries [OF assms(1)]) (use assms(4) in \<open>auto intro: parse_global_entry [OF _ assms(2,3)]\<close>)
  then have "read_many (parse_global (string_names c) (type_names c) v) (length kgs) (reader_at (varint ?n) (concat es))
        = Inr (map (global_line v) kgs, reader_at (varint ?n @ concat es) [])"
    by (auto dest!: list_all2_eq_map)
  then show ?thesis
    using n assms(4) by (simp add: parse_global_section_def reader_steps with_capacity_ok)
qed

section \<open>Functions read back\<close>

definition function_line :: "Operation \<Rightarrow> string \<Rightarrow> Type \<Rightarrow> nat \<Rightarrow> string" where
  "function_line opn name ty n =
     ''  '' @ (if opcode opn = Op_Entry then ''entry'' else ''func'') @ '' @'' @ shown name @ '' : ''
     @ type_desc None ty @ [CHR 0x0A]
     @ ''    body: '' @ show_nat n @ '' bytes, ~'' @ show_nat n @ '' ops'' @ [CHR 0x0A]"

text \<open>The line of a function of the module, for some length of its body.\<close>

definition function_shown :: "Module \<Rightarrow> OpId \<Rightarrow> string \<Rightarrow> bool" where
  "function_shown m i line \<longleftrightarrow> (\<exists>opn name ty n.
     op m i = (Inr opn :: (write_error, Operation) res) \<and>
     find_string_attr (attributes opn) ''sym_name'' = Some name \<and>
     find_type_attr (attributes opn) ''function_type'' = Some ty \<and> line = function_line opn name ty n)"

definition hints_free :: "Module \<Rightarrow> OpId \<Rightarrow> bool" where
  "hints_free m i \<longleftrightarrow> (case op m i :: (write_error, Operation) res of Inr opn \<Rightarrow> \<not> hinted opn | Inl _ \<Rightarrow> True)"

lemma parse_func_entry:
  assumes f: "function_entry c i e" and h: "hints_free (ctx_module c) i"
    and n: "length (str_map (strings c)) < usize_top" "length (ty_list (types c)) < usize_top"
  shows "\<exists>line. function_shown (ctx_module c) i line \<and>
    (\<forall>pre rest. length pre + (length e + length rest) < isize_top \<longrightarrow>
       parse_func (string_names c) (type_names c) (reader_at pre (e @ rest)) = Inr (line, reader_at (pre @ e) rest))"
proof -
  obtain opn name ty ni ti di hints body where
    o: "op (ctx_module c) i = (Inr opn :: (write_error, Operation) res)"
    and a: "find_string_attr (attributes opn) ''sym_name'' = Some name" "find_type_attr (attributes opn) ''function_type'' = Some ty"
    and e: "e = function_bytes opn ni ti di hints body" and nh: "\<not> hinted opn \<longrightarrow> hints = []"
    and k: "str_known c name ni" "ty_known c ty ti"
    using f unfolding function_entry_def by (elim exE conjE) (rule that)
  have nh': "\<not> hinted opn" using h o by (simp add: hints_free_def)
  then have e': "e = varint ni @ varint ti @ [function_flags opn] @ varint di @ varint (as_u64 (length body)) @ body"
    using nh by (simp add: e function_bytes_def)
  have flags: "function_flags opn AND function_flag_u8 FunctionFlag_KindKernel \<noteq> 0 \<longleftrightarrow> opcode opn = Op_Entry"
    "function_flags opn AND function_flag_u8 FunctionFlag_HasOptimizationHints = 0"
    using nh' by (auto simp: function_flags_def hinted_def)
  have "parse_func (string_names c) (type_names c) (reader_at pre (e @ rest))
      = Inr (function_line opn name ty (length body), reader_at (pre @ e) rest)"
    if "length pre + (length e + length rest) < isize_top" for pre rest
  proof -
    have "unat (as_u64 (length body)) = length body" using that by (simp add: e')
    then show ?thesis
      using that name_of_string [OF k(1) n(1)] name_of_type [OF k(2) n(2)] flags unfolding e'
      by (simp add: parse_func_def reader_steps read_bytes_step Let_def function_line_def show_word_def count_ops_in_body_def
          del: function_flag_u8.simps)
  qed
  moreover have "function_shown (ctx_module c) i (function_line opn name ty (length body))"
    unfolding function_shown_def using o a by blast
  ultimately show ?thesis by blast
qed

lemma parse_functions:
  assumes "list_all2 (function_entry c) is es" and "\<forall>i \<in> set is. hints_free (ctx_module c) i"
    and "length (str_map (strings c)) < usize_top" "length (ty_list (types c)) < usize_top"
    and "length (varint (as_u64 (length is)) @ concat es @ pad) < 2 ^ 32"
  shows "\<exists>ls. list_all2 (function_shown (ctx_module c)) is ls \<and>
    parse_func_section (varint (as_u64 (length is)) @ concat es @ pad) (string_names c) (type_names c) = Inr ls"
proof -
  let ?n = "as_u64 (length is)"
  have "length is \<le> length (concat es)"
    using assms(1) by (rule entries_le) (auto simp: function_entry_def function_bytes_def)
  then have n: "length is < 2 ^ 32" using assms(5) by simp
  have "list_all2 (\<lambda>i e. function_entry c i e \<and> hints_free (ctx_module c) i) is es"
    using assms(1,2) by (simp add: list_all2_conv_all_nth)
  then have "\<exists>ls. list_all2 (function_shown (ctx_module c)) is ls \<and>
      read_many (parse_func (string_names c) (type_names c)) (length is) (reader_at (varint ?n) (concat es @ pad))
        = Inr (ls, reader_at (varint ?n @ concat es) pad)"
  proof (rule read_many_entries)
    show "length (varint ?n) + (length (concat es) + length pad) < isize_top" using assms(5) by simp
  qed (elim conjE, rule parse_func_entry [OF _ _ assms(3,4)])
  then show ?thesis
    using n assms(5) by (auto simp: parse_func_section_def reader_steps with_capacity_ok)
qed

section \<open>Sizes\<close>

text \<open>Every table is no larger than its payload.\<close>

lemma table_bytes_size:
  "k * length es \<le> length (table_bytes al k t es)" "length (concat es) \<le> length (table_bytes al k t es)"
  unfolding table_bytes_def by (simp_all only: length_append length_concat_offsets length_offsets_from)

lemma string_payload_size:
  "length (str_map m) \<le> length (string_payload m)" "length (concat (map fst (str_map m))) \<le> length (string_payload m)"
  using table_bytes_size [where k = 4 and al = 4 and t = "TYPE(32)" and es = "map (\<lambda>(s, _). as_bytes s) (str_map m)"]
  by (simp_all add: string_payload_def length_concat comp_def case_prod_beta)

lemma type_payload_size:
  "length (ty_list m) \<le> length (type_payload m v)" "length (concat (type_entries m v)) \<le> length (type_payload m v)"
  using table_bytes_size [where k = 4 and al = 4 and t = "TYPE(32)" and es = "type_entries m v"]
  by (simp_all add: type_payload_def) (simp add: type_entries_def)

lemma constant_payload_size: "length (const_entries m) \<le> length (constant_payload m)"
  using table_bytes_size [where k = 8 and al = 8 and t = "TYPE(64)" and es = "const_entries m"]
  by (simp add: constant_payload_def)

lemma debug_payload_size:
  defines "es d \<equiv> da_entries (ensure_non_empty (attrs d))"
  shows "length (per_function d) \<le> length (debug_payload d)" "length (concat (per_function d)) \<le> length (debug_payload d)"
    "length (es d) \<le> length (debug_payload d)" "length (concat (es d)) \<le> length (debug_payload d)"
  unfolding es_def debug_payload_def Let_def
  by (simp_all only: length_append length_concat_offsets length_offsets_from length_concat_to_le)

section \<open>The sections of a file\<close>

definition opt_sect :: "bool \<Rightarrow> sect \<Rightarrow> sect list" where
  "opt_sect b s = (if b then [s] else [])"

definition file_sections :: "Module \<Rightarrow> BytecodeVersion \<Rightarrow> WriterCtx \<Rightarrow> bytes \<Rightarrow> bytes \<Rightarrow> sect list" where
  "file_sections m v c gp fp =
     opt_sect (globals m \<noteq> []) (Section_Global, 1, gp)
     @ opt_sect (mod_functions m \<noteq> []) (Section_Func, 8, fp)
     @ opt_sect (const_entries (constants c) \<noteq> []) (Section_Constant, 8, constant_payload (constants c))
     @ [(Section_Debug, 8, debug_payload (debug c))]
     @ opt_sect (ty_list (types c) \<noteq> []) (Section_Type, 4, type_payload (types c) v)
     @ opt_sect (str_map (strings c) \<noteq> []) (Section_String, 4, string_payload (strings c))
     @ (case producer m of
          Some p \<Rightarrow> [(Section_Producer, 1, varint (fst (string_get_or_insert p (strings c))))] | None \<Rightarrow> [])"

lemma file_sections_distinct: "distinct (map fst (file_sections m v c gp fp))"
  by (auto simp: file_sections_def opt_sect_def split: option.splits)

lemma file_sections_no_end: "\<forall>(sid, _) \<in> set (file_sections m v c gp fp). sid \<noteq> Section_EndOfBytecode"
  by (auto simp: file_sections_def opt_sect_def split: option.splits if_splits)

lemma map_of_file_sections:
  "map_of (file_sections m v c gp fp) Section_Global = (if globals m \<noteq> [] then Some (1, gp) else None)"
  "map_of (file_sections m v c gp fp) Section_Func = (if mod_functions m \<noteq> [] then Some (8, fp) else None)"
  "map_of (file_sections m v c gp fp) Section_Constant
     = (if const_entries (constants c) \<noteq> [] then Some (8, constant_payload (constants c)) else None)"
  "map_of (file_sections m v c gp fp) Section_Debug = Some (8, debug_payload (debug c))"
  "map_of (file_sections m v c gp fp) Section_Type = (if ty_list (types c) \<noteq> [] then Some (4, type_payload (types c) v) else None)"
  "map_of (file_sections m v c gp fp) Section_String = (if str_map (strings c) \<noteq> [] then Some (4, string_payload (strings c)) else None)"
  "map_of (file_sections m v c gp fp) Section_Producer
     = map_option (\<lambda>p. (1, varint (fst (string_get_or_insert p (strings c))))) (producer m)"
  by (auto simp: file_sections_def opt_sect_def split: option.splits)

definition written :: "Module \<Rightarrow> BytecodeVersion \<Rightarrow> WriterCtx \<Rightarrow> bytes list \<Rightarrow> bytes list \<Rightarrow> bytes \<Rightarrow> bool" where
  "written m v c ges fes pad \<longleftrightarrow>
     ctx_module c = m \<and> tables_ok c \<and>
     list_all2 (global_entry c v) (enumerate 0 (globals m)) ges \<and>
     list_all2 (function_entry c) (mod_functions m) fes \<and>
     length (per_function (debug c)) = length (mod_functions m) \<and>
     (\<forall>ty \<in> set (ty_list (types c)). encodable v ty) \<and>
     set_option (producer m) \<subseteq> fst ` set (str_map (strings c))"

definition global_payload :: "Module \<Rightarrow> bytes list \<Rightarrow> bytes" where
  "global_payload m ges = varint (as_u64 (length (globals m))) @ concat ges"

definition function_payload :: "Module \<Rightarrow> bytes list \<Rightarrow> bytes \<Rightarrow> bytes" where
  "function_payload m fes pad = varint (as_u64 (length (mod_functions m))) @ concat fes @ pad"

lemma global_section_written:
  assumes "write_global_section out c = Inr (out', c')" and "tables_ok c" and "const_entries (constants c) = []"
    and m: "ctx_module c = m"
  shows "\<exists>ges. out' = (if globals m \<noteq> []
      then write_section_header out Section_Global (length (global_payload m ges)) 1 @ global_payload m ges else out) \<and>
    tables_ok c' \<and> tables_extend c c' \<and> ctx_module c' = m \<and>
    length (per_function (debug c')) = length (per_function (debug c)) \<and>
    list_all2 (global_entry c' (ctx_version c)) (enumerate 0 (globals m)) ges"
proof (cases "globals (ctx_module c) = []")
  case True
  then show ?thesis using assms by (auto simp: write_global_section_def)
next
  case False
  let ?w = "write_varint (as_u64 (length (globals (ctx_module c)))) writer_new"
  obtain t where t: "for_each write_global (globals (ctx_module c)) (c, ?w) = Inr t"
    and o: "out' = write_section_header out Section_Global (length (buf (snd t))) 1 @ buf (snd t)" "c' = fst t"
    using False assms(1) by (auto simp: write_global_section_def Let_def and_then_eq_Inr)
  have "ensures tables_frame (for_each write_global (globals (ctx_module c)))"
    by (intro tab.ok_for_each write_global_frame)
  from ensuresD [OF this t] have tf: "tables_frame (c, ?w) t" .
  obtain ges where "buf (snd t) = buf ?w @ concat ges"
    "list_all2 (global_entry (fst t) (ctx_version c)) (enumerate 0 (globals (ctx_module c))) ges"
    using globals_bytes [of "(c, ?w)", OF _ t] assms(2,3) by auto
  then show ?thesis using False o tf assms(2)
    by (intro exI [of _ ges]) (simp add: tables_frame_def layout_simps global_payload_def m)
qed

lemma function_section_written:
  assumes "write_function_section H n out c = Inr (out', c')" and "tables_ok c" and m: "ctx_module c = m"
  shows "\<exists>fes pad. out' = (if mod_functions m \<noteq> []
      then write_section_header out Section_Func (length (function_payload m fes pad)) 8 @ function_payload m fes pad else out) \<and>
    tables_ok c' \<and> tables_extend c c' \<and> ctx_module c' = m \<and>
    length (per_function (debug c')) = length (per_function (debug c)) + length (mod_functions m) \<and>
    list_all2 (function_entry c') (mod_functions m) fes"
proof (cases "mod_functions (ctx_module c) = []")
  case True
  then show ?thesis using assms by (auto simp: write_function_section_def)
next
  case False
  let ?w = "write_varint (as_u64 (length (mod_functions (ctx_module c)))) writer_new"
  obtain t where t: "for_each (write_function H n) (mod_functions (ctx_module c)) (c, ?w) = Inr t"
    and o: "out' = write_section_header out Section_Func (length (buf (align_to 8 (snd t)))) 8 @ buf (align_to 8 (snd t))" "c' = fst t"
    using False assms(1) by (auto simp: write_function_section_def Let_def and_then_eq_Inr)
  have ok: "tables_ok (fst (c, ?w))" using assms(2) by simp
  obtain fes where "buf (snd t) = buf ?w @ concat fes" "list_all2 (function_entry (fst t)) (mod_functions (ctx_module c)) fes"
    "file_frame (c, ?w) t" "length (per_function (debug (fst t))) = length (per_function (debug c)) + length (mod_functions (ctx_module c))"
    using functions_bytes [OF ok t] by auto
  then show ?thesis using False o assms(2)
    by (intro exI [of _ fes] exI [of _ "pad_bytes 8 (length (buf (snd t)))"]) (simp add: file_frame_def layout_simps function_payload_def m)
qed

text \<open>The steps of a successful run.\<close>

lemma write_bytecode_versionE:
  assumes "write_bytecode_version H m v = Inr bytes"
  obtains ss tys o1 c1 o2 c2 o3 o5 o6 where "prescan_module m v = Inr (ss, tys)" "v \<in> set SUPPORTED"
    "write_global_section (header_bytes v) ((writer_ctx_new m v)\<lparr>strings := ss, types := tys\<rparr>) = Inr (o1, c1)"
    "write_function_section H (module_fuel m) o1 c1 = Inr (o2, c2)"
    "write_constant_section o2 (constants c2) = Inr o3"
    "write_type_section (fst (write_debug_section o3 (debug c2))) (types c2) v = Inr o5"
    "write_string_section o5 (strings c2) = Inr o6"
    "bytes = write_producer o6 (producer m) (strings c2) @ [section_id Section_EndOfBytecode]"
proof -
  have v: "\<not> v < MIN_SUPPORTED" "v \<in> set SUPPORTED"
    using assms by (auto simp: write_bytecode_version_def split: if_splits)
  obtain ss tys where ps: "prescan_module m v = Inr (ss, tys)"
    using assms v by (auto simp: write_bytecode_version_def and_then_eq_Inr)
  obtain o1 c1 where 1: "write_global_section (header_bytes v) ((writer_ctx_new m v)\<lparr>strings := ss, types := tys\<rparr>) = Inr (o1, c1)"
    using assms v ps by (auto simp: write_bytecode_version_def and_then_eq_Inr Let_def write_header_eq)
  obtain o2 c2 where 2: "write_function_section H (module_fuel m) o1 c1 = Inr (o2, c2)"
    using assms v ps 1 by (auto simp: write_bytecode_version_def and_then_eq_Inr Let_def write_header_eq)
  obtain o3 where 3: "write_constant_section o2 (constants c2) = Inr o3"
    using assms v ps 1 2 by (auto simp: write_bytecode_version_def and_then_eq_Inr Let_def write_header_eq)
  show thesis
    using assms v ps 1 2 3
    by (auto simp: write_bytecode_version_def and_then_eq_Inr Let_def write_header_eq case_prod_beta
        intro: that [OF ps v(2) 1 2 3])
qed

text \<open>A file prefix that holds the given sections behind its header.\<close>

definition holds :: "BytecodeVersion \<Rightarrow> bytes \<Rightarrow> sect list \<Rightarrow> bool" where
  "holds v out xs \<longleftrightarrow> out = header_bytes v @ sect_bytes 12 xs"

lemma holds_opt:
  assumes "holds v out xs"
  shows "holds v (if b then write_section_header out sid (length p) al @ p else out) (xs @ opt_sect b (sid, al, p))"
  using assms append_section [of out "header_bytes v" xs sid p al] by (simp add: holds_def opt_sect_def)

lemma holds_section:
  assumes "holds v out xs"
  shows "holds v (write_section_header out sid (length p) al @ p) (xs @ [(sid, al, p)])"
  using holds_opt [OF assms, of True] by (simp add: opt_sect_def)

lemma written_file:
  assumes "write_bytecode_version H m v = Inr bytes"
  shows "\<exists>c ges fes pad. written m v c ges fes pad \<and>
    bytes = header_bytes v
      @ sect_bytes 12 (file_sections m v c (global_payload m ges) (function_payload m fes pad))
      @ [section_id Section_EndOfBytecode]"
  using assms
proof (cases rule: write_bytecode_versionE)
  case (1 ss tys o1 c1 o2 c o3 o5 o6)
  define c0 where "c0 = (writer_ctx_new m v)\<lparr>strings := ss, types := tys\<rparr>"
  have scan: "scan_ok (set_option (producer m)) (ss, tys)" by (rule prescan_module_ok [OF 1(1)])
  have "debug_ok ss debug_table_new"
    using scan debug_ok_new by (simp add: scan_ok_def debug_ok_def) (simp add: debug_table_new_def)
  then have ok0: "tables_ok c0"
    using scan debug_inv_new by (simp add: tables_ok_def c0_def scan_ok_def writer_ctx_new_def)
  have c0: "ctx_module c0 = m" "ctx_version c0 = v" "const_entries (constants c0) = []" "per_function (debug c0) = []"
    "strings c0 = ss"
    by (simp_all add: c0_def writer_ctx_new_def constants_new_def debug_new_def)
  obtain ges where g: "o1 = (if globals m \<noteq> [] then write_section_header (header_bytes v) Section_Global (length (global_payload m ges)) 1
        @ global_payload m ges else header_bytes v)"
    "tables_ok c1" "tables_extend c0 c1" "ctx_module c1 = m" "length (per_function (debug c1)) = length (per_function (debug c0))"
    "list_all2 (global_entry c1 v) (enumerate 0 (globals m)) ges"
    using global_section_written [OF 1(3) [folded c0_def] ok0 c0(3,1)] unfolding c0(2) by blast
  obtain fes pad where f: "o2 = (if mod_functions m \<noteq> [] then write_section_header o1 Section_Func (length (function_payload m fes pad)) 8
        @ function_payload m fes pad else o1)"
    "tables_ok c" "tables_extend c1 c" "ctx_module c = m"
    "length (per_function (debug c)) = length (per_function (debug c1)) + length (mod_functions m)"
    "list_all2 (function_entry c) (mod_functions m) fes"
    using function_section_written [OF 1(4) g(2,4)] by blast
  have "tables_extend c0 c" by (rule tables_extend_trans [OF g(3) f(3)])
  then have "fst ` set (str_map ss) \<subseteq> fst ` set (str_map (strings c))"
    unfolding tables_extend_def c0 by (metis set_append set_map sup_ge1)
  moreover have "list_all2 (global_entry c v) (enumerate 0 (globals m)) ges"
    by (rule list_all2_mono [OF g(6)]) (rule global_entry_extend [OF f(3)])
  moreover have enc: "\<forall>ty \<in> set (ty_list (types c)). encodable v ty"
    using write_type_section_encodable [OF 1(6)] by blast
  ultimately have w: "written m v c ges fes pad"
    using f g(5) c0(4) scan by (auto simp: written_def scan_ok_def)
  have t: "types_wf (types c)" using f(2) by (simp add: tables_ok_def)
  have "holds v (header_bytes v) []" by (simp add: holds_def)
  from holds_opt [OF this, of "globals m \<noteq> []" Section_Global "global_payload m ges" 1]
  have h1: "holds v o1 (opt_sect (globals m \<noteq> []) (Section_Global, 1, global_payload m ges))" (is "holds v o1 ?s1")
    unfolding g(1) by simp
  from holds_opt [OF this, of "mod_functions m \<noteq> []" Section_Func "function_payload m fes pad" 8]
  have h2: "holds v o2 (?s1 @ opt_sect (mod_functions m \<noteq> []) (Section_Func, 8, function_payload m fes pad))" (is "holds v o2 ?s2")
    unfolding f(1) .
  from holds_opt [OF this, of "const_entries (constants c) \<noteq> []" Section_Constant "constant_payload (constants c)" 8]
  have h3: "holds v o3 (?s2 @ opt_sect (const_entries (constants c) \<noteq> []) (Section_Constant, 8, constant_payload (constants c)))" (is "holds v o3 ?s3")
    using 1(5) by (simp add: write_constant_section_eq split: if_splits)
  from holds_section [OF this, of Section_Debug "debug_payload (debug c)" 8]
  have h4: "holds v (fst (write_debug_section o3 (debug c))) (?s3 @ [(Section_Debug, 8, debug_payload (debug c))])" (is "holds v _ ?s4")
    by (simp add: write_debug_section_eq)
  from holds_opt [OF this, of "ty_list (types c) \<noteq> []" Section_Type "type_payload (types c) v" 4]
  have h5: "holds v o5 (?s4 @ opt_sect (ty_list (types c) \<noteq> []) (Section_Type, 4, type_payload (types c) v))" (is "holds v o5 ?s5")
    using 1(6) by (simp add: write_type_section_eq [OF t enc] split: if_splits)
  from holds_opt [OF this, of "str_map (strings c) \<noteq> []" Section_String "string_payload (strings c)" 4]
  have h6: "holds v o6 (?s5 @ opt_sect (str_map (strings c) \<noteq> []) (Section_String, 4, string_payload (strings c)))" (is "holds v o6 ?s6")
    using 1(7) by (simp add: write_string_section_eq split: if_splits)
  have "holds v (write_producer o6 (producer m) (strings c)) (file_sections m v c (global_payload m ges) (function_payload m fes pad))"
    using h6 holds_section [OF h6, of Section_Producer _ 1]
    by (cases "producer m") (simp_all add: write_producer_def file_sections_def layout_simps Let_def)
  then have "bytes = header_bytes v
      @ sect_bytes 12 (file_sections m v c (global_payload m ges) (function_payload m fes pad))
      @ [section_id Section_EndOfBytecode]"
    using 1(8) by (simp add: holds_def)
  then show ?thesis using w by blast
qed

section \<open>The file read back\<close>

definition dump_of :: "Module \<Rightarrow> BytecodeVersion \<Rightarrow> WriterCtx \<Rightarrow> string list \<Rightarrow> DebugLine list \<Rightarrow> Dump" where
  "dump_of m v c ls ds =
     \<lparr>dump_version = v, dump_strings = string_names c, dump_producer = map_option shown (producer m),
      dump_types = type_names c, dump_constants = map length (const_entries (constants c)),
      dump_globals = map (global_line v) (enumerate 0 (globals m)), dump_functions = ls,
      dump_debug = Some (ds, per_function (debug c))\<rparr>"

lemma producer_read:
  assumes "tables_ok c" and "p \<in> fst ` set (str_map (strings c))" and "length (str_map (strings c)) < usize_top"
  shows "parse_producer (Some (varint (fst (string_get_or_insert p (strings c))))) (string_names c) = Inr (Some (shown p))"
proof -
  have w: "strings_wf (strings c)" using assms(1) debug_inv_strings_wf by (auto simp: tables_ok_def)
  obtain j where j: "j < length (str_map (strings c))" "map fst (str_map (strings c)) ! j = p"
    using assms(2) by (metis in_set_conv_nth length_map set_map)
  then have "fst (string_get_or_insert p (strings c)) = as_u64 j"
    using strs.intern_position [OF w, of j] by simp
  moreover have "string_names c ! j = shown p" using j by (auto simp: string_names_def)
  moreover have "length (varint (as_u64 j)) < isize_top" using varint_length [of "as_u64 j"] by simp
  ultimately show ?thesis
    using j assms(3) by (simp add: parse_producer_def reader_steps get_opt_def string_names_def)
qed

lemma empty_sections:
  "parse_string_section None = Inr []" "parse_type_section None v = Inr []" "parse_constant_section None = Inr []"
  "parse_producer None ss = Inr None"
  by (simp_all add: parse_string_section_def parse_type_section_def parse_constant_section_def parse_producer_def)

text \<open>Each section read back, when it is below 4 GiB or absent.\<close>

definition fits :: "sect list \<Rightarrow> bool" where
  "fits ss \<longleftrightarrow> (\<forall>sid al p. map_of ss sid = Some (al, p) \<longrightarrow> length p < 2 ^ 32)"

lemma fitsD: "fits ss \<Longrightarrow> map_of ss sid = Some (al, p) \<Longrightarrow> length p < 2 ^ 32"
  by (simp add: fits_def)

lemma fits_below: "length (sect_bytes p ss) < 2 ^ 32 \<Longrightarrow> fits ss"
  using payload_le [OF map_of_SomeD, of ss _ _ _ p] unfolding fits_def by (meson le_less_trans)

lemma fits_tables:
  assumes "fits (file_sections m v c gp fp)"
  shows "length (str_map (strings c)) < 2 ^ 32" "length (concat (map fst (str_map (strings c)))) < 2 ^ 32"
    "length (ty_list (types c)) < 2 ^ 32" "length (concat (type_entries (types c) v)) < 2 ^ 32"
proof -
  show "length (str_map (strings c)) < 2 ^ 32" "length (concat (map fst (str_map (strings c)))) < 2 ^ 32"
    using fitsD [OF assms, of Section_String] string_payload_size [of "strings c"]
    by (cases "str_map (strings c) = []"; force simp: map_of_file_sections)+
  show "length (ty_list (types c)) < 2 ^ 32" "length (concat (type_entries (types c) v)) < 2 ^ 32"
    using fitsD [OF assms, of Section_Type] type_payload_size [of "types c" v]
    by (cases "ty_list (types c) = []"; force simp: map_of_file_sections type_entries_def)+
qed

lemma tables_read:
  assumes fits: "fits (file_sections m v c gp fp)" and ok: "tables_ok c" and enc: "\<forall>ty \<in> set (ty_list (types c)). encodable v ty"
    and prd: "set_option (producer m) \<subseteq> fst ` set (str_map (strings c))"
  defines "get t \<equiv> map_option snd (map_of (file_sections m v c gp fp) t)"
  shows "parse_string_section (get Section_String) = Inr (string_names c)"
    and "parse_type_section (get Section_Type) v = Inr (type_names c)"
    and "parse_constant_section (get Section_Constant) = Inr (const_entries (constants c))"
    and "parse_producer (get Section_Producer) (string_names c) = Inr (map_option shown (producer m))"
proof -
  note n = fits_tables [OF fits]
  show "parse_string_section (get Section_String) = Inr (string_names c)"
    using parse_string_payload [OF n(1,2)]
    by (cases "str_map (strings c) = []") (simp_all add: get_def map_of_file_sections string_names_def empty_sections)
  show "parse_type_section (get Section_Type) v = Inr (type_names c)"
    using parse_type_payload [OF _ enc _ n(3,4)] ok
    by (cases "ty_list (types c) = []")
      (simp_all add: get_def map_of_file_sections type_names_def empty_sections tables_ok_def)
  show "parse_constant_section (get Section_Constant) = Inr (const_entries (constants c))"
    using parse_constant_payload [of "constants c"] constant_payload_size [of "constants c"] fitsD [OF fits, of Section_Constant]
    by (cases "const_entries (constants c) = []") (force simp: get_def map_of_file_sections empty_sections)+
  show "parse_producer (get Section_Producer) (string_names c) = Inr (map_option shown (producer m))"
    using producer_read [OF ok] prd n(1)
    by (cases "producer m") (simp_all add: get_def map_of_file_sections empty_sections)
qed

lemma globals_read:
  assumes w: "written m v c ges fes pad" and fits: "fits (file_sections m v c (global_payload m ges) fp)"
  shows "parse_opt (\<lambda>p. parse_global_section p (string_names c) (type_names c) v) []
      (map_option snd (map_of (file_sections m v c (global_payload m ges) fp) Section_Global))
    = Inr (map (global_line v) (enumerate 0 (globals m)))"
  using parse_globals [of c v "enumerate 0 (globals m)" ges] w fits_tables [OF fits] fitsD [OF fits, of Section_Global]
  by (cases "globals m = []") (simp_all add: map_of_file_sections parse_opt_def global_payload_def written_def)

lemma functions_read:
  assumes w: "written m v c ges fes pad" and fits: "fits (file_sections m v c gp (function_payload m fes pad))"
    and h: "\<forall>i \<in> set (mod_functions m). hints_free m i"
  shows "\<exists>ls. list_all2 (function_shown m) (mod_functions m) ls \<and>
    parse_opt (\<lambda>p. parse_func_section p (string_names c) (type_names c)) []
      (map_option snd (map_of (file_sections m v c gp (function_payload m fes pad)) Section_Func)) = Inr ls"
proof (cases "mod_functions m = []")
  case True
  then show ?thesis by (simp add: map_of_file_sections parse_opt_def)
next
  case False
  then show ?thesis
    using parse_functions [of c "mod_functions m" fes pad] w h fits_tables [OF fits] fitsD [OF fits, of Section_Func]
    by (simp add: map_of_file_sections parse_opt_def function_payload_def written_def)
qed

lemma debug_read:
  assumes w: "written m v c ges fes pad" and fits: "fits (file_sections m v c gp fp)"
  shows "\<exists>as. da_entries (ensure_non_empty (attrs (debug c))) = map enc_attr as \<and>
    parse_opt (\<lambda>p. and_then (parse_debug_section p (string_names c)) (\<lambda>x. Inr (Some x))) None
      (map_option snd (map_of (file_sections m v c gp fp) Section_Debug))
    = Inr (Some (map (attr_line (string_names c)) as, per_function (debug c)))"
proof -
  have "length (debug_payload (debug c)) < 2 ^ 32" using fitsD [OF fits, of Section_Debug] by (simp add: map_of_file_sections)
  moreover have "debug_ok (strings c) (attrs (debug c))" using w by (simp add: written_def tables_ok_def debug_inv_def)
  ultimately obtain as where "da_entries (ensure_non_empty (attrs (debug c))) = map enc_attr as"
    "parse_debug_section (debug_payload (debug c)) (string_names c)
       = Inr (map (attr_line (string_names c)) as, per_function (debug c))"
    using parse_debug_payload [of "strings c" "debug c" "string_names c"] debug_payload_size [of "debug c"] by force
  then show ?thesis by (intro exI [of _ as]) (simp add: map_of_file_sections parse_opt_def)
qed

text \<open>
  A file below 4 GiB whose functions carry no optimization hints decodes to the tables
  the writer held when it finished.
\<close>

lemma decode_written:
  assumes w: "written m v c ges fes pad"
    and b: "bytes = header_bytes v
      @ sect_bytes 12 (file_sections m v c (global_payload m ges) (function_payload m fes pad))
      @ [section_id Section_EndOfBytecode]"
    and n: "length bytes < 2 ^ 32" and h: "\<forall>i \<in> set (mod_functions m). hints_free m i"
  shows "\<exists>ls as. decode_bytecode bytes = Inr (dump_of m v c ls (map (attr_line (string_names c)) as)) \<and>
    list_all2 (function_shown m) (mod_functions m) ls \<and>
    da_entries (ensure_non_empty (attrs (debug c))) = map enc_attr as"
proof -
  let ?ss = "file_sections m v c (global_payload m ges) (function_payload m fes pad)"
  have fits: "fits ?ss" by (rule fits_below [of 12]) (use n in \<open>simp add: b\<close>)
  define secs where "secs = fold raw_add ?ss raw_default"
  have get: "raw_get (section_id t) secs = map_option snd (map_of ?ss t)" for t
    using raw_get_fold [of raw_default ?ss t] file_sections_distinct [of m v c]
    by (simp add: secs_def raw_get_default case_prod_beta split: option.splits)
  have hd: "read_header (reader_new bytes)
      = Inr (v, reader_at (header_bytes v) (sect_bytes 12 ?ss @ [section_id Section_EndOfBytecode]))"
    using header.step [of "[]" v "sect_bytes 12 ?ss @ [section_id Section_EndOfBytecode]"] n
    unfolding reader_new_at b by simp
  have col: "collect_sections (reader_at (header_bytes v) (sect_bytes 12 ?ss @ [section_id Section_EndOfBytecode])) raw_default = Inr secs"
    using collect_sections_bytes [of "header_bytes v" ?ss raw_default] file_sections_no_end n
    by (simp add: secs_def b)
  have w': "tables_ok c" "\<forall>ty \<in> set (ty_list (types c)). encodable v ty" "set_option (producer m) \<subseteq> fst ` set (str_map (strings c))"
    using w by (simp_all add: written_def)
  note tables = tables_read [OF fits w']
  obtain ls where ls: "list_all2 (function_shown m) (mod_functions m) ls" and
    pf: "parse_opt (\<lambda>p. parse_func_section p (string_names c) (type_names c)) [] (map_option snd (map_of ?ss Section_Func)) = Inr ls"
    using functions_read [OF w fits h] by blast
  obtain as where as: "da_entries (ensure_non_empty (attrs (debug c))) = map enc_attr as" and
    pd: "parse_opt (\<lambda>p. and_then (parse_debug_section p (string_names c)) (\<lambda>x. Inr (Some x))) None
      (map_option snd (map_of ?ss Section_Debug)) = Inr (Some (map (attr_line (string_names c)) as, per_function (debug c)))"
    using debug_read [OF w fits] by blast
  have "decode_bytecode bytes = Inr (dump_of m v c ls (map (attr_line (string_names c)) as))"
    by (simp only: decode_bytecode_def hd col get tables globals_read [OF w fits] pf pd and_then_Inr prod.case dump_of_def)
  then show ?thesis using ls as by blast
qed

end
