(* ===== verification/WriterTotal.thy ===== *)
theory WriterTotal
  imports RoundTrip WriterFuel
begin

text \<open>
  The whole writer returns, with a file or with an error, for every module whose
  operations nest without a cycle.
\<close>

section \<open>Functions\<close>

lemma write_function_body_returns:
  assumes "ctx_module c = m" and "\<And>j. shallow m n j"
  shows "returns (write_function_body H n i c)"
proof -
  have "returns (for_each (write_operation H n) is (c', w))" if "ctx_module c' = m" for "is" c' w
    by (rule settlesD(1) [OF fuel.ok_for_each]) (simp_all add: write_operation_settles assms(2) that)
  moreover have "ctx_module (fold (\<lambda>(v, _). register_value v) as c) = m" for as :: "(Value \<times> Type) list"
    using assms(1) by (induction as arbitrary: c) (auto split: prod.splits)
  ultimately show ?thesis
    unfolding write_function_body_def
    by (intro and_then_returns lookups_return) (auto intro!: and_then_returns split: list.split)
qed

section \<open>The file\<close>

context faults
begin

lemma write_functions_ok:
  assumes "ctx_module (fst s) = m" and "tables_ok (fst s)"
    and "\<And>c i. ctx_module c = m \<Longrightarrow> i \<in> set is \<Longrightarrow>
      avoids bad (write_function_body H n i (c\<lparr>value_map := (\<lambda>_. None), next_idx := 0\<rparr>))"
  shows "avoids bad (for_each (write_function H n) is s)"
  using assms
proof (induction "is" arbitrary: s)
  case (Cons i "is")
  have "avoids bad (write_function H n i s)" using Cons.prems by (intro write_function_ok) simp
  moreover have "avoids bad (for_each (write_function H n) is t)" if "write_function H n i s = Inr t" for t
    using write_function_entry [OF Cons.prems(2) that] Cons by (simp add: file_frame_def)
  ultimately show ?case by (simp add: avoids_and_then)
qed simp

end

lemma debug_inv_start: "strings_wf ss \<Longrightarrow> debug_inv ss debug_new"
  by (rule debug_inv_new) (use debug_table_wf_new in \<open>auto simp: debug_ok_def debug_table_new_def\<close>)

context faults
begin

lemma write_bytecode_version_ok:
  assumes p: "avoids bad (prescan_module m v)"
    and body: "\<And>c i. ctx_module c = m \<Longrightarrow> i \<in> set (mod_functions m) \<Longrightarrow>
      avoids bad (write_function_body H (module_fuel m) i (c\<lparr>value_map := (\<lambda>_. None), next_idx := 0\<rparr>))"
  shows "avoids bad (write_bytecode_version H m v)"
proof -
  let ?c = "\<lambda>ss tys. (writer_ctx_new m v)\<lparr>strings := ss, types := tys\<rparr>"
  have f: "avoids bad (write_function_section H (module_fuel m) o1 c1)"
    if p: "prescan_module m v = Inr (ss, tys)" and g: "write_global_section out (?c ss tys) = Inr (o1, c1)" for ss tys out o1 c1
  proof -
    have "scan_ok (set_option (producer m)) (ss, tys)" by (rule FileFrames.prescan_module_ok [OF p])
    then have "tables_ok (?c ss tys)" "ctx_module (?c ss tys) = m" "const_entries (constants (?c ss tys)) = []"
      by (simp_all add: scan_ok_def tables_ok_def writer_ctx_new_def constants_new_def debug_inv_start)
    then have c1: "tables_ok c1" "ctx_module c1 = m" using global_section_written [OF g] by auto
    have "avoids bad (for_each (write_function H (module_fuel m)) (mod_functions m) (c1, w))" for w
      by (rule write_functions_ok [where m = m]) (simp_all add: c1 body)
    then show ?thesis unfolding write_function_section_def Let_def c1(2)
      by (simp add: avoids_and_then split: prod.split)
  qed
  show ?thesis
    unfolding write_bytecode_version_def Let_def
    by (auto intro!: avoids_and_then p write_global_section_ok write_type_section_ok
        dest: f simp: write_constant_section_eq write_string_section_eq plain split: prod.split)
qed

end

lemma write_bytecode_version_returns:
  assumes "acyclic_nesting m"
  shows "returns (write_bytecode_version H m v)"
  unfolding returns_def
proof (rule fuel_faults.write_bytecode_version_ok)
  show "avoids (\<lambda>e. e = NoFuel) (prescan_module m v)" using prescan_module_returns [OF assms] by (simp add: returns_def)
  fix c :: WriterCtx and i assume "ctx_module c = m"
  then show "avoids (\<lambda>e. e = NoFuel) (write_function_body H (module_fuel m) i (c\<lparr>value_map := (\<lambda>_. None), next_idx := 0\<rparr>))"
    using write_function_body_returns [of "c\<lparr>value_map := (\<lambda>_. None), next_idx := 0\<rparr>" m] acyclic_shallow [OF assms]
    by (simp add: returns_def)
qed

end
