(* ===== verification/Scope.thy ===== *)
theory Scope
  imports Verify WriterTotal
begin

text \<open>
  When the writer finds its operands. It looks values up in a map that it fills as it goes
  and cuts back at the end of a block. When no value is defined twice in a scope, the map
  holds exactly the values in scope; so if every operand is in scope where it is used, with
  the results of an operation in scope after it but not in its own regions, no operand
  lookup of the writer fails.
\<close>

section \<open>A checker for scopes\<close>

text \<open>The operations of a block from left to right; \<open>R\<close> checks a nested region.\<close>

fun ops_scoped :: "(RegionId \<Rightarrow> Value list \<Rightarrow> bool) \<Rightarrow> Module \<Rightarrow> Value list \<Rightarrow> OpId list \<Rightarrow> bool" where
  "ops_scoped R m vs [] = True"
| "ops_scoped R m vs (i # is) \<longleftrightarrow>
     (case op m i :: lookup_op of
        Inl _ \<Rightarrow> True
      | Inr opn \<Rightarrow> set (operands opn) \<subseteq> set vs \<and> list_all (\<lambda>r. R r vs) (op_regions opn) \<and>
          distinct (vs @ results_of m i) \<and> ops_scoped R m (vs @ results_of m i) is)"

definition block_scoped :: "(RegionId \<Rightarrow> Value list \<Rightarrow> bool) \<Rightarrow> Module \<Rightarrow> Value list \<Rightarrow> BlockId \<Rightarrow> bool" where
  "block_scoped R m vs b =
     (case block m b :: lookup_block of
        Inl _ \<Rightarrow> True
      | Inr bl \<Rightarrow> distinct (vs @ map fst (args bl)) \<and> ops_scoped R m (vs @ map fst (args bl)) (ops bl))"

fun region_scoped :: "nat \<Rightarrow> Module \<Rightarrow> RegionId \<Rightarrow> Value list \<Rightarrow> bool" where
  "region_scoped 0 m r vs = False"
| "region_scoped (Suc n) m r vs =
     (case region m r :: lookup_region of
        Inl _ \<Rightarrow> True
      | Inr rg \<Rightarrow> list_all (block_scoped (region_scoped n m) m vs) (rg_blocks rg))"

section \<open>The map holds the values in scope\<close>

definition exact :: "WriterCtx \<Rightarrow> Value list \<Rightarrow> bool" where
  "exact c vs \<longleftrightarrow> scoped c vs \<and> dom (value_map c) = set vs \<and> distinct vs"

lemma UNIV_Value: "UNIV = range Value"
  by (auto simp: image_iff) (metis Value.exhaust)

lemma distinct_values_bound:
  fixes vs :: "Value list"
  assumes "distinct vs"
  shows "length vs < usize_top"
proof -
  have "finite (UNIV :: Value set)" and "card (UNIV :: Value set) \<le> 2 ^ 32"
    unfolding UNIV_Value using card_image_le [of "UNIV :: u32 set" Value] by (simp_all add: card_word)
  then have "card (set vs) \<le> 2 ^ 32" using card_mono [of UNIV "set vs"] by fastforce
  then show ?thesis using distinct_card [OF assms] by simp
qed

lemma exact_cong: "value_map c' = value_map c \<Longrightarrow> next_idx c' = next_idx c \<Longrightarrow> exact c' vs = exact c vs"
  unfolding exact_def scoped_def by simp

lemma exact_register:
  assumes "exact c vs" and "v \<notin> set vs"
  shows "exact (register_value v c) (vs @ [v])"
  using assms scoped_register [of c vs v] by (auto simp: exact_def register_value_def)

lemma exact_register_all:
  assumes "exact c vs" and "distinct (vs @ map fst as)"
  shows "exact (fold (\<lambda>(v, _). register_value v) as c) (vs @ map fst as)"
  using assms
proof (induction as arbitrary: c vs)
  case (Cons a as)
  obtain v ty where a: "a = (v, ty)" by fastforce
  have "exact (register_value v c) (vs @ [v])" using Cons.prems a by (intro exact_register) auto
  from Cons.IH [OF this] Cons.prems(2) show ?case by (simp add: a)
qed simp

lemma exact_results:
  assumes "exact c vs" and "distinct (vs @ op_results (ctx_module c) i opn)"
  shows "exact (register_results i opn c) (vs @ op_results (ctx_module c) i opn)"
proof -
  let ?f = "\<lambda>k ctx. case find_op_result (ctx_module ctx) i (as_u32 k) of
      Some v \<Rightarrow> register_value v ctx | None \<Rightarrow> ctx"
  let ?g = "\<lambda>m ks. List.map_filter (\<lambda>k. find_op_result m i (as_u32 k)) ks"
  have "exact (fold ?f ks c) (vs @ ?g (ctx_module c) ks)"
    if "exact c vs" "distinct (vs @ ?g (ctx_module c) ks)" for ks c vs
    using that
  proof (induction ks arbitrary: c vs)
    case (Cons k ks)
    show ?case
    proof (cases "find_op_result (ctx_module c) i (as_u32 k)")
      case None
      then show ?thesis using Cons by (simp add: List.map_filter_simps)
    next
      case (Some v)
      have "exact (register_value v c) (vs @ [v])"
        using Cons.prems Some by (intro exact_register) (auto simp: List.map_filter_simps)
      moreover have "distinct ((vs @ [v]) @ ?g (ctx_module (register_value v c)) ks)"
        using Cons.prems(2) Some by (simp add: List.map_filter_simps)
      ultimately show ?thesis using Cons.IH [of "register_value v c" "vs @ [v]"] Some by (simp add: List.map_filter_simps)
    qed
  qed (simp add: List.map_filter_simps)
  from this [of c vs "[0..<length (result_types opn)]"] assms show ?thesis by (simp add: register_results_def op_results_def)
qed

lemma exact_rollback:
  assumes "exact c (vs @ ws)" and "rollback (as_u64 (length vs)) (c, w) = Inr t"
  shows "exact (fst t) vs"
proof -
  have d: "distinct (vs @ ws)" using assms(1) by (simp add: exact_def)
  have n: "length (vs @ ws) < usize_top" by (rule distinct_values_bound [OF d])
  let ?saved = "as_u64 (length vs)"
  let ?m = "\<lambda>v. case value_map c v of Some k \<Rightarrow> if k < ?saved then Some k else None | None \<Rightarrow> None"
  have t: "fst t = c\<lparr>value_map := ?m, next_idx := ?saved\<rparr>" using assms(2) by (auto simp: rollback_def)
  have "scoped (fst t) vs"
    unfolding t using assms(1) n by (intro scoped_rollback [of _ _ ws]) (simp_all add: exact_def)
  moreover have "v \<in> dom ?m" if v: "v \<in> set vs" for v
  proof -
    obtain j where j: "j < length vs" "vs ! j = v" using v unfolding in_set_conv_nth by blast
    have "v \<in> dom (value_map c)" using assms(1) v by (simp add: exact_def)
    then obtain k where k: "value_map c v = Some k" by auto
    then obtain j' where j': "j' < length (vs @ ws)" "k = as_u64 j'" "(vs @ ws) ! j' = v"
      using assms(1) unfolding exact_def scoped_def by blast
    have "(vs @ ws) ! j = v" using j by (simp add: nth_append)
    then have "j' = j" using nth_eq_iff_index_eq [OF d j'(1), of j] j'(3) j(1) by simp
    then have "k < ?saved" using j'(2) j(1) n by (simp add: word_less_nat_alt unat_of_nat)
    then show ?thesis using k by auto
  qed
  moreover have "dom ?m \<subseteq> set vs"
  proof
    fix v assume "v \<in> dom ?m"
    then have "value_map (fst t) v \<noteq> None" by (simp add: t domIff)
    then show "v \<in> set vs" using \<open>scoped (fst t) vs\<close> unfolding scoped_def by (metis nth_mem option.exhaust)
  qed
  ultimately show ?thesis using d by (auto simp: exact_def t)
qed

section \<open>Steps that resolve their operands\<close>

fun operand_fault :: "write_error fault \<Rightarrow> bool" where
  "operand_fault (Err e) = operand_error e"
| "operand_fault _ = False"

definition unresolved :: "(write_error, 'a) res \<Rightarrow> bool" where
  "unresolved x \<longleftrightarrow> \<not> avoids operand_fault x"

interpretation operand_faults: faults operand_fault
  by unfold_locales simp_all

lemma unresolved_simps [simp]:
  "\<not> unresolved (Inr y)" "\<not> unresolved (Inl Panic)" "\<not> unresolved (Inl NoFuel)" "unresolved (Inl (Err e)) = operand_error e"
  by (simp_all add: unresolved_def)

definition carries :: "Module \<Rightarrow> Value list \<Rightarrow> wstate \<Rightarrow> bool" where
  "carries m vs s \<longleftrightarrow> ctx_module (fst s) = m \<and> exact (fst s) vs"

text \<open>From a state with \<open>vs\<close> in scope, no lookup fails, and \<open>ws\<close> are in scope afterwards.\<close>

definition resolves :: "Module \<Rightarrow> Value list \<Rightarrow> Value list \<Rightarrow> step \<Rightarrow> bool" where
  "resolves m vs ws a \<longleftrightarrow> (\<forall>s. carries m vs s \<longrightarrow> \<not> unresolved (a s) \<and> (\<forall>t. a s = Inr t \<longrightarrow> carries m ws t))"

lemma resolvesI:
  assumes "\<And>s. carries m vs s \<Longrightarrow> \<not> unresolved (a s)"
    and "\<And>s t. carries m vs s \<Longrightarrow> a s = Inr t \<Longrightarrow> carries m ws t"
  shows "resolves m vs ws a"
  unfolding resolves_def using assms by blast

lemma resolvesD:
  assumes "resolves m vs ws a" and "carries m vs s"
  shows "\<not> unresolved (a s)" and "a s = Inr t \<Longrightarrow> carries m ws t"
  using assms unfolding resolves_def by blast+

lemma unresolved_and_then:
  "\<not> unresolved x \<Longrightarrow> (\<And>y. x = Inr y \<Longrightarrow> \<not> unresolved (f y)) \<Longrightarrow> \<not> unresolved (and_then x f)"
  unfolding unresolved_def not_not by (rule avoids_and_then)

lemma resolves_seq:
  assumes a: "resolves m vs ws a" and b: "resolves m ws us b"
  shows "resolves m vs us (\<lambda>s. and_then (a s) b)"
proof (rule resolvesI)
  fix s assume s: "carries m vs s"
  show "\<not> unresolved (and_then (a s) b)"
    by (rule unresolved_and_then [OF resolvesD(1) [OF a s]]) (rule resolvesD(1) [OF b resolvesD(2) [OF a s]])
  fix t assume "and_then (a s) b = Inr t"
  then obtain u where "a s = Inr u" "b u = Inr t" by (auto simp: and_then_eq_Inr)
  then show "carries m us t" using resolvesD(2) [OF b resolvesD(2) [OF a s]] by simp
qed

lemma resolves_skip: "resolves m vs vs Inr"
  by (simp add: resolves_def)

lemma resolves_acts: "(\<And>a. a \<in> set as \<Longrightarrow> resolves m vs vs a) \<Longrightarrow> resolves m vs vs (acts as)"
proof (induction as)
  case Nil
  then show ?case by (simp add: acts_funs resolves_skip)
next
  case (Cons a as)
  then show ?case unfolding acts_funs by (intro resolves_seq [of m vs vs a vs]) simp_all
qed

lemma resolves_harmless:
  assumes "harmless a"
  shows "resolves m vs vs a"
proof (rule resolvesI)
  fix s assume s: "carries m vs s"
  obtain t where t: "a s = Inr t" "same_values s t" using assms unfolding harmless_def by blast
  show "\<not> unresolved (a s)" using t by simp
  fix u assume "a s = Inr u"
  then have "u = t" using t by simp
  then show "carries m vs u" using s t(2) exact_cong [of "fst t" "fst s" vs] by (simp add: carries_def same_values_def)
qed

lemma resolves_lookup:
  assumes "\<And>s. carries m vs s \<Longrightarrow> \<not> unresolved (f s)" and "\<And>x. resolves m vs vs (g x)"
  shows "resolves m vs vs (\<lambda>s. and_then (f s) (\<lambda>x. g x s))"
proof (rule resolvesI)
  fix s assume s: "carries m vs s"
  show "\<not> unresolved (and_then (f s) (\<lambda>x. g x s))"
    by (rule unresolved_and_then [OF assms(1) [OF s]]) (rule resolvesD(1) [OF assms(2) s])
  fix t assume "and_then (f s) (\<lambda>x. g x s) = Inr t"
  then obtain x where "g x s = Inr t" by (auto simp: and_then_eq_Inr)
  then show "carries m vs t" by (rule resolvesD(2) [OF assms(2) s])
qed

lemma carries_lookup: "carries m vs s \<Longrightarrow> v \<in> set vs \<Longrightarrow> \<not> unresolved (ok_or e (value_map (fst s) v))"
  by (cases "value_map (fst s) v") (auto simp: carries_def exact_def)

lemma unresolved_index [simp]: "\<not> unresolved (index xs k)"
  by (simp add: index_def)

lemma index_member: "index xs k = Inr x \<Longrightarrow> x \<in> set xs"
  by (auto simp: index_def split: if_splits)

lemma resolves_operand:
  assumes "v \<in> set vs"
  shows "resolves m vs vs (put_operand opn v)"
  unfolding put_operand_def [abs_def] operand_index_def
  by (intro resolves_lookup resolves_harmless carries_lookup [where m = m, OF _ assms]) simp_all

text \<open>The operand writers keep their promise when the operation's operands are in scope.\<close>

lemma resolves_closed:
  assumes ops: "set (operands opn) \<subseteq> set vs"
  shows "step_closed (resolves m vs vs) opn"
proof
  fix as :: "step list" assume "\<And>a. a \<in> set as \<Longrightarrow> resolves m vs vs a"
  then show "resolves m vs vs (acts as)" by (rule resolves_acts)
next
  fix f show "resolves m vs vs (put f)" by (rule resolves_harmless) simp
next
  fix ty show "resolves m vs vs (put_type ty)" by (rule resolves_harmless) simp
next
  fix str show "resolves m vs vs (put_string str)" by (rule resolves_harmless) simp
next
  fix d show "resolves m vs vs (put_constant d)" by (rule resolves_harmless) simp
next
  fix n f show "resolves m vs vs (gate n f)"
    unfolding gate_def [abs_def] by (rule resolves_lookup) (simp_all add: require_version_def resolves_skip)
next
  fix e assume "\<not> operand_error e"
  then show "resolves m vs vs (\<lambda>s. Inl (Err e))" by (simp add: resolves_def)
next
  fix v assume "v \<in> set (operands opn)"
  then show "resolves m vs vs (put_operand opn v)" using ops resolves_operand by blast
next
  fix e off i
  show "resolves m vs vs (put_group_operand e opn off i)"
  proof (cases "index (operands opn) (as_usize (off + as_u64 i)) :: (write_error, Value) res")
    case (Inl x)
    then have "x = Panic" by (simp add: index_def split: if_splits)
    then show ?thesis using Inl by (simp add: put_group_operand_def [abs_def] resolves_def)
  next
    case (Inr v)
    then have v: "v \<in> set vs" using ops index_member by fastforce
    have "resolves m vs vs (\<lambda>s. and_then (ok_or e (value_map (fst s) v)) (\<lambda>idx. put_varint idx s))"
      by (intro resolves_lookup resolves_harmless carries_lookup [where m = m, OF _ v]) simp_all
    then show ?thesis using Inr by (simp add: put_group_operand_def [abs_def])
  qed
next
  fix k
  show "resolves m vs vs (\<lambda>s. and_then (index (operands opn) k) (\<lambda>v. put_operand opn v s))"
  proof (cases "index (operands opn) k :: (write_error, Value) res")
    case (Inl x)
    then have "x = Panic" by (simp add: index_def split: if_splits)
    then show ?thesis using Inl by (simp add: resolves_def)
  next
    case (Inr v)
    then have "v \<in> set vs" using ops index_member by fastforce
    then show ?thesis using Inr resolves_operand by simp
  qed
next
  fix g :: "nat \<times> bool \<Rightarrow> step" assume g: "\<And>x. resolves m vs vs (g x)"
  have "\<not> unresolved (print_operand_groups opn c)" for c
    unfolding print_operand_groups_def value_type_def Let_def
    by (cases "last (operands opn)") (simp add: unresolved_and_then)
  then show "resolves m vs vs (\<lambda>s. and_then (print_operand_groups opn (fst s)) (\<lambda>x. g x s))"
    using g by (intro resolves_lookup)
next
  fix a v assume a: "resolves m vs vs a"
  show "resolves m vs vs (since_version v a)"
    using resolvesD [OF a] by (intro resolvesI) (auto simp: since_version_def act_if_def split: if_splits)
qed

section \<open>Operations, blocks and regions\<close>

lemma resolves_get:
  fixes get :: "Module \<Rightarrow> (write_error, 'b) res" and g :: "'b \<Rightarrow> wstate \<Rightarrow> step"
  assumes "\<not> unresolved (get m)" and "\<And>x s. get m = Inr x \<Longrightarrow> carries m vs s \<Longrightarrow> resolves m vs ws (g x s)"
  shows "resolves m vs ws (\<lambda>s. and_then (get (ctx_module (fst s))) (\<lambda>x. g x s s))"
proof (rule resolvesI)
  fix s assume s: "carries m vs s"
  then have m: "ctx_module (fst s) = m" by (simp add: carries_def)
  show "\<not> unresolved (and_then (get (ctx_module (fst s))) (\<lambda>x. g x s s))"
    unfolding m by (rule unresolved_and_then [OF assms(1)]) (rule resolvesD(1) [OF assms(2) [OF _ s] s])
  fix t assume "and_then (get (ctx_module (fst s))) (\<lambda>x. g x s s) = Inr t"
  then obtain x where "get m = Inr x" "g x s s = Inr t" unfolding m and_then_eq_Inr by blast
  then show "carries m ws t" using resolvesD(2) [OF assms(2) [OF _ s] s] by blast
qed

lemma unresolved_lookups [simp]: "\<not> unresolved (op m i)" "\<not> unresolved (block m b)" "\<not> unresolved (region m r)"
  by (cases i, simp) (cases b, simp, cases r, simp)

lemma resolves_pure:
  "(\<And>s. carries m vs s \<Longrightarrow> carries m ws (f s)) \<Longrightarrow> resolves m vs ws (\<lambda>s. Inr (f s))"
  by (simp add: resolves_def)

lemma resolves_block_args:
  assumes "distinct (vs @ map fst as)"
  shows "resolves m vs (vs @ map fst as) (for_each block_arg as)"
  using assms
proof (induction as arbitrary: vs)
  case Nil
  then show ?case using resolves_skip [of m vs] by (simp add: for_each_fun acts_funs)
next
  case (Cons a as)
  obtain v ty where a: "a = (v, ty)" by fastforce
  have "resolves m vs (vs @ [v]) (\<lambda>s. Inr (register_value v (fst s), snd s))"
    using Cons.prems a by (intro resolves_pure) (auto simp: carries_def intro!: exact_register)
  then have "resolves m vs (vs @ [v]) (block_arg a)"
    unfolding a block_arg_def prod.case by (intro resolves_seq [OF resolves_harmless]) simp_all
  moreover have "resolves m (vs @ [v]) ((vs @ [v]) @ map fst as) (for_each block_arg as)"
    using Cons.prems a by (intro Cons.IH) simp
  ultimately have "resolves m vs ((vs @ [v]) @ map fst as) (\<lambda>s. and_then (block_arg a s) (for_each block_arg as))"
    by (rule resolves_seq)
  moreover have "for_each block_arg (a # as) = (\<lambda>s. and_then (block_arg a s) (for_each block_arg as))"
    by (simp add: for_each_fun acts_funs)
  ultimately show ?case by (simp add: a)
qed

lemma resolves_rollback: "resolves m (vs @ ws) vs (rollback (as_u64 (length vs)))"
proof (rule resolvesI)
  fix s t assume s: "carries m (vs @ ws) s"
  show "\<not> unresolved (rollback (as_u64 (length vs)) s)" by (simp add: rollback_def)
  assume t: "rollback (as_u64 (length vs)) s = Inr t"
  have "exact (fst t) vs" using exact_rollback [of "fst s" vs ws "snd s" t] s t by (simp add: carries_def)
  moreover have "ctx_module (fst t) = m" using s t by (auto simp: carries_def rollback_def)
  ultimately show "carries m vs t" by (simp add: carries_def)
qed

lemma resolves_ops:
  assumes known: "\<And>i opn us. op m i = (Inr opn :: lookup_op) \<Longrightarrow> set (operands opn) \<subseteq> set us \<Longrightarrow>
      list_all (\<lambda>r. Q r us) (op_regions opn) \<Longrightarrow> distinct (us @ results_of m i) \<Longrightarrow>
      resolves m us (us @ results_of m i) (W i)"
    and unknown: "\<And>i us ws e. op m i = (Inl e :: lookup_op) \<Longrightarrow> resolves m us ws (W i)"
    and "ops_scoped Q m us is"
  shows "resolves m us (us @ concat (map (results_of m) is)) (for_each W is)"
  using assms(3)
proof (induction "is" arbitrary: us)
  case Nil
  then show ?case using resolves_skip [of m us] by (simp add: for_each_fun acts_funs)
next
  case (Cons i "is")
  have e: "for_each W (i # is) = (\<lambda>s. and_then (W i s) (for_each W is))" by (simp add: for_each_fun acts_funs)
  show ?case
  proof (cases "op m i :: lookup_op")
    case (Inl x)
    have "\<not> unresolved (for_each W (i # is) s) \<and> (\<forall>t. for_each W (i # is) s \<noteq> Inr t)" if "carries m us s" for s
    proof (cases "W i s")
      case (Inl y)
      have "\<not> unresolved (W i s)" by (rule resolvesD(1) [OF unknown [OF \<open>op m i = Inl x\<close>] that])
      then show ?thesis using Inl by (cases y) (simp_all add: e)
    next
      case (Inr t)
      have "carries m [Value 0, Value 0] t" by (rule resolvesD(2) [OF unknown [OF \<open>op m i = Inl x\<close>] that Inr])
      then show ?thesis by (simp add: carries_def exact_def)
    qed
    then show ?thesis by (simp add: resolves_def)
  next
    case (Inr opn)
    have "resolves m us (us @ results_of m i) (W i)" using Cons.prems Inr by (intro known [OF Inr]) simp_all
    moreover have "resolves m (us @ results_of m i) ((us @ results_of m i) @ concat (map (results_of m) is)) (for_each W is)"
      using Cons.prems Inr by (intro Cons.IH) simp
    ultimately show ?thesis unfolding e by (simp add: resolves_seq)
  qed
qed

lemma write_operation_with_resolves:
  assumes o: "op m i = (Inr opn :: lookup_op)" and "set (operands opn) \<subseteq> set us" and "distinct (us @ results_of m i)"
    and R: "\<And>r. r \<in> set (op_regions opn) \<Longrightarrow> resolves m us us (R r)"
  shows "resolves m us (us @ results_of m i) (write_operation_with H R i)"
proof -
  let ?a = "\<lambda>s. Inr (record_location (location opn) (fst s), snd s) :: (write_error, wstate) res"
  let ?b = "\<lambda>s. Inr (register_results i opn (fst s), snd s) :: (write_error, wstate) res"
  have "resolves m us us (acts [?a, put_varint (ucast (as_u16 (opcode opn))), write_op_body H R opn])"
  proof (rule resolves_acts)
    fix a assume "a \<in> set [?a, put_varint (ucast (as_u16 (opcode opn))), write_op_body H R opn]"
    moreover have "resolves m us us ?a"
      by (rule resolves_pure) (simp add: carries_def exact_cong [of "record_location _ _"])
    moreover have "resolves m us us (put_varint (ucast (as_u16 (opcode opn))))" by (rule resolves_harmless) simp
    moreover have "resolves m us us (write_op_body H R opn)"
      by (rule step_closed.ok_op_body [OF resolves_closed [OF assms(2)] R])
    ultimately show "resolves m us us a" by auto
  qed
  moreover have "resolves m us (us @ results_of m i) ?b"
    using assms(3) exact_results [of _ us i opn] by (intro resolves_pure) (auto simp: carries_def results_of_op [OF o])
  ultimately have "resolves m us (us @ results_of m i)
      (\<lambda>s. and_then (acts [?a, put_varint (ucast (as_u16 (opcode opn))), write_op_body H R opn] s) ?b)" by (rule resolves_seq)
  moreover have "write_operation_with H R i s =
      and_then (acts [?a, put_varint (ucast (as_u16 (opcode opn))), write_op_body H R opn] s) ?b" if "carries m us s" for s
    using that o by (simp add: write_operation_with_def carries_def acts_funs and_then_assoc)
  ultimately show ?thesis unfolding resolves_def by simp
qed

lemma write_operation_unknown:
  assumes "op m i = (Inl e :: lookup_op)"
  shows "resolves m us ws (write_operation H n i)"
proof -
  have "e = Panic" using assms by (cases i) (auto simp: index_def split: if_splits)
  then have "write_operation H n i s = Inl (if n = 0 then NoFuel else Panic)" if "carries m us s" for s
    using that assms by (cases n) (simp_all add: carries_def write_operation_with_def)
  then show ?thesis by (simp add: resolves_def)
qed

lemma write_block_with_resolves:
  assumes "\<And>bl. block m b = (Inr bl :: lookup_block) \<Longrightarrow> distinct (vs @ map fst (args bl)) \<and>
      (\<exists>xs. resolves m (vs @ map fst (args bl)) (vs @ xs) (for_each W (ops bl)))"
  shows "resolves m vs vs (write_block_with W b)"
proof -
  let ?g = "\<lambda>bl s. acts [put_varint (as_u64 (length (args bl))), for_each block_arg (args bl),
             put_varint (as_u64 (length (ops bl))), for_each W (ops bl), rollback (next_idx (fst s))]"
  have "write_block_with W b = (\<lambda>s. and_then (block (ctx_module (fst s)) b) (\<lambda>bl. ?g bl s s))"
    by (rule ext) (rule write_block_with_acts)
  moreover have "resolves m vs vs (\<lambda>s. and_then (block (ctx_module (fst s)) b) (\<lambda>bl. ?g bl s s))"
  proof (rule resolves_get [where get = "\<lambda>m. block m b" and g = ?g])
    fix bl s assume bl: "block m b = (Inr bl :: lookup_block)" and s: "carries m vs s"
    obtain xs where d: "distinct (vs @ map fst (args bl))" and w: "resolves m (vs @ map fst (args bl)) (vs @ xs) (for_each W (ops bl))"
      using assms [OF bl] by blast
    have n: "next_idx (fst s) = as_u64 (length vs)" using s by (simp add: carries_def exact_def scoped_def)
    show "resolves m vs vs (?g bl s)"
      unfolding acts_funs n and_then_Inr_right
      by (intro resolves_seq [OF resolves_harmless] resolves_seq [OF resolves_block_args [OF d]]
          resolves_seq [OF w] resolves_rollback) simp_all
  qed simp
  ultimately show ?thesis by simp
qed

lemma write_region_with_resolves:
  assumes "\<And>rg b. region m r = (Inr rg :: lookup_region) \<Longrightarrow> b \<in> set (rg_blocks rg) \<Longrightarrow> resolves m vs vs (B b)"
  shows "resolves m vs vs (write_region_with B r)"
proof -
  let ?g = "\<lambda>rg s. acts [put_varint (as_u64 (length (rg_blocks rg))), for_each B (rg_blocks rg)]"
  have "write_region_with B r = (\<lambda>s. and_then (region (ctx_module (fst s)) r) (\<lambda>rg. ?g rg s s))"
    by (rule ext) (simp add: write_region_with_def)
  moreover have "resolves m vs vs (\<lambda>s. and_then (region (ctx_module (fst s)) r) (\<lambda>rg. ?g rg s s))"
  proof (rule resolves_get [where get = "\<lambda>m. region m r" and g = ?g])
    fix rg s assume "region m r = (Inr rg :: lookup_region)"
    then have "resolves m vs vs (for_each B (rg_blocks rg))"
      unfolding for_each_fun using assms by (intro resolves_acts) auto
    moreover have "resolves m vs vs (put_varint (as_u64 (length (rg_blocks rg))))" by (rule resolves_harmless) simp
    ultimately show "resolves m vs vs (?g rg s)" by (intro resolves_acts) auto
  qed simp
  ultimately show ?thesis by simp
qed

text \<open>The fuel of the checker and that of the writer are independent.\<close>

lemma write_block_resolves:
  assumes R: "\<And>r us. region_scoped k m r us \<Longrightarrow> 0 < n \<Longrightarrow>
      resolves m us us (write_region_with (write_block_with (write_operation H (n - 1))) r)"
    and bl: "block m b = (Inr bl :: lookup_block)" and "block_scoped (region_scoped k m) m vs b"
  shows "resolves m (vs @ map fst (args bl)) (vs @ map fst (args bl) @ concat (map (results_of m) (ops bl)))
     (for_each (write_operation H n) (ops bl))"
proof -
  have "ops_scoped (region_scoped k m) m (vs @ map fst (args bl)) (ops bl)"
    using assms(3) bl by (simp add: block_scoped_def)
  then have "resolves m (vs @ map fst (args bl)) ((vs @ map fst (args bl)) @ concat (map (results_of m) (ops bl)))
     (for_each (write_operation H n) (ops bl))"
  proof (rule resolves_ops [rotated 2])
    fix i opn us
    assume o: "op m i = (Inr opn :: lookup_op)" "set (operands opn) \<subseteq> set us"
      "list_all (\<lambda>r. region_scoped k m r us) (op_regions opn)" "distinct (us @ results_of m i)"
    show "resolves m us (us @ results_of m i) (write_operation H n i)"
    proof (cases n)
      case 0
      then show ?thesis by (simp add: resolves_def)
    next
      case (Suc n')
      have "resolves m us us (write_region_with (write_block_with (write_operation H n')) r)" if "r \<in> set (op_regions opn)" for r
        using R [of r us] o(3) that Suc by (simp add: list_all_iff)
      from write_operation_with_resolves [OF o(1,2,4) this, where H = H]
      have "resolves m us (us @ results_of m i) (write_operation_with H (write_region_with (write_block_with (write_operation H n'))) i)" .
      moreover have "write_operation H n i = write_operation_with H (write_region_with (write_block_with (write_operation H n'))) i"
        using Suc by (intro ext) simp
      ultimately show ?thesis by simp
    qed
  qed (rule write_operation_unknown)
  then show ?thesis by simp
qed

lemma write_region_resolves:
  "region_scoped k m r vs \<Longrightarrow> resolves m vs vs (write_region_with (write_block_with (write_operation H n)) r)"
proof (induction n arbitrary: k r vs rule: less_induct)
  case (less n)
  obtain k' where k: "k = Suc k'" using less.prems by (cases k) simp_all
  show ?case
  proof (intro write_region_with_resolves write_block_with_resolves)
    fix rg b bl assume "region m r = (Inr rg :: lookup_region)" "b \<in> set (rg_blocks rg)" and bl: "block m b = (Inr bl :: lookup_block)"
    then have b: "block_scoped (region_scoped k' m) m vs b" using less.prems by (simp add: k list_all_iff)
    then have "distinct (vs @ map fst (args bl))" using bl by (simp add: block_scoped_def)
    moreover have "resolves m (vs @ map fst (args bl)) (vs @ map fst (args bl) @ concat (map (results_of m) (ops bl)))
       (for_each (write_operation H n) (ops bl))"
      by (rule write_block_resolves [OF _ bl b]) (simp add: less.IH)
    ultimately show "distinct (vs @ map fst (args bl)) \<and>
        (\<exists>xs. resolves m (vs @ map fst (args bl)) (vs @ xs) (for_each (write_operation H n) (ops bl)))" by blast
  qed
qed

section \<open>Functions and files\<close>

definition function_scoped :: "Module \<Rightarrow> OpId \<Rightarrow> bool" where
  "function_scoped m func =
     (case op m func :: lookup_op of
        Inl _ \<Rightarrow> True
      | Inr fop \<Rightarrow> (case op_regions fop of [] \<Rightarrow> True | r # _ \<Rightarrow> region_scoped (module_fuel m) m r []))"

lemma exact_empty: "exact (c\<lparr>value_map := (\<lambda>_. None), next_idx := 0\<rparr>) []"
  by (simp add: exact_def scoped_def)

lemma write_function_body_resolves:
  assumes "function_scoped m i" and "ctx_module c = m" and e: "exact c []"
  shows "\<not> unresolved (write_function_body H n i c)"
proof -
  have "\<not> unresolved (for_each (write_operation H n) (ops bl) (fold (\<lambda>(v, _). register_value v) (args bl) c, writer_new))"
    if "op m i = (Inr opn :: lookup_op)" "op_regions opn = r # rs" "region m r = (Inr rg :: lookup_region)"
      "rg_blocks rg = b # bs" and bl: "block m b = (Inr bl :: lookup_block)" for opn r rs rg b bs bl
  proof -
    have b: "block_scoped (region_scoped (length (operations m)) m) m [] b"
      using assms(1) that by (simp add: function_scoped_def module_fuel_def)
    then have d: "distinct ([] @ map fst (args bl))" using bl by (simp add: block_scoped_def)
    have "ctx_module (fold (\<lambda>(v, _). register_value v) as c) = ctx_module c" for as :: "(Value \<times> Type) list"
      by (induction as arbitrary: c) (auto split: prod.splits)
    then have "carries m ([] @ map fst (args bl)) (fold (\<lambda>(v, _). register_value v) (args bl) c, writer_new)"
      using exact_register_all [OF e d] assms(2) by (simp add: carries_def)
    from resolvesD(1) [OF write_block_resolves [OF _ bl b] this] write_region_resolves show ?thesis by blast
  qed
  then show ?thesis
    unfolding write_function_body_def assms(2)
    by (intro unresolved_and_then unresolved_lookups)
      (auto simp: unresolved_and_then split: list.split)
qed

lemma write_bytecode_resolves:
  assumes "list_all (function_scoped m) (mod_functions m)"
  shows "\<not> unresolved (write_bytecode_version H m v)"
  unfolding unresolved_def not_not
proof (rule operand_faults.write_bytecode_version_ok)
  show "avoids operand_fault (prescan_module m v)" by (rule operand_faults.prescan_module_avoids) simp
  fix c :: WriterCtx and i assume "ctx_module c = m" "i \<in> set (mod_functions m)"
  then have "\<not> unresolved (write_function_body H (module_fuel m) i (c\<lparr>value_map := (\<lambda>_. None), next_idx := 0\<rparr>))"
    using assms by (intro write_function_body_resolves exact_empty) (simp_all add: list_all_iff)
  then show "avoids operand_fault (write_function_body H (module_fuel m) i (c\<lparr>value_map := (\<lambda>_. None), next_idx := 0\<rparr>))"
    by (simp add: unresolved_def)
qed

end
