(* ===== verification/Upgrade.thy ===== *)
theory Upgrade
  imports WriterTotal
begin

text \<open>
  Newer versions accept more. What a step of the writer needs of the bytecode version are
  gates, which ask for at least some version, and optional fields, whose writing cannot
  fail. So a run that succeeds for a version succeeds for every later one, and numbers
  the values alike; only the bytes and the tables differ.
\<close>

definition upgrade :: "wstate \<Rightarrow> wstate \<Rightarrow> bool" where
  "upgrade s s' \<longleftrightarrow> ctx_module (fst s') = ctx_module (fst s) \<and> ctx_version (fst s) \<le> ctx_version (fst s') \<and>
     value_map (fst s') = value_map (fst s) \<and> next_idx (fst s') = next_idx (fst s)"

definition upgradable :: "step \<Rightarrow> bool" where
  "upgradable a \<longleftrightarrow> (\<forall>s s' t. upgrade s s' \<longrightarrow> a s = Inr t \<longrightarrow> (\<exists>t'. a s' = Inr t' \<and> upgrade t t'))"

lemma upgradableI:
  "(\<And>s s' t. upgrade s s' \<Longrightarrow> a s = Inr t \<Longrightarrow> \<exists>t'. a s' = Inr t' \<and> upgrade t t') \<Longrightarrow> upgradable a"
  unfolding upgradable_def by blast

lemma upgradableD:
  "upgradable a \<Longrightarrow> upgrade s s' \<Longrightarrow> a s = Inr t \<Longrightarrow> \<exists>t'. a s' = Inr t' \<and> upgrade t t'"
  unfolding upgradable_def by blast

lemma upgradable_acts: "(\<And>a. a \<in> set as \<Longrightarrow> upgradable a) \<Longrightarrow> upgradable (acts as)"
proof (induction as)
  case Nil
  then show ?case by (simp add: upgradable_def acts_funs)
next
  case (Cons a as)
  show ?case
  proof (rule upgradableI)
    fix s s' t assume s: "upgrade s s'" and t: "acts (a # as) s = Inr t"
    then obtain u where u: "a s = Inr u" "acts as u = Inr t" by (auto simp: acts_funs and_then_eq_Inr)
    have a: "upgradable a" and as: "upgradable (acts as)" using Cons by simp_all
    obtain u' where u': "a s' = Inr u'" "upgrade u u'" using upgradableD [OF a s u(1)] by blast
    obtain t' where "acts as u' = Inr t'" "upgrade t t'" using upgradableD [OF as u'(2) u(2)] by blast
    with u' show "\<exists>t'. acts (a # as) s' = Inr t' \<and> upgrade t t'" by (simp add: acts_funs)
  qed
qed

text \<open>A step that cannot fail and leaves the numbering alone.\<close>

lemma same_values_upgrade:
  assumes "upgrade s s'" and "same_values s t" and "same_values s' t'"
  shows "upgrade t t'"
  using assms by (simp add: upgrade_def same_values_def)

lemma same_values_refl [simp]: "same_values s s"
  by (simp add: same_values_def)

lemma upgradable_harmless:
  assumes "harmless a"
  shows "upgradable a"
proof (rule upgradableI)
  fix s s' t assume "upgrade s s'" and "a s = Inr t"
  moreover obtain t' where "a s' = Inr t'" "same_values s' t'" using assms unfolding harmless_def by blast
  moreover have "same_values s t" using assms \<open>a s = Inr t\<close> unfolding harmless_def by (metis Inr_inject)
  ultimately show "\<exists>t'. a s' = Inr t' \<and> upgrade t t'" using same_values_upgrade by blast
qed

lemma upgradable_numbered:
  assumes "\<And>s s'. upgrade s s' \<Longrightarrow> f s = f s'" and "\<And>x. upgradable (g x)"
  shows "upgradable (\<lambda>s. and_then (f s) (\<lambda>x. g x s))"
proof (rule upgradableI)
  fix s s' t assume s: "upgrade s s'" and "and_then (f s) (\<lambda>x. g x s) = Inr t"
  then obtain x where "f s = Inr x" "g x s = Inr t" by (auto simp: and_then_eq_Inr)
  then show "\<exists>t'. and_then (f s') (\<lambda>x. g x s') = Inr t' \<and> upgrade t t'"
    using assms(1) [OF s] upgradableD [OF assms(2) s] by auto
qed

interpretation up: step_closed upgradable opn for opn
proof
  fix as :: "step list" assume "\<And>a. a \<in> set as \<Longrightarrow> upgradable a"
  then show "upgradable (acts as)" by (rule upgradable_acts)
next
  fix f show "upgradable (put f)" by (rule upgradable_harmless) simp
next
  fix ty show "upgradable (put_type ty)" by (rule upgradable_harmless) simp
next
  fix str show "upgradable (put_string str)" by (rule upgradable_harmless) simp
next
  fix d show "upgradable (put_constant d)" by (rule upgradable_harmless) simp
next
  fix n f show "upgradable (gate n f)"
    by (rule upgradableI) (auto simp: gate_def and_then_eq_Inr upgrade_def)
next
  fix e :: write_error show "upgradable (\<lambda>s. Inl (Err e))" by (simp add: upgradable_def)
next
  fix v show "upgradable (put_operand opn v)"
    unfolding put_operand_def [abs_def]
    by (rule upgradable_numbered) (auto simp: upgrade_def operand_index_def intro: upgradable_harmless)
next
  fix e off i show "upgradable (put_group_operand e opn off i)"
    unfolding put_group_operand_def [abs_def]
    by (intro upgradable_numbered upgradable_harmless harmless_put) (auto simp: upgrade_def)
next
  fix k show "upgradable (\<lambda>s. and_then (index (operands opn) k) (\<lambda>v. put_operand opn v s))"
    unfolding put_operand_def [abs_def]
    by (intro upgradable_numbered upgradable_harmless harmless_put) (auto simp: upgrade_def operand_index_def)
next
  fix g :: "nat \<times> bool \<Rightarrow> step" assume "\<And>x. upgradable (g x)"
  then show "upgradable (\<lambda>s. and_then (print_operand_groups opn (fst s)) (\<lambda>x. g x s))"
    by (intro upgradable_numbered) (simp_all add: upgrade_def print_operand_groups_def)
next
  fix a v assume a: "upgradable a" and h: "harmless a"
  show "upgradable (since_version v a)"
  proof (rule upgradableI)
    fix s s' t assume s: "upgrade s s'" and t: "since_version v a s = Inr t"
    obtain u' where u': "a s' = Inr u'" "same_values s' u'" using h unfolding harmless_def by blast
    have st: "same_values s t" using t h unfolding harmless_def since_version_def act_if_def
      by (metis Inr_inject same_values_refl)
    show "\<exists>t'. since_version v a s' = Inr t' \<and> upgrade t t'"
      using same_values_upgrade [OF s st u'(2)] same_values_upgrade [OF s st same_values_refl] u'(1)
      unfolding since_version_def act_if_def by (metis (full_types))
  qed
qed

section \<open>Operations\<close>

lemma upgradable_lookup:
  fixes get :: "Module \<Rightarrow> write_error fault + 'b" and g :: "'b \<Rightarrow> wstate \<Rightarrow> step"
  assumes "\<And>x s. upgradable (g x s)" and "\<And>x s s'. upgrade s s' \<Longrightarrow> g x s = g x s'"
  shows "upgradable (\<lambda>s. and_then (get (ctx_module (fst s))) (\<lambda>x. g x s s))"
proof (rule upgradableI)
  fix s s' t assume s: "upgrade s s'" and "and_then (get (ctx_module (fst s))) (\<lambda>x. g x s s) = Inr t"
  then obtain x where x: "get (ctx_module (fst s)) = Inr x" "g x s s = Inr t" by (auto simp: and_then_eq_Inr)
  from upgradableD [OF assms(1) s x(2)] obtain t' where "g x s s' = Inr t'" "upgrade t t'" by blast
  then have "g x s' s' = Inr t'" using assms(2) [OF s, of x] by simp
  then show "\<exists>t'. and_then (get (ctx_module (fst s'))) (\<lambda>x. g x s' s') = Inr t' \<and> upgrade t t'"
    using s x(1) \<open>upgrade t t'\<close> by (simp add: upgrade_def)
qed

lemma upgradable_pure: "(\<And>s s'. upgrade s s' \<Longrightarrow> upgrade (f s) (f s')) \<Longrightarrow> upgradable (\<lambda>s. Inr (f s))"
  by (simp add: upgradable_def)

lemma upgrade_register: "upgrade s s' \<Longrightarrow> upgrade (register_value v (fst s), w) (register_value v (fst s'), w')"
  by (simp add: upgrade_def register_value_def)

lemma upgrade_results:
  assumes "upgrade (c, w) (c', w')"
  shows "upgrade (register_results i opn c, w) (register_results i opn c', w')"
proof -
  let ?f = "\<lambda>k ctx. case find_op_result (ctx_module ctx) i (as_u32 k) of
      Some v \<Rightarrow> register_value v ctx | None \<Rightarrow> ctx"
  have "upgrade (fold ?f ks c, w) (fold ?f ks c', w')" if "upgrade (c, w) (c', w')" for ks c c'
    using that
  proof (induction ks arbitrary: c c')
    case (Cons k ks)
    have "upgrade (?f k c, w) (?f k c', w')"
      using Cons.prems by (simp add: upgrade_def register_value_def split: option.split)
    then show ?case using Cons.IH by simp
  qed simp
  with assms show ?thesis by (simp add: register_results_def)
qed

lemma upgradable_block_arg: "upgradable (block_arg x)"
proof -
  obtain v ty where x: "x = (v, ty)" by fastforce
  have "block_arg x = acts [put_type ty, \<lambda>s. Inr (register_value v (fst s), snd s)]"
    by (rule ext) (simp add: x block_arg_def acts_funs)
  then show ?thesis by (simp add: up.ok_list up.ok_harmless upgradable_pure upgrade_register)
qed

lemma upgradable_rollback: "upgradable (rollback k)"
  by (rule upgradableI) (auto simp: rollback_def upgrade_def)

lemma write_block_with_upgradable:
  assumes "\<And>i. upgradable (W i)"
  shows "upgradable (write_block_with W b)"
proof -
  let ?g = "\<lambda>bl s. acts [put_varint (as_u64 (length (args bl))), for_each block_arg (args bl),
             put_varint (as_u64 (length (ops bl))), for_each W (ops bl), rollback (next_idx (fst s))]"
  have "write_block_with W b = (\<lambda>s. and_then (block (ctx_module (fst s)) b) (\<lambda>bl. ?g bl s s))"
    by (rule ext) (rule write_block_with_acts)
  moreover have "upgradable (\<lambda>s. and_then (block (ctx_module (fst s)) b) (\<lambda>bl. ?g bl s s))"
    by (intro upgradable_lookup [where g = ?g and get = "\<lambda>m. block m b"] up.ok_list up.ok_varint
        up.ok_for_each upgradable_block_arg upgradable_rollback assms) (simp add: upgrade_def)
  ultimately show ?thesis by simp
qed

lemma write_region_with_upgradable:
  assumes "\<And>b. upgradable (B b)"
  shows "upgradable (write_region_with B r)"
proof -
  let ?g = "\<lambda>rg s. acts [put_varint (as_u64 (length (rg_blocks rg))), for_each B (rg_blocks rg)]"
  have "write_region_with B r = (\<lambda>s. and_then (region (ctx_module (fst s)) r) (\<lambda>rg. ?g rg s s))"
    by (rule ext) (simp add: write_region_with_def)
  moreover have "upgradable (\<lambda>s. and_then (region (ctx_module (fst s)) r) (\<lambda>rg. ?g rg s s))"
    by (intro upgradable_lookup [where g = ?g and get = "\<lambda>m. region m r"] up.ok_list up.ok_varint
        up.ok_for_each assms) (rule refl)
  ultimately show ?thesis by simp
qed

lemma write_operation_with_upgradable:
  assumes "\<And>r. upgradable (R r)"
  shows "upgradable (write_operation_with H R i)"
proof -
  let ?g = "\<lambda>opn s. acts [\<lambda>s. Inr (record_location (location opn) (fst s), snd s), put_varint (ucast (as_u16 (opcode opn))),
     write_op_body H R opn, \<lambda>s. Inr (register_results i opn (fst s), snd s)]"
  have "upgradable (\<lambda>s. Inr (record_location (location opn) (fst s), snd s))" for opn :: Operation
    by (rule upgradable_pure) (simp add: upgrade_def record_location_def split: prod.split)
  moreover have "upgradable (\<lambda>s. Inr (register_results i opn (fst s), snd s))" for opn :: Operation
    by (rule upgradable_pure) (simp add: upgrade_results)
  ultimately have "upgradable (\<lambda>s. and_then (op (ctx_module (fst s)) i) (\<lambda>opn. ?g opn s s))"
    by (intro upgradable_lookup [where g = ?g and get = "\<lambda>m. op m i"] up.ok_list up.ok_varint
        up.ok_op_body) (assumption | rule assms refl)+
  moreover have "write_operation_with H R i = (\<lambda>s. and_then (op (ctx_module (fst s)) i) (\<lambda>opn. ?g opn s s))"
    by (rule ext) (simp add: write_operation_with_def acts_funs)
  ultimately show ?thesis by simp
qed

lemma write_operation_upgradable: "upgradable (write_operation H n i)"
proof (induction n arbitrary: i)
  case 0
  then show ?case by (simp add: upgradable_def)
next
  case (Suc n)
  have "write_operation H (Suc n) i = write_operation_with H (write_region_with (write_block_with (write_operation H n))) i"
    by (rule ext) simp
  then show ?case
    using Suc by (simp add: write_operation_with_upgradable write_region_with_upgradable write_block_with_upgradable)
qed

section \<open>Functions\<close>

lemma upgradable_for_each:
  "(\<And>x. x \<in> set xs \<Longrightarrow> upgradable (f x)) \<Longrightarrow> upgradable (for_each f xs)"
  by (rule up.ok_for_each)

lemma upgrade_register_all:
  "upgrade (c, w) (c', w') \<Longrightarrow>
   upgrade (fold (\<lambda>(v, _). register_value v) as c, w) (fold (\<lambda>(v, _). register_value v) as c', w')"
proof (induction as arbitrary: c c')
  case (Cons a as)
  obtain v ty where a: "a = (v, ty)" by fastforce
  have "upgrade (register_value v c, w) (register_value v c', w')" using upgrade_register [OF Cons.prems] by simp
  from Cons.IH [OF this] show ?case by (simp add: a)
qed simp

lemma function_body_upgrade:
  assumes "upgrade (c, w) (c', w')" and "write_function_body H n i c = Inr (d, body)"
  shows "\<exists>d' body'. write_function_body H n i c' = Inr (d', body') \<and> upgrade (d, w) (d', w')"
proof -
  have m: "ctx_module c' = ctx_module c" using assms(1) by (simp add: upgrade_def)
  obtain opn where o: "op (ctx_module c) i = (Inr opn :: write_error fault + Operation)"
    using assms(2) by (auto simp: write_function_body_def and_then_eq_Inr)
  show ?thesis
  proof (cases "op_regions opn")
    case Nil
    then show ?thesis using assms o m by (simp add: write_function_body_def)
  next
    case (Cons r rs)
    then obtain rg where r: "region (ctx_module c) r = (Inr rg :: write_error fault + Region)"
      using assms(2) o by (auto simp: write_function_body_def and_then_eq_Inr)
    show ?thesis
    proof (cases "rg_blocks rg")
      case Nil
      then show ?thesis using assms o m Cons r by (simp add: write_function_body_def)
    next
      case b: (Cons b bs)
      then obtain bl t where bl: "block (ctx_module c) b = (Inr bl :: write_error fault + Block)"
        and t: "for_each (write_operation H n) (ops bl) (fold (\<lambda>(v, _). register_value v) (args bl) c, writer_new) = Inr t"
          "d = fst t"
        using assms(2) o Cons r by (auto simp: write_function_body_def and_then_eq_Inr)
      have "upgrade (c, writer_new) (c', writer_new)" using assms(1) by (simp add: upgrade_def)
      from upgradableD [OF upgradable_for_each upgrade_register_all [OF this] t(1)] write_operation_upgradable
      obtain t' where t': "for_each (write_operation H n) (ops bl) (fold (\<lambda>(v, _). register_value v) (args bl) c', writer_new) = Inr t'"
        "upgrade t t'" by blast
      then have "write_function_body H n i c' = Inr (fst t', buf (snd t'))"
        using o Cons r b bl m by (simp add: write_function_body_def)
      then show ?thesis using t'(2) t(2) by (simp add: upgrade_def)
    qed
  qed
qed

lemma header_hints_upgrade:
  assumes "header_hints_ok v h = Inr ()" and "v \<le> v'"
  shows "header_hints_ok v' h = Inr ()"
proof -
  have "v' < V13_3 \<Longrightarrow> v < V13_3" using assms(2) by (rule le_less_trans)
  then show ?thesis using assms(1) by (auto simp: header_hints_ok_def split: option.splits Attribute.splits if_splits)
qed

lemma check_hints_upgrade: "check_hints v e = Inr () \<Longrightarrow> v \<le> v' \<Longrightarrow> check_hints v' e = Inr ()"
  unfolding check_hints_def
  by (cases e, cases "hint_target (fst e)") (auto simp: and_then_eq_Inr split: if_splits elim: order_trans)

lemma for_each_unit: "for_each (\<lambda>x _. g x) xs () = Inr () \<longleftrightarrow> (\<forall>x \<in> set xs. g x = Inr ())"
  by (induction xs) (auto simp: and_then_eq_Inr)

lemma check_op_hints_upgrade:
  assumes "check_op_hints v opn = Inr ()" and "v \<le> v'"
  shows "check_op_hints v' opn = Inr ()"
proof -
  have "check_op_hints v opn = Inr () \<longleftrightarrow> (\<forall>(n, a) \<in> set (attributes opn). \<forall>es. a = Attr_OptimizationHints es \<longrightarrow>
      (\<forall>e \<in> set es. check_hints v e = Inr ()))" for v
    unfolding check_op_hints_def case_prod_unfold for_each_unit
    by (auto simp: for_each_unit [where g = "check_hints v"] split: Attribute.split)
  then show ?thesis using assms check_hints_upgrade [OF _ assms(2)] by fastforce
qed

lemma check_region_versions_upgrade:
  "check_region_versions n m i v l f = Inr () \<Longrightarrow> v \<le> v' \<Longrightarrow> check_region_versions n m i v' l f = Inr ()"
proof (induction n arbitrary: i l f)
  case (Suc n)
  then obtain opn where o: "op m i = (Inr opn :: write_error fault + Operation)"
    and h: "check_op_hints v opn = Inr ()"
    and r: "opcode opn = Op_Return \<Longrightarrow> \<not> f \<and> (l \<longrightarrow> feature_since Feat_LoopReturn \<le> v)"
    and k: "for_each (\<lambda>r _. and_then (region m r) (\<lambda>rg. for_each (\<lambda>b _. and_then (block m b) (\<lambda>bl.
           for_each (\<lambda>child _. check_region_versions n m child v (l \<or> opcode opn = Op_Loop) (f \<or> opcode opn = Op_For))
             (ops bl) ())) (rg_blocks rg) ())) (op_regions opn) () = Inr ()"
    by (auto simp: and_then_eq_Inr split: if_splits)
  have "for_each (\<lambda>r _. and_then (region m r) (\<lambda>rg. for_each (\<lambda>b _. and_then (block m b) (\<lambda>bl.
           for_each (\<lambda>child _. check_region_versions n m child v' (l \<or> opcode opn = Op_Loop) (f \<or> opcode opn = Op_For))
             (ops bl) ())) (rg_blocks rg) ())) (op_regions opn) () = Inr ()"
    using k Suc.IH [OF _ Suc.prems(2)] unfolding for_each_unit and_then_eq_Inr by metis
  with o h r Suc.prems(2) show ?case
    by (auto simp: check_op_hints_upgrade [OF h Suc.prems(2)] elim: order_trans)
qed simp

lemma for_each_mono:
  assumes "\<And>x s t. x \<in> set xs \<Longrightarrow> f x s = Inr t \<Longrightarrow> g x s = Inr t" and "for_each f xs s = Inr t"
  shows "for_each g xs s = Inr t"
  using assms by (induction xs arbitrary: s) (auto simp: and_then_eq_Inr)

lemma prescan_module_upgrade:
  assumes "prescan_module m v = Inr t" and "v \<le> v'"
  shows "prescan_module m v' = Inr t"
proof -
  have c: "and_then (check_region_versions n m i v' False False) (\<lambda>_. x) = Inr u"
    if "and_then (check_region_versions n m i v False False) (\<lambda>_. x) = Inr u" for n i x and u :: tables
    using that check_region_versions_upgrade [OF _ assms(2)] by (auto simp: and_then_eq_Inr)
  define F where "F v = for_each (\<lambda>i t. and_then (check_region_versions (module_fuel m) m i v False False) (\<lambda>_.
         prescan_function (module_fuel m) m i t)) (mod_functions m)" for v
  have F: "F v' t0 = Inr t" if "F v t0 = Inr t" for t0
    using that unfolding F_def by (rule for_each_mono [rotated]) (rule c)
  show ?thesis
  proof (cases "producer m")
    case None
    then show ?thesis using assms(1) F by (simp add: prescan_module_def F_def)
  next
    case (Some p)
    then have "feature_since Feat_Producer \<le> v"
      using assms(1) by (auto simp: prescan_module_def and_then_eq_Inr)
    then have "feature_since Feat_Producer \<le> v'" using assms(2) by (rule order_trans)
    then show ?thesis using assms(1) F Some \<open>feature_since Feat_Producer \<le> v\<close> by (simp add: prescan_module_def F_def)
  qed
qed

lemma write_function_upgradable: "upgradable (write_function H n i)"
proof (rule upgradableI)
  fix s s' t assume s: "upgrade s s'" and w: "write_function H n i s = Inr t"
  have m: "ctx_module (fst s') = ctx_module (fst s)" and v: "ctx_version (fst s) \<le> ctx_version (fst s')"
    using s by (simp_all add: upgrade_def)
  obtain opn name ty where o: "op (ctx_module (fst s)) i = (Inr opn :: (write_error, Operation) res)"
    and nm: "find_string_attr (attributes opn) ''sym_name'' = Some name"
    and ft: "find_type_attr (attributes opn) ''function_type'' = Some ty"
    using w unfolding write_function_def and_then_eq_Inr ok_or_eq_Inr
    by (elim exE conjE) (rule that)
  define hints where "hints = (if opcode opn = Op_Entry then find_attr (attributes opn) ''optimization_hints'' else None)"
  define tl where "tl = (\<lambda>(c, w). and_then (write_function_body H n i (c\<lparr>value_map := (\<lambda>_. None), next_idx := 0\<rparr>))
      (\<lambda>(ctx, body). Inr (ctx, write_bytes body (write_varint (as_u64 (length body)) w))) :: (write_error, wstate) res)"
  define hs where "hs = (\<lambda>u. case hints of Some a \<Rightarrow> write_self_contained_attribute H a u | None \<Rightarrow> Inr u)"
  have e: "\<exists>u. write_function H n i s = and_then (header_hints_ok (ctx_version (fst s)) hints) (\<lambda>_. and_then (hs u) tl) \<and>
      same_values s u"
    if o: "op (ctx_module (fst s)) i = (Inr opn :: (write_error, Operation) res)" for s
  proof -
    obtain ni ss where 1: "string_get_or_insert name (strings (fst s)) = (ni, ss)" by fastforce
    obtain ti tys where 2: "type_get_or_insert ty (types (fst s)) = (ti, tys)" by fastforce
    obtain di ss' d where 3: "begin_function name (find_string_attr (attributes opn) ''di_name'') (location opn) ss
        (debug (fst s)) = (di, ss', d)" using prod_cases3 by blast
    let ?flags = "(if opcode opn = Op_Entry then function_flag_u8 FunctionFlag_KindKernel else 0)
        OR (if opcode opn = Op_Entry \<and> hints \<noteq> None then function_flag_u8 FunctionFlag_HasOptimizationHints else 0)"
    let ?u = "((fst s)\<lparr>strings := ss, types := tys, strings := ss', debug := d\<rparr>,
        write_varint di (write_byte ?flags (write_varint ti (write_varint ni (snd s)))))"
    have "write_function H n i s = and_then (header_hints_ok (ctx_version (fst s)) hints) (\<lambda>_. and_then (hs ?u) tl)"
      by (simp add: write_function_def o nm ft 1 2 3 Let_def hs_def tl_def hints_def [symmetric] cong: if_cong option.case_cong)
    moreover have "same_values s ?u" by (simp add: same_values_def)
    ultimately show ?thesis by blast
  qed
  obtain u where u: "write_function H n i s = and_then (header_hints_ok (ctx_version (fst s)) hints) (\<lambda>_. and_then (hs u) tl)"
    "same_values s u" using e [OF o] by blast
  obtain u' where u': "write_function H n i s' = and_then (header_hints_ok (ctx_version (fst s')) hints) (\<lambda>_. and_then (hs u') tl)"
    "same_values s' u'" using e [of s'] o m by auto
  obtain u1 where h: "header_hints_ok (ctx_version (fst s)) hints = Inr ()" and u1: "hs u = Inr u1" and t: "tl u1 = Inr t"
    using w unfolding u(1) and_then_eq_Inr by auto
  have "upgradable hs" unfolding hs_def
    by (cases hints) (simp_all add: up.ok_self_contained up.ok_skip)
  from upgradableD [OF this same_values_upgrade [OF s u(2) u'(2)] u1] obtain u1' where
    u1': "hs u' = Inr u1'" "upgrade u1 u1'" by blast
  obtain d body where d: "write_function_body H n i ((fst u1)\<lparr>value_map := (\<lambda>_. None), next_idx := 0\<rparr>) = Inr (d, body)"
    "fst t = d" using t by (cases u1) (auto simp: tl_def and_then_eq_Inr)
  have "upgrade ((fst u1)\<lparr>value_map := (\<lambda>_. None), next_idx := 0\<rparr>, writer_new)
      ((fst u1')\<lparr>value_map := (\<lambda>_. None), next_idx := 0\<rparr>, writer_new)"
    using u1'(2) by (simp add: upgrade_def)
  from function_body_upgrade [OF this d(1)] obtain d' body' where
    "write_function_body H n i ((fst u1')\<lparr>value_map := (\<lambda>_. None), next_idx := 0\<rparr>) = Inr (d', body')"
    "upgrade (d, writer_new) (d', writer_new)" by blast
  then have "\<exists>t'. tl u1' = Inr t' \<and> upgrade t t'" using d(2) by (cases u1') (simp add: tl_def upgrade_def)
  then show "\<exists>t'. write_function H n i s' = Inr t' \<and> upgrade t t'"
    using header_hints_upgrade [OF h v] u1'(1) unfolding u'(1) by simp
qed

text \<open>The function section of a newer version.\<close>

lemma write_function_section_upgrade:
  assumes "write_function_section H n out c = Inr (out1, c1)" and "ctx_version c \<le> v'"
  shows "\<exists>out2 c2. write_function_section H n out (c\<lparr>ctx_version := v'\<rparr>) = Inr (out2, c2)"
proof (cases "mod_functions (ctx_module c) = []")
  case True
  then show ?thesis by (simp add: write_function_section_def)
next
  case False
  let ?w = "write_varint (as_u64 (length (mod_functions (ctx_module c)))) writer_new"
  obtain t where t: "for_each (write_function H n) (mod_functions (ctx_module c)) (c, ?w) = Inr t"
    using assms(1) False by (auto simp: write_function_section_def Let_def and_then_eq_Inr)
  have u: "upgrade (c, ?w) (c\<lparr>ctx_version := v'\<rparr>, ?w)" using assms(2) by (simp add: upgrade_def)
  have "upgradable (for_each (write_function H n) (mod_functions (ctx_module c)))"
    by (rule upgradable_for_each) (rule write_function_upgradable)
  from upgradableD [OF this u t] obtain t' where
    "for_each (write_function H n) (mod_functions (ctx_module c)) (c\<lparr>ctx_version := v'\<rparr>, ?w) = Inr t'" by blast
  then show ?thesis using False by (cases t') (simp add: write_function_section_def Let_def)
qed

end
