(* ===== verification/RegionChecks.thy ===== *)
theory RegionChecks
  imports Upgrade
begin

text \<open>
  What the version checks of regions establish. A module that passes the pre-scan has no
  \<open>return\<close> nested in a \<open>for\<close>, and a \<open>return\<close> nested in a \<open>loop\<close> only from the version that
  supports it; the hints of every nested operation are supported by the version.
\<close>

section \<open>Checked operations\<close>

text \<open>The operation passed the check, inside or outside of a loop and of a for.\<close>

definition checked :: "Module \<Rightarrow> BytecodeVersion \<Rightarrow> bool \<Rightarrow> bool \<Rightarrow> OpId \<Rightarrow> bool" where
  "checked m v in_loop in_for i \<longleftrightarrow> (\<exists>n. check_region_versions n m i v in_loop in_for = Inr ())"

lemma checked_op:
  assumes "checked m v in_loop in_for i" and "op m i = (Inr opn :: (write_error, Operation) res)"
  shows "opcode opn = Op_Return \<Longrightarrow> \<not> in_for" "opcode opn = Op_Return \<Longrightarrow> in_loop \<Longrightarrow> feature_since Feat_LoopReturn \<le> v"
    and "check_op_hints v opn = Inr ()"
proof -
  obtain n where n: "check_region_versions n m i v in_loop in_for = Inr ()" using assms(1) by (auto simp: checked_def)
  then obtain n' where n': "n = Suc n'" by (cases n) simp_all
  show "opcode opn = Op_Return \<Longrightarrow> \<not> in_for" "opcode opn = Op_Return \<Longrightarrow> in_loop \<Longrightarrow> feature_since Feat_LoopReturn \<le> v"
    "check_op_hints v opn = Inr ()"
    using n assms(2) unfolding n' check_region_versions.simps by (auto simp: and_then_eq_Inr split: if_splits)
qed

lemma checked_child:
  assumes "checked m v in_loop in_for i" and "op m i = (Inr opn :: (write_error, Operation) res)" and "nests m i j"
  shows "checked m v (in_loop \<or> opcode opn = Op_Loop) (in_for \<or> opcode opn = Op_For) j"
proof -
  obtain n where n: "check_region_versions n m i v in_loop in_for = Inr ()" using assms(1) by (auto simp: checked_def)
  then obtain n' where n': "n = Suc n'" by (cases n) simp_all
  let ?c = "\<lambda>child. check_region_versions n' m child v (in_loop \<or> opcode opn = Op_Loop) (in_for \<or> opcode opn = Op_For)"
  have "for_each (\<lambda>r _. and_then (region m r) (\<lambda>rg. for_each (\<lambda>b _. and_then (block m b) (\<lambda>bl.
           for_each (\<lambda>child _. ?c child) (ops bl) ())) (rg_blocks rg) ())) (op_regions opn) () = Inr ()"
    using n assms(2) unfolding n' check_region_versions.simps by (auto simp: and_then_eq_Inr)
  then have c: "\<forall>r \<in> set (op_regions opn). \<exists>rg. region m r = (Inr rg :: (write_error, Region) res) \<and>
      (\<forall>b \<in> set (rg_blocks rg). \<exists>bl. block m b = (Inr bl :: (write_error, Block) res) \<and> (\<forall>child \<in> set (ops bl). ?c child = Inr ()))"
    unfolding for_each_unit and_then_eq_Inr .
  obtain r rg b bl where "r \<in> set (op_regions opn)" "region m r = (Inr rg :: (write_error, Region) res)" "b \<in> set (rg_blocks rg)"
    "block m b = (Inr bl :: (write_error, Block) res)" "j \<in> set (ops bl)"
    using assms(2,3) by (auto simp: nests_def)
  with c have "?c j = Inr ()" by fastforce
  then show ?thesis unfolding checked_def by blast
qed

lemma nests_valid: "nests m i j \<Longrightarrow> \<exists>opn. op m i = (Inr opn :: (write_error, Operation) res)"
  by (auto simp: nests_def)

lemma checked_below:
  assumes "(nests m)\<^sup>*\<^sup>* i j" and "checked m v l f i"
  shows "\<exists>l' f'. checked m v l' f' j \<and> (l \<longrightarrow> l') \<and> (f \<longrightarrow> f')"
  using assms
proof (induction rule: rtranclp_induct)
  case base
  then show ?case by blast
next
  case (step j k)
  then obtain l' f' where "checked m v l' f' j" "l \<longrightarrow> l'" "f \<longrightarrow> f'" by blast
  moreover obtain opn where "op m j = (Inr opn :: (write_error, Operation) res)" using nests_valid [OF step.hyps(2)] by blast
  ultimately show ?case using checked_child [OF _ _ step.hyps(2)] by blast
qed

lemma checked_inside:
  assumes "checked m v l f func" and "(nests m)\<^sup>*\<^sup>* func i" and "(nests m)\<^sup>+\<^sup>+ i j"
    and "op m i = (Inr opn :: (write_error, Operation) res)"
  shows "\<exists>l' f'. checked m v l' f' j \<and> (opcode opn = Op_Loop \<longrightarrow> l') \<and> (opcode opn = Op_For \<longrightarrow> f')"
proof -
  obtain l1 f1 where i: "checked m v l1 f1 i" using checked_below [OF assms(2,1)] by blast
  obtain k where k: "nests m i k" "(nests m)\<^sup>*\<^sup>* k j" using assms(3) by (meson tranclpD)
  from checked_below [OF k(2) checked_child [OF i assms(4) k(1)]] show ?thesis by blast
qed

lemma prescan_checks:
  assumes "prescan_module m v = Inr t" and "func \<in> set (mod_functions m)"
  shows "checked m v False False func"
proof -
  have c: "\<forall>i \<in> set fs. check_region_versions n m i v False False = Inr ()"
    if "for_each (\<lambda>i t. and_then (check_region_versions n m i v False False) (\<lambda>_. g i t)) fs t0 = Inr t" for n fs t0 t g
    using that by (induction fs arbitrary: t0) (auto simp: and_then_eq_Inr)
  obtain t0 where "for_each (\<lambda>i t. and_then (check_region_versions (module_fuel m) m i v False False) (\<lambda>_.
         prescan_function (module_fuel m) m i t)) (mod_functions m) t0 = Inr t"
    using assms(1) unfolding prescan_module_def and_then_eq_Inr by (elim exE conjE) (rule that)
  from c [OF this] assms(2) show ?thesis unfolding checked_def by blast
qed

lemma written_checks:
  assumes "write_bytecode_version H m v = Inr bytes" and "func \<in> set (mod_functions m)"
  shows "checked m v False False func"
  using assms(1) by (rule write_bytecode_versionE) (rule prescan_checks [OF _ assms(2)])

end
