(* ===== verification/Execution.thy ===== *)
theory Execution
  imports Writer
begin

text \<open>
  Running the writer on concrete modules by rewriting. The collection \<open>exec\<close> unfolds the
  writer; the congruence rules \<open>eager\<close> make the simplifier evaluate the state before it
  enters the continuation, so that a run proceeds in the order of the program. The theory
  also holds the small modules on which the properties of the development are exercised.
\<close>

named_theorems exec

section \<open>Evaluation order\<close>

lemma and_then_eager: "m = m' \<Longrightarrow> and_then m f = and_then m' f"
  by simp

lemma Let_eager: "m = m' \<Longrightarrow> Let m f = Let m' f"
  by simp

lemma for_each_eager: "xs = xs' \<Longrightarrow> s = s' \<Longrightarrow> for_each f xs s = for_each f xs' s'"
  by simp

lemma fold_eager: "xs = xs' \<Longrightarrow> s = s' \<Longrightarrow> fold f xs s = fold f xs' s'"
  by simp

lemmas eager = and_then_eager Let_eager for_each_eager fold_eager

section \<open>Definitions to unfold\<close>

text \<open>Recursions that must only unfold once their guard is decided.\<close>

lemma exec_type_get_or_insert [exec]:
  "ty_map m ty = Some idx \<Longrightarrow> type_get_or_insert ty m = (idx, m)"
  "ty_map m ty = None \<Longrightarrow> type_get_or_insert ty m =
     (let m = fold (\<lambda>d m. snd (type_get_or_insert d m)) (register_deps ty) m;
          idx = as_u64 (length (ty_list m))
      in (idx, \<lparr>ty_list = ty_list m @ [ty], ty_map = (ty_map m)(ty \<mapsto> idx)\<rparr>))"
  by (simp_all add: type_get_or_insert.simps)

lemma exec_varint [exec]:
  "drop_bit 7 v = 0 \<Longrightarrow> varint v = [ucast v]"
  "drop_bit 7 v \<noteq> 0 \<Longrightarrow> varint v = (ucast v OR 0x80) # varint (drop_bit 7 v)"
  by (simp_all add: varint.simps [of v])

lemma exec_to_le [exec]:
  "to_le 2 w = to_le (Suc (Suc 0)) w"
  "to_le 4 w = to_le (Suc (Suc (Suc (Suc 0)))) w"
  "to_le 8 w = to_le (Suc (Suc (Suc (Suc (Suc (Suc (Suc (Suc 0)))))))) w"
  by (simp_all add: numeral_eq_Suc)

declare write_varint_loop_eq [exec]

lemmas exec_prelude [exec] =
  ok_or_def index_def slice_of_def get_opt_def as_bytes_def chars_of_def cont_byte_def from_utf8_def
  rust_str_def show_nat_def show_int_def

lemmas exec_enums [exec] =
  ALIGNMENT_BYTE_def MAGIC_def NUM_SECTIONS_def type_tag_u64_def less_eq_BytecodeVersion_def
  less_BytecodeVersion_def V13_2_def V13_3_def V13_4_def CURRENT_def MIN_SUPPORTED_def SUPPORTED_def
  show_version_def

lemmas exec_irtypes [exec] =
  DYNAMIC_def is_integer_def is_float_def with_pointer_attribute_def

lemmas exec_encoding [exec] =
  writer_new_def write_byte_def write_bytes_def tell_def write_varint_def zigzag_def
  write_signed_varint_def write_le_u8_def write_le_u16_def write_le_u32_def write_le_u64_def
  write_le_i32_def write_le_i64_def write_le_var_size_i64_def write_le_var_size_i32_def
  padding_to_def align_to_def patch_bytes_def patch_u32_def patch_u64_def write_ap_float_def
  var_size_i64_def var_size_i32_def

lemmas exec_irmodule [exec] =
  dense_bool_array_def attr_int_def attr_i32_def attr_float_def module_new_def alloc_value_def
  num_values_def value_type_def alloc_op_def alloc_block_def alloc_region_def find_op_result_def

lemmas exec_requirements [exec] =
  feature_since_def TARGETS_def target_requirement_def scalar_requirement_def minimum_version_def
  attribute_feature_def opcode_requirement_def

lemmas exec_interning [exec] =
  strings_new_def string_get_or_insert_def types_new_def constants_new_def constant_add_def
  MISSING_DEBUG_ATTR_ID_def debug_table_new_def debug_intern_def di_file_def di_compile_unit_def
  di_subprogram_def di_lexical_block_def di_loc_def di_call_site_def ensure_non_empty_def

lemmas exec_sections [exec] =
  require_version_def write_header_def write_section_header_def patch_offsets_def
  write_string_section_def write_constant_section_def

lemmas exec_typesection [exec] =
  seq_def emit_def write_type_index_def qualify_def write_flag_def write_pointer_attribute_def
  write_padding_value_def serialize_type_def write_type_section_def

lemmas exec_debuginfo [exec] =
  debug_new_def subprogram_attr_def split_file_path_def begin_function_def record_op_def
  write_debug_section_def

lemmas exec_attrwriter [exec] =
  put_def put_varint_def put_type_def put_string_def constant_data_def put_constant_def gate_def
  optional_pair_def find_string_attr_def find_type_attr_def find_attr_def find_op_attr_def

lemmas exec_opwriter [exec] =
  write_result_types_def operand_index_def put_operand_def write_operands_def
  operand_segment_sizes_def segment_size_def operand_group_offset_def put_group_operand_def
  write_operand_group_def write_variadic_operand_group_def print_operand_groups_def
  write_regions_def write_attr_value_inline_def write_inline_attr_def
  write_inline_attr_or_default_def write_interface_attr_def inbounds_values_def write_inbounds_def
  flag_if_present_def flag_if_bool_true_def flag_if_operand_group_def flag_set_def since_version_def
  result_count_def body_simple_def body_exp_def body_mmaf_def body_alloca_def body_default_attr_def
  body_attrs_def body_attrs_only_def body_results_only_def body_assume_def body_ftoi_def
  body_variadic_def body_shape_def body_make_tensor_view_def body_float_arith_def body_ftz_def
  body_minmax_def body_global_def body_module_def body_print_def body_for_def body_loop_def
  body_if_def body_reduce_def flagged_group_def flagged_attr_def body_atomic_cas_def
  body_atomic_rmw_def body_atomic_red_view_def body_load_ptr_def body_load_view_def
  body_store_ptr_def body_store_view_def body_gdc_def body_entry_def attribute_gates_def
  write_op_body_def

lemmas exec_writer [exec] =
  digit_def parse_u32_def strip_prefix_def hint_target_def worker_warps_hint_def check_hints_def
  check_op_hints_def scan_string_def scan_type_def prescan_attributes_def prescan_function_def
  register_value_def register_results_def record_location_def write_operation_with_def
  write_block_with_def write_region_with_def write_block_def write_region_def
  write_function_body_def header_hints_ok_def write_function_def write_function_section_def
  write_global_def write_global_section_def writer_ctx_new_def prescan_module_def write_producer_def
  write_bytecode_version_def write_bytecode_def

section \<open>Sample modules\<close>

text \<open>A stand-in for the rounding of the \<open>half\<close> crate; the samples hold no float.\<close>

definition half0 :: half_crate where
  "half0 = \<lparr>f16_from_f64 = (\<lambda>_. 0), bf16_from_f64 = (\<lambda>_. 0)\<rparr>"

definition i32_tile :: Type where
  "i32_tile = Ty_Tile \<lparr>t_shape = [], t_element_type = TE_Scalar I32\<rparr>"

definition plain_op ::
  "Opcode \<Rightarrow> Value list \<Rightarrow> Type list \<Rightarrow> (string \<times> Attribute) list \<Rightarrow> RegionId list \<Rightarrow> Operation" where
  "plain_op oc vs tys as rs =
     \<lparr>opcode = oc, operands = vs, result_types = tys, attributes = as, op_regions = rs,
      location = Loc_Unknown\<rparr>"

lemma plain_op_sel [exec]:
  "opcode (plain_op oc vs tys as rs) = oc" "operands (plain_op oc vs tys as rs) = vs"
  "result_types (plain_op oc vs tys as rs) = tys" "attributes (plain_op oc vs tys as rs) = as"
  "op_regions (plain_op oc vs tys as rs) = rs" "location (plain_op oc vs tys as rs) = Loc_Unknown"
  by (simp_all add: plain_op_def)

definition kernel_attrs :: "(string \<times> Attribute) list" where
  "kernel_attrs = [(''sym_name'', Attr_String ''k''), (''function_type'', Attr_Type (Ty_Func [] []))]"

definition tile_value :: "u32 \<Rightarrow> u32 \<Rightarrow> ValueData" where
  "tile_value i k = \<lparr>vd_ty = i32_tile, vd_producer = OpResult (OpId i) k\<rparr>"

definition sample_global :: Global where
  "sample_global =
     \<lparr>sym_name = ''g'', g_value = \<lparr>de_element_type = i32_tile, de_shape = [1], de_data = [1, 0, 0, 0]\<rparr>,
      alignment = 16, g_constant = True, symbol_visibility = Vis_Private\<rparr>"

lemma sample_global_sel [exec]:
  "sym_name sample_global = ''g''" "de_element_type (g_value sample_global) = i32_tile"
  "de_data (g_value sample_global) = [1, 0, 0, 0]" "alignment sample_global = 16"
  "g_constant sample_global = True" "symbol_visibility sample_global = Vis_Private"
  by (simp_all add: sample_global_def)

text \<open>One global and a kernel that adds two of the three block coordinates.\<close>

definition sample :: Module where
  "sample = \<lparr>mod_name = ''m'', producer = Some ''p'',
     mod_values = [tile_value 1 0, tile_value 1 1, tile_value 1 2, tile_value 2 0],
     operations = [
       plain_op Op_Entry [] [] kernel_attrs [RegionId 0],
       plain_op Op_GetTileBlockId [] [i32_tile, i32_tile, i32_tile] [] [],
       plain_op Op_AddI [Value 0, Value 2] [i32_tile] [(''overflow'', attr_i32 0)] [],
       plain_op Op_Return [] [] [] []],
     blocks = [\<lparr>args = [], ops = [OpId 1, OpId 2, OpId 3]\<rparr>],
     regions = [\<lparr>rg_blocks = [BlockId 0]\<rparr>],
     mod_functions = [OpId 0],
     globals = [sample_global]\<rparr>"

lemma sample_sel [exec]:
  "operations sample = [
       plain_op Op_Entry [] [] kernel_attrs [RegionId 0],
       plain_op Op_GetTileBlockId [] [i32_tile, i32_tile, i32_tile] [] [],
       plain_op Op_AddI [Value 0, Value 2] [i32_tile] [(''overflow'', attr_i32 0)] [],
       plain_op Op_Return [] [] [] []]"
  "blocks sample = [\<lparr>args = [], ops = [OpId 1, OpId 2, OpId 3]\<rparr>]"
  "regions sample = [\<lparr>rg_blocks = [BlockId 0]\<rparr>]"
  "mod_functions sample = [OpId 0]" "module_fuel sample = Suc (Suc (Suc (Suc (Suc 0))))"
  "producer sample = Some ''p''" "globals sample = [sample_global]"
  "mod_values sample = [tile_value 1 0, tile_value 1 1, tile_value 1 2, tile_value 2 0]"
  by (simp_all add: sample_def module_fuel_def)

lemmas sample_defs [exec] = i32_tile_def kernel_attrs_def tile_value_def

lemma sample_written: "case write_bytecode half0 sample of Inr b \<Rightarrow> length b < 2 ^ 32 | _ \<Rightarrow> False"
  by (simp add: exec cong: eager)

end
