(* ===== verification/VerifierRun.thy ===== *)
theory VerifierRun
  imports Verify Execution
begin

text \<open>
  The verifiers and the writer run on a module whose loop uses its own result inside its
  region. Both verifiers register the results of an operation before they visit its regions,
  the writer after it.
\<close>

definition nested_use :: Module where
  "nested_use = \<lparr>mod_name = ''m'', producer = None,
     mod_values = [tile_value 1 0, tile_value 2 0],
     operations = [
       plain_op Op_Entry [] [] kernel_attrs [RegionId 0],
       plain_op Op_Loop [] [i32_tile] [] [RegionId 1],
       plain_op Op_AddI [Value 0, Value 0] [i32_tile] [(''overflow'', attr_i32 0)] [],
       plain_op Op_Break [] [] [] [],
       plain_op Op_Return [] [] [] []],
     blocks = [\<lparr>args = [], ops = [OpId 1, OpId 4]\<rparr>, \<lparr>args = [], ops = [OpId 2, OpId 3]\<rparr>],
     regions = [\<lparr>rg_blocks = [BlockId 0]\<rparr>, \<lparr>rg_blocks = [BlockId 1]\<rparr>],
     mod_functions = [OpId 0],
     globals = []\<rparr>"

lemma nested_use_sel [exec]:
  "operations nested_use = [
       plain_op Op_Entry [] [] kernel_attrs [RegionId 0],
       plain_op Op_Loop [] [i32_tile] [] [RegionId 1],
       plain_op Op_AddI [Value 0, Value 0] [i32_tile] [(''overflow'', attr_i32 0)] [],
       plain_op Op_Break [] [] [] [],
       plain_op Op_Return [] [] [] []]"
  "blocks nested_use = [\<lparr>args = [], ops = [OpId 1, OpId 4]\<rparr>, \<lparr>args = [], ops = [OpId 2, OpId 3]\<rparr>]"
  "regions nested_use = [\<lparr>rg_blocks = [BlockId 0]\<rparr>, \<lparr>rg_blocks = [BlockId 1]\<rparr>]"
  "mod_functions nested_use = [OpId 0]" "module_fuel nested_use = Suc (Suc (Suc (Suc (Suc (Suc 0)))))"
  "producer nested_use = None" "globals nested_use = []"
  "mod_values nested_use = [tile_value 1 0, tile_value 2 0]"
  by (simp_all add: nested_use_def module_fuel_def)

lemmas exec_verify [exec] = verify_dominance_def verify_bytecode_indices_def verify_bc_function_def
  verify_bc_block_with_def verify_bc_operation_with_def bc_count_errors_def bc_result_def bc_register_def
  verify_block_with_def verify_block_op_def see_results_def missing_operands_def

text \<open>The operations of the sample nest once, from the entry to the operations of its block.\<close>

lemma sample_acyclic: "acyclic_nesting sample"
proof -
  have e: "i = OpId 0 \<and> j \<noteq> OpId 0" if "nests sample i j" for i j
    using that by (cases i) (auto simp: nests_def exec index_def nth_Cons unat_eq_zero split: if_splits nat.splits)
  have "{(i, j). nests sample i j} \<subseteq> measure (\<lambda>i. if i = OpId 0 then 0 else 1)"
    using e by fastforce
  moreover have "acyclic (measure (\<lambda>i :: OpId. if i = OpId 0 then 0 else 1))"
    by (simp add: wf_acyclic)
  ultimately show ?thesis unfolding acyclic_nesting_def by (rule acyclic_subset [rotated])
qed

end
