(* ===== verification/DebugRun.thy ===== *)
theory DebugRun
  imports DebugInfo
begin

text \<open>
  The life of the debug-info collector as a transition system. Its client, the function
  writer, opens a function with \<open>begin_function\<close>, records one location for each operation
  with \<open>record_op\<close>, and interns strings of its own in between. The invariant of
  \<open>DebugInfo\<close> holds in every state so reached, hence every identifier the collector hands
  out resolves.
\<close>

inductive debug_reach :: "StringManager \<Rightarrow> DebugInfoCollector \<Rightarrow> bool" where
  start: "debug_reach strings_new debug_new"
| intern: "debug_reach ss d \<Longrightarrow> debug_reach (snd (string_get_or_insert s ss)) d"
| open_function:
    "debug_reach ss d \<Longrightarrow> begin_function symbol di_name loc ss d = (i, ss', d') \<Longrightarrow> debug_reach ss' d'"
| operation: "debug_reach ss d \<Longrightarrow> record_op loc ss d = (ss', d') \<Longrightarrow> debug_reach ss' d'"

lemma debug_reach_inv: "debug_reach ss d \<Longrightarrow> debug_inv ss d"
proof (induction rule: debug_reach.induct)
  case start
  show ?case by (rule debug_inv_new [OF debug_ok_new])
next
  case (intern ss d s)
  then show ?case by (simp add: debug_inv_strings)
next
  case (open_function ss d symbol di_name loc i ss' d')
  then show ?case using begin_function_inv by blast
next
  case (operation ss d loc ss' d')
  then show ?case using record_op_inv by blast
qed

text \<open>An entry of the table and what it may refer to: entries before it, and strings.\<close>

definition entry_resolves :: "StringManager \<Rightarrow> nat \<Rightarrow> bytes \<Rightarrow> bool" where
  "entry_resolves ss j b \<longleftrightarrow> (\<exists>a. b = enc_attr a \<and> (\<forall>i \<in> attr_refs a. unat i \<le> j) \<and>
     (\<forall>i \<in> attr_strs a. unat i < length (str_map ss)))"

lemma unat_id_bound: "k \<le> n \<Longrightarrow> unat (as_u64 k) \<le> n" "k < n \<Longrightarrow> unat (as_u64 k) < n"
  by (simp_all add: unat_of_nat le_trans [OF mod_less_eq_dividend] le_less_trans [OF mod_less_eq_dividend])

lemma id_ok_bound: "id_ok t i \<Longrightarrow> unat i \<le> length (da_entries t)"
  by (auto simp: id_ok_def intro: unat_id_bound)

lemma debug_inv_resolves:
  assumes "debug_inv ss d"
  shows "\<forall>l \<in> set (per_function d). l \<noteq> [] \<and> (\<forall>i \<in> set l. unat i \<le> length (da_entries (attrs d)))"
    and "\<forall>j < length (da_entries (attrs d)). entry_resolves ss j (da_entries (attrs d) ! j)"
proof -
  show "\<forall>l \<in> set (per_function d). l \<noteq> [] \<and> (\<forall>i \<in> set l. unat i \<le> length (da_entries (attrs d)))"
    using assms by (simp add: debug_inv_def id_ok_bound)
next
  have "entry_resolves ss j b" if ok: "attr_ok j ss b" for j b
  proof -
    obtain a where a: "b = enc_attr a" "\<forall>i \<in> attr_refs a. \<exists>k \<le> j. i = as_u64 k"
      "\<forall>i \<in> attr_strs a. \<exists>k < length (str_map ss). i = as_u64 k"
      using ok unfolding attr_ok_def str_ok_def by blast
    have "\<forall>i \<in> attr_refs a. unat i \<le> j"
    proof
      fix i assume "i \<in> attr_refs a"
      then obtain k where "k \<le> j" "i = as_u64 k" using a(2) by blast
      then show "unat i \<le> j" by (simp only: unat_id_bound)
    qed
    moreover have "\<forall>i \<in> attr_strs a. unat i < length (str_map ss)"
    proof
      fix i assume "i \<in> attr_strs a"
      then obtain k where "k < length (str_map ss)" "i = as_u64 k" using a(3) by blast
      then show "unat i < length (str_map ss)" by (simp only: unat_id_bound)
    qed
    ultimately show ?thesis using a(1) unfolding entry_resolves_def by blast
  qed
  then show "\<forall>j < length (da_entries (attrs d)). entry_resolves ss j (da_entries (attrs d) ! j)"
    using assms by (simp add: debug_inv_def debug_ok_def)
qed

end
