(* ===== verification/Intervals.thy ===== *)
theory Intervals
  imports Prelude "HOL-Library.Signed_Division"
begin

text \<open>
  Interval arithmetic of the compiler (\<open>cutile-compiler/src/bounds.rs\<close>): the range of the
  result of a binary operation from the ranges of its operands.

  An \<open>i64\<close> is an integer here and every operation that can leave its range says what
  happens: saturating operations go through \<open>sat\<close>, casts through \<open>as_i64\<close>, and a division
  by zero panics. The soundness proof treats the corner-sampled operations uniformly: the
  locale \<open>corner\<close> asks that an operation be monotone or antitone in each argument.
\<close>

section \<open>Integers of 64 bits\<close>

definition I64_MIN :: int where
  "I64_MIN = - (2 ^ 63)"

definition I64_MAX :: int where
  "I64_MAX = 2 ^ 63 - 1"

definition in_i64 :: "int \<Rightarrow> bool" where
  "in_i64 x \<longleftrightarrow> I64_MIN \<le> x \<and> x \<le> I64_MAX"

definition sat :: "int \<Rightarrow> int" where
  "sat x = max I64_MIN (min I64_MAX x)"

text \<open>\<open>x as i64\<close> on an unsigned 64-bit result.\<close>

definition as_i64 :: "int \<Rightarrow> int" where
  "as_i64 x = (let r = x mod 2 ^ 64 in if r < 2 ^ 63 then r else r - 2 ^ 64)"

definition saturating_add :: "int \<Rightarrow> int \<Rightarrow> int" where
  "saturating_add a b = sat (a + b)"

definition saturating_sub :: "int \<Rightarrow> int \<Rightarrow> int" where
  "saturating_sub a b = sat (a - b)"

definition saturating_mul :: "int \<Rightarrow> int \<Rightarrow> int" where
  "saturating_mul a b = sat (a * b)"

type_synonym 'a may_panic = "unit fault + 'a"

definition saturating_div :: "int \<Rightarrow> int \<Rightarrow> int may_panic" where
  "saturating_div a b = (if b = 0 then Inl Panic else Inr (sat (a sdiv b)))"

definition checked_rem :: "int \<Rightarrow> int \<Rightarrow> int option" where
  "checked_rem a b = (if b = 0 \<or> a = I64_MIN \<and> b = - 1 then None else Some (a smod b))"

text \<open>The number of consecutive positions below \<open>n\<close>, from the top, that satisfy \<open>P\<close>.\<close>

fun leading :: "(nat \<Rightarrow> bool) \<Rightarrow> nat \<Rightarrow> nat" where
  "leading P 0 = 0"
| "leading P (Suc n) = (if P n then Suc (leading P n) else 0)"

definition leading_zeros :: "int \<Rightarrow> nat" where
  "leading_zeros v = leading (\<lambda>i. \<not> bit v i) 64"

definition leading_ones :: "int \<Rightarrow> nat" where
  "leading_ones v = leading (bit v) 64"

section \<open>Operations\<close>

datatype TileBinaryOp =
    Bop_Add | Bop_Sub | Bop_Mul | Bop_Div | Bop_CeilDiv | Bop_TrueDiv | Bop_Rem
  | Bop_Eq | Bop_Ne | Bop_Lt | Bop_Le | Bop_Gt | Bop_Ge | Bop_Min | Bop_Max
  | Bop_BitAnd | Bop_BitOr | Bop_BitXor | Bop_Shl | Bop_Shr

definition get_binary_op_from_op_str :: "string \<Rightarrow> string + TileBinaryOp" where
  "get_binary_op_from_op_str s =
     (if s = ''add'' then Inr Bop_Add
      else if s = ''sub'' then Inr Bop_Sub
      else if s = ''mul'' then Inr Bop_Mul
      else if s = ''div'' then Inr Bop_Div
      else if s = ''ceil_div'' then Inr Bop_CeilDiv
      else if s = ''true_div'' then Inr Bop_TrueDiv
      else if s = ''rem'' then Inr Bop_Rem
      else if s = ''eq'' then Inr Bop_Eq
      else if s = ''ne'' then Inr Bop_Ne
      else if s = ''lt'' then Inr Bop_Lt
      else if s = ''le'' then Inr Bop_Le
      else if s = ''gt'' then Inr Bop_Gt
      else if s = ''ge'' then Inr Bop_Ge
      else if s = ''min'' \<or> s = ''min_tile'' then Inr Bop_Min
      else if s = ''max'' \<or> s = ''max_tile'' then Inr Bop_Max
      else if s = ''and'' then Inr Bop_BitAnd
      else if s = ''or'' then Inr Bop_BitOr
      else if s = ''xor'' then Inr Bop_BitXor
      else if s = ''shl'' then Inr Bop_Shl
      else if s = ''shr'' then Inr Bop_Shr
      else Inl (''unrecognized arithmetic operation `'' @ s @ ''`''))"

definition div_ceil_i64 :: "int \<Rightarrow> int \<Rightarrow> int may_panic" where
  "div_ceil_i64 lhs rhs =
     and_then (saturating_div lhs rhs) (\<lambda>quotient.
       let remainder = (case checked_rem lhs rhs of Some r \<Rightarrow> r | None \<Rightarrow> 0)
       in if remainder = 0 then Inr quotient
          else if (0 < lhs) = (0 < rhs) then Inr (saturating_add quotient 1)
          else Inr quotient)"

section \<open>Intervals\<close>

record Bounds =
  b_start :: int
  b_end :: int

definition bounds_new :: "int \<Rightarrow> int \<Rightarrow> Bounds" where
  "bounds_new s e = \<lparr>b_start = s, b_end = e\<rparr>"

definition bounds_exact :: "int \<Rightarrow> Bounds" where
  "bounds_exact v = \<lparr>b_start = v, b_end = v\<rparr>"

definition is_exact :: "Bounds \<Rightarrow> bool" where
  "is_exact b \<longleftrightarrow> b_end b = b_start b"

text \<open>The least and the greatest of the values at the four corners.\<close>

definition hull :: "int list \<Rightarrow> Bounds" where
  "hull vs = bounds_new (Min (set vs)) (Max (set vs))"

definition corners :: "(int \<Rightarrow> int \<Rightarrow> 'a) \<Rightarrow> Bounds \<Rightarrow> Bounds \<Rightarrow> 'a list" where
  "corners f a b = [f (b_start a) (b_start b), f (b_start a) (b_end b), f (b_end a) (b_start b), f (b_end a) (b_end b)]"

text \<open>The corners of an operation that can panic, in the order the code evaluates them.\<close>

fun collect :: "'a may_panic list \<Rightarrow> 'a list may_panic" where
  "collect [] = Inr []"
| "collect (x # xs) = and_then x (\<lambda>v. and_then (collect xs) (\<lambda>vs. Inr (v # vs)))"

definition bounds_add :: "Bounds \<Rightarrow> Bounds \<Rightarrow> Bounds" where
  "bounds_add a b = hull (corners saturating_add a b)"

definition bounds_sub :: "Bounds \<Rightarrow> Bounds \<Rightarrow> Bounds" where
  "bounds_sub a b = hull (corners saturating_sub a b)"

definition bounds_mul :: "Bounds \<Rightarrow> Bounds \<Rightarrow> Bounds" where
  "bounds_mul a b = hull (corners saturating_mul a b)"

definition bounds_div :: "Bounds \<Rightarrow> Bounds \<Rightarrow> Bounds may_panic" where
  "bounds_div a b =
     (if b_start b = 0 \<or> b_end b = 0 then Inl Panic
      else and_then (collect (corners saturating_div a b)) (\<lambda>vs. Inr (hull vs)))"

definition bounds_rem :: "Bounds \<Rightarrow> Bounds \<Rightarrow> Bounds" where
  "bounds_rem a b =
     (if is_exact a \<and> is_exact b
      then bounds_exact (case checked_rem (b_start a) (b_start b) of Some r \<Rightarrow> r | None \<Rightarrow> 0)
      else
        let m = as_i64 (max \<bar>b_start b\<bar> \<bar>b_end b\<bar> - 1);
            start = (if 0 \<le> b_start a then 0 else max (b_start a) (- m));
            fin = (if b_end a \<le> 0 then 0 else min (b_end a) m)
        in bounds_new start fin)"

definition bop_bounds :: "Bounds \<Rightarrow> Bounds \<Rightarrow> (int \<Rightarrow> int \<Rightarrow> int may_panic) \<Rightarrow> Bounds may_panic" where
  "bop_bounds a b f =
     (if is_exact a \<and> is_exact b then and_then (f (b_start a) (b_start b)) (\<lambda>v. Inr (bounds_exact v))
      else and_then (collect (corners f a b)) (\<lambda>vs. Inr (hull vs)))"

text \<open>\<open>ones_over\<close> and \<open>signed_bits\<close>, local closures of \<open>bitwise_bounds\<close>.\<close>

definition ones_over :: "int \<Rightarrow> int" where
  "ones_over v = (let n = 64 - leading_zeros v in
     if n = 0 then 0 else if 63 \<le> n then I64_MAX else 2 ^ n - 1)"

definition signed_bits :: "int \<Rightarrow> nat" where
  "signed_bits v = (if 0 \<le> v then 65 - leading_zeros v else 65 - leading_ones v)"

definition bitwise :: "TileBinaryOp \<Rightarrow> int \<Rightarrow> int \<Rightarrow> int may_panic" where
  "bitwise bop a b =
     (case bop of
        Bop_BitAnd \<Rightarrow> Inr (a AND b)
      | Bop_BitOr \<Rightarrow> Inr (a OR b)
      | Bop_BitXor \<Rightarrow> Inr (a XOR b)
      | _ \<Rightarrow> Inl Panic)"

definition bitwise_bounds :: "TileBinaryOp \<Rightarrow> Bounds \<Rightarrow> Bounds \<Rightarrow> Bounds may_panic" where
  "bitwise_bounds bop a b =
     (if is_exact a \<and> is_exact b then and_then (bitwise bop (b_start a) (b_start b)) (\<lambda>v. Inr (bounds_exact v))
      else if 0 \<le> b_start a \<and> 0 \<le> b_start b then
        (case bop of
           Bop_BitAnd \<Rightarrow> Inr (bounds_new 0 (min (b_end a) (b_end b)))
         | Bop_BitOr \<Rightarrow> Inr (bounds_new (max (b_start a) (b_start b)) (ones_over (b_end a OR b_end b)))
         | Bop_BitXor \<Rightarrow> Inr (bounds_new 0 (ones_over (b_end a OR b_end b)))
         | _ \<Rightarrow> Inl Panic)
      else
        let k = Max (set (map signed_bits [b_start a, b_end a, b_start b, b_end b]))
        in Inr (if 64 \<le> k then bounds_new I64_MIN I64_MAX
                else bounds_new (- (2 ^ (k - 1))) (2 ^ (k - 1) - 1)))"

definition truth :: "bool \<Rightarrow> int" where
  "truth p = (if p then 1 else 0)"

text \<open>The overlap analysis of the equality tests.\<close>

definition equal_bounds :: "(int \<Rightarrow> int \<Rightarrow> bool) \<Rightarrow> int \<Rightarrow> Bounds \<Rightarrow> Bounds \<Rightarrow> Bounds" where
  "equal_bounds p disjoint a b =
     (if is_exact a \<and> is_exact b then bounds_exact (truth (p (b_start a) (b_start b)))
      else if b_end a < b_start b \<or> b_end b < b_start a then bounds_exact disjoint
      else bounds_new 0 1)"

definition bounds_from_bop :: "TileBinaryOp \<Rightarrow> Bounds \<Rightarrow> Bounds \<Rightarrow> Bounds option may_panic" where
  "bounds_from_bop bop a b =
     (if bop = Bop_Shl \<or> bop = Bop_Shr then Inr None
      else if bop \<in> {Bop_CeilDiv, Bop_Div, Bop_TrueDiv, Bop_Rem} then
        (if b_start b \<le> 0 \<and> 0 \<le> b_end b then Inr None
         else and_then
           (case bop of
              Bop_Div \<Rightarrow> bounds_div a b
            | Bop_TrueDiv \<Rightarrow> bounds_div a b
            | Bop_CeilDiv \<Rightarrow> bop_bounds a b div_ceil_i64
            | Bop_Rem \<Rightarrow> Inr (bounds_rem a b)
            | _ \<Rightarrow> Inl Panic) (\<lambda>c. Inr (Some c)))
      else and_then
        (case bop of
           Bop_Add \<Rightarrow> Inr (bounds_add a b)
         | Bop_Sub \<Rightarrow> Inr (bounds_sub a b)
         | Bop_Mul \<Rightarrow> Inr (bounds_mul a b)
         | Bop_Eq \<Rightarrow> Inr (equal_bounds (=) 0 a b)
         | Bop_Ne \<Rightarrow> Inr (equal_bounds (\<noteq>) 1 a b)
         | Bop_Lt \<Rightarrow> bop_bounds a b (\<lambda>a b. Inr (truth (a < b)))
         | Bop_Le \<Rightarrow> bop_bounds a b (\<lambda>a b. Inr (truth (a \<le> b)))
         | Bop_Gt \<Rightarrow> bop_bounds a b (\<lambda>a b. Inr (truth (b < a)))
         | Bop_Ge \<Rightarrow> bop_bounds a b (\<lambda>a b. Inr (truth (b \<le> a)))
         | Bop_Min \<Rightarrow> bop_bounds a b (\<lambda>a b. Inr (min a b))
         | Bop_Max \<Rightarrow> bop_bounds a b (\<lambda>a b. Inr (max a b))
         | Bop_BitAnd \<Rightarrow> bitwise_bounds bop a b
         | Bop_BitOr \<Rightarrow> bitwise_bounds bop a b
         | Bop_BitXor \<Rightarrow> bitwise_bounds bop a b
         | _ \<Rightarrow> Inl Panic) (\<lambda>c. Inr (Some c)))"

section \<open>Specification\<close>

text \<open>The integers of an interval, and the exact value of an operation.\<close>

definition inside :: "int \<Rightarrow> Bounds \<Rightarrow> bool" where
  "inside x b \<longleftrightarrow> b_start b \<le> x \<and> x \<le> b_end b"

definition wf_bounds :: "Bounds \<Rightarrow> bool" where
  "wf_bounds b \<longleftrightarrow> in_i64 (b_start b) \<and> in_i64 (b_end b) \<and> b_start b \<le> b_end b"

definition ceiling_div :: "int \<Rightarrow> int \<Rightarrow> int" where
  "ceiling_div x y = - ((- x) div y)"

definition exact_value :: "TileBinaryOp \<Rightarrow> int \<Rightarrow> int \<Rightarrow> int option" where
  "exact_value bop x y =
     (case bop of
        Bop_Add \<Rightarrow> Some (x + y)
      | Bop_Sub \<Rightarrow> Some (x - y)
      | Bop_Mul \<Rightarrow> Some (x * y)
      | Bop_Div \<Rightarrow> (if y = 0 then None else Some (x sdiv y))
      | Bop_CeilDiv \<Rightarrow> (if y = 0 then None else Some (ceiling_div x y))
      | Bop_TrueDiv \<Rightarrow> (if y = 0 then None else Some (x sdiv y))
      | Bop_Rem \<Rightarrow> (if y = 0 then None else Some (x smod y))
      | Bop_Eq \<Rightarrow> Some (truth (x = y))
      | Bop_Ne \<Rightarrow> Some (truth (x \<noteq> y))
      | Bop_Lt \<Rightarrow> Some (truth (x < y))
      | Bop_Le \<Rightarrow> Some (truth (x \<le> y))
      | Bop_Gt \<Rightarrow> Some (truth (y < x))
      | Bop_Ge \<Rightarrow> Some (truth (y \<le> x))
      | Bop_Min \<Rightarrow> Some (min x y)
      | Bop_Max \<Rightarrow> Some (max x y)
      | Bop_BitAnd \<Rightarrow> Some (x AND y)
      | Bop_BitOr \<Rightarrow> Some (x OR y)
      | Bop_BitXor \<Rightarrow> Some (x XOR y)
      | Bop_Shl \<Rightarrow> None
      | Bop_Shr \<Rightarrow> None)"

end
