(* ===== verification/IntervalSound.thy ===== *)
theory IntervalSound
  imports Intervals
begin

text \<open>
  Soundness of interval arithmetic: the interval the compiler computes for an operation
  contains the value of the operation on any operands inside the operand intervals, with
  values outside the \<open>i64\<close> range clamped to it.
\<close>

section \<open>Saturation\<close>

lemma i64_limits [simp]: "I64_MIN \<le> 0" "0 \<le> I64_MAX" "I64_MIN < 0" "0 < I64_MAX" "I64_MIN \<le> I64_MAX" "I64_MIN \<le> 1" "1 \<le> I64_MAX"
  by (simp_all add: I64_MIN_def I64_MAX_def)

lemma sat_mono: "x \<le> y \<Longrightarrow> sat x \<le> sat y"
  by (auto simp: sat_def)

lemma sat_id [simp]: "in_i64 x \<Longrightarrow> sat x = x"
  by (simp add: sat_def in_i64_def)

lemma in_i64_sat [simp]: "in_i64 (sat x)"
  by (simp add: sat_def in_i64_def)

lemma in_i64_between: "in_i64 a \<Longrightarrow> in_i64 b \<Longrightarrow> a \<le> x \<Longrightarrow> x \<le> b \<Longrightarrow> in_i64 x"
  by (simp add: in_i64_def)

lemma in_i64_truth [simp]: "in_i64 (truth p)"
  by (simp add: truth_def in_i64_def)

section \<open>Corner sampling\<close>

text \<open>
  An operation that is monotone or antitone in the left argument for every right argument in
  \<open>S\<close>, and monotone or antitone on \<open>S\<close> in the right argument for every left one. The
  directions may differ from argument to argument.
\<close>

locale corner =
  fixes f :: "int \<Rightarrow> int \<Rightarrow> int" and S :: "int set"
  assumes left: "y \<in> S \<Longrightarrow> mono (\<lambda>x. f x y) \<or> antimono (\<lambda>x. f x y)"
    and right: "mono_on S (f x) \<or> antimono_on S (f x)"
begin

lemma left_between:
  assumes "y \<in> S" and "x0 \<le> x" and "x \<le> x1"
  shows "min (f x0 y) (f x1 y) \<le> f x y \<and> f x y \<le> max (f x0 y) (f x1 y)"
  using left [OF assms(1)]
proof
  assume "mono (\<lambda>x. f x y)"
  with assms show ?thesis using monoD [of "\<lambda>x. f x y" x0 x] monoD [of "\<lambda>x. f x y" x x1] by auto
next
  assume "antimono (\<lambda>x. f x y)"
  with assms show ?thesis using antimonoD [of "\<lambda>x. f x y" x0 x] antimonoD [of "\<lambda>x. f x y" x x1] by auto
qed

lemma right_between:
  assumes "y0 \<in> S" and "y \<in> S" and "y1 \<in> S" and "y0 \<le> y" and "y \<le> y1"
  shows "min (f x y0) (f x y1) \<le> f x y \<and> f x y \<le> max (f x y0) (f x y1)"
  using right [of x]
proof
  assume m: "mono_on S (f x)"
  show ?thesis using mono_onD [OF m assms(1,2,4)] mono_onD [OF m assms(2,3,5)] by auto
next
  assume m: "antimono_on S (f x)"
  have "f x y \<le> f x y0" using monotone_onD [OF m assms(1,2,4)] by simp
  moreover have "f x y1 \<le> f x y" using monotone_onD [OF m assms(2,3,5)] by simp
  ultimately show ?thesis by auto
qed

lemma hull_corners:
  assumes "{b_start b..b_end b} \<subseteq> S" and "inside x a" and "inside y b"
  shows "inside (f x y) (hull (corners f a b))"
proof -
  have S: "b_start b \<in> S" "y \<in> S" "b_end b \<in> S" using assms by (auto simp: inside_def)
  let ?c = "set (corners f a b)"
  have l: "min (f (b_start a) y) (f (b_end a) y) \<le> f x y" "f x y \<le> max (f (b_start a) y) (f (b_end a) y)"
    using left_between [OF S(2)] assms(2) by (auto simp: inside_def)
  have r: "Min ?c \<le> f u y \<and> f u y \<le> Max ?c" if "u = b_start a \<or> u = b_end a" for u
  proof -
    have c: "f u (b_start b) \<in> ?c" "f u (b_end b) \<in> ?c" using that by (auto simp: corners_def)
    have "min (f u (b_start b)) (f u (b_end b)) \<le> f u y \<and> f u y \<le> max (f u (b_start b)) (f u (b_end b))"
      using right_between [OF S] assms(3) by (auto simp: inside_def)
    moreover have "Min ?c \<le> min (f u (b_start b)) (f u (b_end b))" using c by simp
    moreover have "max (f u (b_start b)) (f u (b_end b)) \<le> Max ?c" using c by simp
    ultimately show ?thesis by linarith
  qed
  from l r [of "b_start a"] r [of "b_end a"] show ?thesis
    unfolding inside_def hull_def bounds_new_def by simp linarith
qed

end

lemma hull_wf:
  assumes "\<forall>v \<in> set vs. in_i64 v" and "vs \<noteq> []"
  shows "wf_bounds (hull vs)"
proof -
  have "Min (set vs) \<in> set vs" and "Max (set vs) \<in> set vs" using assms(2) by (simp_all del: Min_in Max_in add: Min_in Max_in)
  moreover have "Min (set vs) \<le> Max (set vs)" using assms(2) by (simp add: calculation)
  ultimately show ?thesis using assms(1) by (simp add: wf_bounds_def hull_def bounds_new_def)
qed

lemma collect_Inr: "collect (map Inr vs) = Inr vs"
  by (induction vs) simp_all

lemma collect_corners:
  assumes "\<And>x y. y \<noteq> 0 \<Longrightarrow> f x y = Inr (g x y)" and "b_start b \<noteq> 0" and "b_end b \<noteq> 0"
  shows "collect (corners f a b) = Inr (corners g a b)"
  using assms by (simp add: corners_def)

section \<open>The operations\<close>

interpretation add: corner saturating_add UNIV
proof
  show "mono (\<lambda>x. saturating_add x y) \<or> antimono (\<lambda>x. saturating_add x y)" for y
    by (rule disjI1, rule monoI) (simp add: saturating_add_def sat_mono)
  show "mono_on UNIV (saturating_add x) \<or> antimono_on UNIV (saturating_add x)" for x
    by (rule disjI1, rule monoI) (simp add: saturating_add_def sat_mono)
qed

interpretation sub: corner saturating_sub UNIV
proof
  show "mono (\<lambda>x. saturating_sub x y) \<or> antimono (\<lambda>x. saturating_sub x y)" for y
    by (rule disjI1, rule monoI) (simp add: saturating_sub_def sat_mono)
  show "mono_on UNIV (saturating_sub x) \<or> antimono_on UNIV (saturating_sub x)" for x
    by (rule disjI2, rule antimonoI) (simp add: saturating_sub_def sat_mono)
qed

lemma saturating_mul_direction: "mono (\<lambda>x. saturating_mul x y) \<or> antimono (\<lambda>x. saturating_mul x y)"
proof (cases "0 \<le> y")
  case True
  have "mono (\<lambda>x. saturating_mul x y)"
    by (rule monoI) (simp add: saturating_mul_def sat_mono mult_right_mono True)
  then show ?thesis ..
next
  case False
  have "antimono (\<lambda>x. saturating_mul x y)"
    using False by (intro antimonoI) (simp add: saturating_mul_def sat_mono mult_right_mono_neg)
  then show ?thesis ..
qed

interpretation mul: corner saturating_mul UNIV
proof
  show "mono (\<lambda>x. saturating_mul x y) \<or> antimono (\<lambda>x. saturating_mul x y)" for y
    by (rule saturating_mul_direction)
  have e: "(\<lambda>y. saturating_mul y x) = saturating_mul x" for x
    by (rule ext) (simp add: saturating_mul_def mult.commute)
  show "mono_on UNIV (saturating_mul x) \<or> antimono_on UNIV (saturating_mul x)" for x
    by (rule e [THEN subst]) (rule saturating_mul_direction)
qed

text \<open>Truncating division is floor division of the magnitudes, with the sign put back.\<close>

lemma sdiv_pos: "0 < y \<Longrightarrow> (x :: int) sdiv y = (if 0 \<le> x then x div y else - ((- x) div y))"
  by (simp add: signed_divide_int_def sgn_if)

lemma sdiv_mono_left:
  assumes "0 < y" and "x \<le> x'"
  shows "(x :: int) sdiv y \<le> x' sdiv y"
proof (cases "0 \<le> x \<or> x' < 0")
  case True
  then show ?thesis using assms by (auto simp: sdiv_pos zdiv_mono1)
next
  case False
  then have "x sdiv y \<le> 0" and "0 \<le> x' sdiv y"
    using assms by (simp_all add: sdiv_pos pos_imp_zdiv_nonneg_iff)
  then show ?thesis by simp
qed

lemma sdiv_right_pos: "0 < y \<Longrightarrow> y \<le> y' \<Longrightarrow> 0 \<le> x \<Longrightarrow> (x :: int) sdiv y' \<le> x sdiv y"
  by (simp add: sdiv_pos zdiv_mono2)

lemma sdiv_right_neg: "0 < y \<Longrightarrow> y \<le> y' \<Longrightarrow> x < 0 \<Longrightarrow> (x :: int) sdiv y \<le> x sdiv y'"
  by (simp add: sdiv_pos zdiv_mono2)

text \<open>
  Negating both arguments carries the positive divisors to the negative ones; saturating a
  corner operation gives a corner operation.
\<close>

lemma corner_negative:
  assumes "corner f {0<..}" and "\<And>x y. y < 0 \<Longrightarrow> f x y = f (- x) (- y)"
  shows "corner f {..<0}"
proof
  fix y :: int
  assume y: "y \<in> {..<0}"
  then have e: "f x y = f (- x) (- y)" for x using assms(2) [of y x] by simp
  from y have "- y \<in> {0<..}" by simp
  from corner.left [OF assms(1) this] show "mono (\<lambda>x. f x y) \<or> antimono (\<lambda>x. f x y)"
  proof
    assume m: "mono (\<lambda>x. f x (- y))"
    have "f s y \<le> f r y" if "r \<le> s" for r s using monoD [OF m, of "- s" "- r"] e [of r] e [of s] that by simp
    then have "antimono (\<lambda>x. f x y)" by (rule antimonoI)
    then show ?thesis ..
  next
    assume m: "antimono (\<lambda>x. f x (- y))"
    have "f r y \<le> f s y" if "r \<le> s" for r s using antimonoD [OF m, of "- s" "- r"] e [of r] e [of s] that by simp
    then have "mono (\<lambda>x. f x y)" by (rule monoI)
    then show ?thesis ..
  qed
next
  fix x :: int
  from corner.right [OF assms(1), of "- x"]
  show "mono_on {..<0} (f x) \<or> antimono_on {..<0} (f x)"
  proof
    assume m: "mono_on {0<..} (f (- x))"
    have "f x s \<le> f x r" if "r \<in> {..<0}" "s \<in> {..<0}" "r \<le> s" for r s
      using that assms(2) [of r x] assms(2) [of s x] mono_onD [OF m, of "- s" "- r"] by simp
    then have "antimono_on {..<0} (f x)" by (rule monotone_onI)
    then show ?thesis ..
  next
    assume m: "antimono_on {0<..} (f (- x))"
    have "f x r \<le> f x s" if "r \<in> {..<0}" "s \<in> {..<0}" "r \<le> s" for r s
      using that assms(2) [of r x] assms(2) [of s x] monotone_onD [OF m, of "- s" "- r"] by simp
    then have "mono_on {..<0} (f x)" by (rule mono_onI)
    then show ?thesis ..
  qed
qed

lemma monotone_on_sat:
  "mono_on A f \<Longrightarrow> mono_on A (\<lambda>x. sat (f x))" "antimono_on A f \<Longrightarrow> antimono_on A (\<lambda>x. sat (f x))"
  by (auto simp: monotone_on_def sat_mono)

lemma corner_sat:
  assumes "corner f S"
  shows "corner (\<lambda>x y. sat (f x y)) S"
proof
  fix y assume "y \<in> S"
  from corner.left [OF assms this] show "mono (\<lambda>x. sat (f x y)) \<or> antimono (\<lambda>x. sat (f x y))"
    by (elim disj_forward monotone_on_sat)
next
  fix x
  from corner.right [OF assms, of x] show "mono_on S (\<lambda>y. sat (f x y)) \<or> antimono_on S (\<lambda>y. sat (f x y))"
    by (elim disj_forward monotone_on_sat)
qed

lemma corner_sdiv: "corner (\<lambda>x y. x sdiv y) {0<..}"
proof
  fix y :: int assume "y \<in> {0<..}"
  then have "mono (\<lambda>x. x sdiv y)" by (intro monoI) (simp add: sdiv_mono_left)
  then show "mono (\<lambda>x. x sdiv y) \<or> antimono (\<lambda>x. x sdiv y)" ..
next
  fix x :: int
  show "mono_on {0<..} (\<lambda>y. x sdiv y) \<or> antimono_on {0<..} (\<lambda>y. x sdiv y)"
  proof (cases "0 \<le> x")
    case True
    then have "antimono_on {0<..} (\<lambda>y. x sdiv y)" by (intro monotone_onI) (simp add: sdiv_right_pos)
    then show ?thesis ..
  next
    case False
    then have "mono_on {0<..} (\<lambda>y. x sdiv y)" by (intro mono_onI) (simp add: sdiv_right_neg)
    then show ?thesis ..
  qed
qed

lemma corner_ceiling: "corner ceiling_div {0<..}"
proof
  fix y :: int assume "y \<in> {0<..}"
  then have "mono (\<lambda>x. ceiling_div x y)" by (intro monoI) (simp add: ceiling_div_def zdiv_mono1)
  then show "mono (\<lambda>x. ceiling_div x y) \<or> antimono (\<lambda>x. ceiling_div x y)" ..
next
  fix x :: int
  show "mono_on {0<..} (ceiling_div x) \<or> antimono_on {0<..} (ceiling_div x)"
  proof (cases "0 \<le> x")
    case True
    then have "(- x) div r \<le> (- x) div s" if "0 < r" "r \<le> s" for r s
      using zdiv_mono2_neg [of "- x" r s] that by (cases "x = 0") simp_all
    then have "antimono_on {0<..} (ceiling_div x)"
      by (intro monotone_onI) (simp add: ceiling_div_def)
    then show ?thesis ..
  next
    case False
    then have "mono_on {0<..} (ceiling_div x)"
      by (intro mono_onI) (simp add: ceiling_div_def zdiv_mono2)
    then show ?thesis ..
  qed
qed

interpretation div_pos: corner "\<lambda>x y. sat (x sdiv y)" "{0<..}"
  by (rule corner_sat [OF corner_sdiv])

interpretation div_neg: corner "\<lambda>x y. sat (x sdiv y)" "{..<0}"
  by (rule corner_sat [OF corner_negative [OF corner_sdiv]]) (simp add: sdiv_minus_eq minus_sdiv_eq)

interpretation ceil_pos: corner "\<lambda>x y. sat (ceiling_div x y)" "{0<..}"
  by (rule corner_sat [OF corner_ceiling])

interpretation ceil_neg: corner "\<lambda>x y. sat (ceiling_div x y)" "{..<0}"
  by (rule corner_sat [OF corner_negative [OF corner_ceiling]]) (simp add: ceiling_div_def div_minus_right)

lemma truth_mono: "(p \<Longrightarrow> q) \<Longrightarrow> truth p \<le> truth q"
  by (simp add: truth_def)

lemma corner_directions:
  fixes f :: "int \<Rightarrow> int \<Rightarrow> int"
  shows "(\<And>y. antimono (\<lambda>x. f x y)) \<Longrightarrow> (\<And>x. mono (f x)) \<Longrightarrow> corner f UNIV"
    and "(\<And>y. mono (\<lambda>x. f x y)) \<Longrightarrow> (\<And>x. antimono (f x)) \<Longrightarrow> corner f UNIV"
    and "(\<And>y. mono (\<lambda>x. f x y)) \<Longrightarrow> (\<And>x. mono (f x)) \<Longrightarrow> corner f UNIV"
  by (rule corner.intro; simp)+

interpretation lt: corner "\<lambda>x y. truth (x < y)" UNIV
  by (rule corner_directions(1)) (auto intro!: antimonoI monoI truth_mono)

interpretation le: corner "\<lambda>x y. truth (x \<le> y)" UNIV
  by (rule corner_directions(1)) (auto intro!: antimonoI monoI truth_mono)

interpretation gt: corner "\<lambda>x y. truth (y < x)" UNIV
  by (rule corner_directions(2)) (auto intro!: antimonoI monoI truth_mono)

interpretation ge: corner "\<lambda>x y. truth (y \<le> x)" UNIV
  by (rule corner_directions(2)) (auto intro!: antimonoI monoI truth_mono)

interpretation min: corner "\<lambda>x y. min x y" UNIV
  by (rule corner_directions(3)) (auto intro!: monoI)

interpretation max: corner "\<lambda>x y. max x y" UNIV
  by (rule corner_directions(3)) (auto intro!: monoI)

section \<open>Soundness per operation\<close>

text \<open>The result interval is well formed and contains the clamped value.\<close>

definition covers :: "Bounds \<Rightarrow> int \<Rightarrow> bool" where
  "covers c v \<longleftrightarrow> wf_bounds c \<and> inside (sat v) c"

lemma wf_inside: "wf_bounds a \<Longrightarrow> inside x a \<Longrightarrow> in_i64 x"
  by (auto simp: wf_bounds_def inside_def intro: in_i64_between)

lemma inside_exact: "is_exact a \<Longrightarrow> inside x a \<Longrightarrow> x = b_start a"
  by (auto simp: is_exact_def inside_def)

lemma covers_exact: "in_i64 v \<Longrightarrow> covers (bounds_exact v) v"
  by (simp add: covers_def wf_bounds_def bounds_exact_def inside_def)

lemma covers_new: "in_i64 s \<Longrightarrow> in_i64 e \<Longrightarrow> s \<le> v \<Longrightarrow> v \<le> e \<Longrightarrow> covers (bounds_new s e) v"
  using in_i64_between [of s e v] by (simp add: covers_def wf_bounds_def bounds_new_def inside_def)

lemma covers_hull:
  assumes "corner g S" and "{b_start b..b_end b} \<subseteq> S" and "inside x a" and "inside y b" and "g x y = sat v"
    and "\<forall>w \<in> set (corners g a b). in_i64 w"
  shows "covers (hull (corners g a b)) v"
  using corner.hull_corners [OF assms(1-4)] hull_wf [OF assms(6)] assms(5) by (simp add: covers_def corners_def)

lemma corners_in: "(\<And>x y. in_i64 (g x y)) \<Longrightarrow> \<forall>w \<in> set (corners g a b). in_i64 w"
  by (simp add: corners_def)

text \<open>An operation sampled at the corners, or evaluated when both operands are known.\<close>

lemma bop_bounds_covers:
  assumes "corner g S" and f: "\<And>x y. in_i64 x \<Longrightarrow> in_i64 y \<Longrightarrow> y \<in> S \<Longrightarrow> f x y = Inr (g x y)"
    and g: "\<And>x y. in_i64 x \<Longrightarrow> in_i64 y \<Longrightarrow> in_i64 (g x y)"
    and wf: "wf_bounds a" "wf_bounds b" and S: "{b_start b..b_end b} \<subseteq> S" and x: "inside x a" "inside y b" and v: "g x y = sat v"
  shows "\<exists>c. bop_bounds a b f = Inr c \<and> covers c v"
proof (cases "is_exact a \<and> is_exact b")
  case True
  then have e: "b_start a = x" "b_start b = y" using inside_exact x by auto
  have i: "in_i64 x" "in_i64 y" "y \<in> S" using wf x S by (auto intro: wf_inside simp: inside_def)
  have "covers (bounds_exact (g x y)) v"
    using covers_exact [of "g x y"] g [OF i(1,2)] v by (simp add: covers_def)
  with True i show ?thesis by (simp add: bop_bounds_def e f)
next
  case False
  have e: "in_i64 (b_start a)" "in_i64 (b_end a)" "in_i64 (b_start b)" "in_i64 (b_end b)" "b_start b \<in> S" "b_end b \<in> S"
    using wf S by (auto simp: wf_bounds_def)
  then have "bop_bounds a b f = Inr (hull (corners g a b))" using False by (auto simp: bop_bounds_def corners_def f)
  moreover have "covers (hull (corners g a b)) v"
    by (rule covers_hull [OF assms(1) S x v]) (use e g in \<open>simp add: corners_def\<close>)
  ultimately show ?thesis by blast
qed

lemma bounds_div_covers:
  assumes "wf_bounds a" "wf_bounds b" "inside x a" "inside y b" and "\<not> inside 0 b"
  shows "\<exists>c. bounds_div a b = Inr c \<and> covers c (x sdiv y)"
proof -
  have z: "b_start b \<noteq> 0" "b_end b \<noteq> 0" using assms by (auto simp: inside_def wf_bounds_def)
  have "{b_start b..b_end b} \<subseteq> {0<..} \<or> {b_start b..b_end b} \<subseteq> {..<0}" using assms(5) by (auto simp: inside_def)
  then have "covers (hull (corners (\<lambda>x y. sat (x sdiv y)) a b)) (x sdiv y)"
  proof
    assume S: "{b_start b..b_end b} \<subseteq> {0<..}"
    show ?thesis by (rule covers_hull [OF div_pos.corner_axioms S assms(3,4)]) (simp_all add: corners_def)
  next
    assume S: "{b_start b..b_end b} \<subseteq> {..<0}"
    show ?thesis by (rule covers_hull [OF div_neg.corner_axioms S assms(3,4)]) (simp_all add: corners_def)
  qed
  moreover have "collect (corners saturating_div a b) = Inr (corners (\<lambda>x y. sat (x sdiv y)) a b)"
    by (rule collect_corners [OF _ z]) (simp add: saturating_div_def)
  ultimately show ?thesis using z by (simp add: bounds_div_def)
qed

lemma rem_or_zero: "(case checked_rem x y of Some r \<Rightarrow> r | None \<Rightarrow> 0) = (if y = 0 then 0 else x smod y)"
  by (auto simp: checked_rem_def signed_modulo_int_def)

lemma div_ceil_exact:
  assumes "in_i64 x" and "y \<noteq> 0"
  shows "div_ceil_i64 x y = Inr (sat (ceiling_div x y))"
proof -
  have c: "ceiling_div x y = x sdiv y + of_bool (sgn (- x) \<noteq> sgn y \<and> \<not> y dvd x)"
    using divide_int_eq_signed_divide_int [of "- x" y] assms(2) by (simp add: ceiling_div_def minus_sdiv_eq)
  have d: "x smod y = 0 \<longleftrightarrow> y dvd x"
    by (simp add: signed_modulo_int_def sgn_eq_0_iff dvd_eq_mod_eq_0 [symmetric]) auto
  show ?thesis
  proof (cases "y dvd x")
    case True
    then show ?thesis using assms(2) c d by (simp add: div_ceil_i64_def saturating_div_def rem_or_zero)
  next
    case False
    then have x0: "x \<noteq> 0" by auto
    have "x sdiv y \<noteq> - x" using int_sdiv_negated_is_minus1 [OF x0, of y] False by auto
    moreover have "x sdiv y \<in> {- \<bar>x\<bar>..\<bar>x\<bar>}" by (rule sdiv_int_range)
    ultimately have q: "in_i64 (x sdiv y)" using assms(1) by (auto simp: in_i64_def I64_MIN_def I64_MAX_def)
    have s: "sgn (- x) \<noteq> sgn y \<longleftrightarrow> (0 < x) = (0 < y)" using x0 assms(2) by (auto simp: sgn_if)
    show ?thesis using False assms(2) c d q s
      by (simp add: div_ceil_i64_def saturating_div_def rem_or_zero saturating_add_def)
  qed
qed

lemma ceil_covers:
  assumes "wf_bounds a" "wf_bounds b" "inside x a" "inside y b" and "\<not> inside 0 b"
  shows "\<exists>c. bop_bounds a b div_ceil_i64 = Inr c \<and> covers c (ceiling_div x y)"
proof -
  have "{b_start b..b_end b} \<subseteq> {0<..} \<or> {b_start b..b_end b} \<subseteq> {..<0}" using assms(5) by (auto simp: inside_def)
  then show ?thesis
  proof
    assume S: "{b_start b..b_end b} \<subseteq> {0<..}"
    show ?thesis by (rule bop_bounds_covers [OF ceil_pos.corner_axioms _ _ assms(1,2) S assms(3,4)]) (auto simp: div_ceil_exact)
  next
    assume S: "{b_start b..b_end b} \<subseteq> {..<0}"
    show ?thesis by (rule bop_bounds_covers [OF ceil_neg.corner_axioms _ _ assms(1,2) S assms(3,4)]) (auto simp: div_ceil_exact)
  qed
qed

text \<open>
  The residue is smaller in magnitude than the divisor and than the dividend, and has the
  sign of the dividend.
\<close>

lemma smod_facts:
  fixes x y :: int
  assumes "y \<noteq> 0"
  shows "0 \<le> x \<Longrightarrow> 0 \<le> x smod y" "0 \<le> x \<Longrightarrow> x smod y \<le> x" "x smod y \<le> \<bar>y\<bar> - 1"
    "x \<le> 0 \<Longrightarrow> x smod y \<le> 0" "x \<le> 0 \<Longrightarrow> x \<le> x smod y" "- (\<bar>y\<bar> - 1) \<le> x smod y"
proof -
  define k where "k = \<bar>x\<bar> mod \<bar>y\<bar>"
  have m: "0 \<le> k" "k < \<bar>y\<bar>" "k \<le> \<bar>x\<bar>"
    using assms by (simp_all add: k_def zmod_le_nonneg_dividend)
  have e: "x smod y = (if 0 \<le> x then k else - k)"
    by (simp add: signed_modulo_int_def sgn_if k_def)
  show "0 \<le> x \<Longrightarrow> 0 \<le> x smod y" "0 \<le> x \<Longrightarrow> x smod y \<le> x" "x smod y \<le> \<bar>y\<bar> - 1"
    "x \<le> 0 \<Longrightarrow> x smod y \<le> 0" "x \<le> 0 \<Longrightarrow> x \<le> x smod y" "- (\<bar>y\<bar> - 1) \<le> x smod y"
    unfolding e using m by (auto split: if_splits)
qed

lemma as_i64_id: "0 \<le> x \<Longrightarrow> x \<le> I64_MAX \<Longrightarrow> as_i64 x = x"
  by (simp add: as_i64_def I64_MAX_def Let_def)

lemma rem_covers:
  assumes "wf_bounds a" "wf_bounds b" "inside x a" "inside y b" and "\<not> inside 0 b"
  shows "covers (bounds_rem a b) (x smod y)"
proof -
  have y: "y \<noteq> 0" using assms(4,5) by auto
  note f = smod_facts [OF y, of x]
  have i: "in_i64 x" "in_i64 y" using assms by (auto intro: wf_inside)
  have "in_i64 (x smod y)" using i f by (cases "0 \<le> x") (auto simp: in_i64_def I64_MIN_def I64_MAX_def)
  show ?thesis
  proof (cases "is_exact a \<and> is_exact b")
    case True
    then have "b_start a = x" "b_start b = y" using assms inside_exact by auto
    then show ?thesis using True y \<open>in_i64 (x smod y)\<close> by (simp add: bounds_rem_def rem_or_zero covers_exact)
  next
    case False
    define m where "m = max \<bar>b_start b\<bar> \<bar>b_end b\<bar> - 1"
    have m: "0 \<le> m" "m \<le> I64_MAX" using assms(2,5)
      by (auto simp: m_def wf_bounds_def in_i64_def I64_MIN_def I64_MAX_def inside_def)
    have "\<bar>y\<bar> - 1 \<le> m" using assms(4) by (auto simp: m_def inside_def)
    then have r: "x smod y \<le> m" "- m \<le> x smod y" using f(3,6) by linarith+
    let ?s = "if 0 \<le> b_start a then 0 else max (b_start a) (- m)" and ?e = "if b_end a \<le> 0 then 0 else min (b_end a) m"
    have x: "b_start a \<le> x" "x \<le> b_end a" using assms(3) by (auto simp: inside_def)
    have "?s \<le> x smod y" using f r x by (cases "0 \<le> x") auto
    moreover have "x smod y \<le> ?e" using f r x by (cases "0 \<le> x") auto
    moreover have "in_i64 ?s" "in_i64 ?e"
      using m assms(1) by (auto simp: wf_bounds_def in_i64_def I64_MIN_def I64_MAX_def)
    ultimately have "covers (bounds_new ?s ?e) (x smod y)" by (intro covers_new)
    with False show ?thesis by (auto simp: bounds_rem_def m_def [symmetric] as_i64_id [OF m] Let_def)
  qed
qed

lemma truth_range: "0 \<le> truth p" "truth p \<le> 1"
  by (simp_all add: truth_def)

lemma covers_truth: "covers (bounds_new 0 1) (truth p)"
  by (rule covers_new) (simp_all add: truth_range in_i64_def)

lemma equal_covers:
  assumes "inside x a" "inside y b" and disjoint: "\<And>x y. x \<noteq> y \<Longrightarrow> truth (p x y) = d"
  shows "covers (equal_bounds p d a b) (truth (p x y))"
proof (cases "is_exact a \<and> is_exact b")
  case True
  then have "b_start a = x" "b_start b = y" using assms inside_exact by auto
  with True show ?thesis by (simp add: equal_bounds_def covers_exact)
next
  case False
  show ?thesis
  proof (cases "b_end a < b_start b \<or> b_end b < b_start a")
    case True
    then have "x \<noteq> y" using assms by (auto simp: inside_def)
    from disjoint [OF this] covers_exact [of "truth (p x y)"] False True show ?thesis
      by (auto simp: equal_bounds_def)
  next
    case apart: False
    with False show ?thesis by (auto simp: equal_bounds_def covers_truth)
  qed
qed

section \<open>Bitwise operations\<close>

text \<open>Leading zeros and ones bound a value.\<close>

lemma leading_holds: "n - leading P n \<le> i \<Longrightarrow> i < n \<Longrightarrow> P i"
  by (induction n) (auto split: if_splits simp: less_Suc_eq)

lemma leading_le: "leading P n \<le> n"
  by (induction n) auto

lemma leading_top: "P 63 \<Longrightarrow> 0 < leading P 64"
  using leading.simps(2) [of P 63] by simp

lemma bit_above: "in_i64 v \<Longrightarrow> 63 \<le> i \<Longrightarrow> bit v i \<longleftrightarrow> v < 0"
proof -
  assume v: "in_i64 v" and i: "63 \<le> i"
  have "signed_take_bit 63 v = v" using v by (simp add: signed_take_bit_int_eq_self_iff in_i64_def I64_MIN_def I64_MAX_def)
  then have "bit v i = bit (signed_take_bit 63 v) i" by simp
  also have "\<dots> = bit v 63" using i by (simp add: bit_signed_take_bit_iff min_def)
  also have "\<dots> = (signed_take_bit 63 v < 0)" by (simp add: signed_take_bit_negative_iff)
  finally show ?thesis using \<open>signed_take_bit 63 v = v\<close> by simp
qed

text \<open>A value whose bits agree from position \<open>n\<close> on lies within \<open>n\<close> bits and a sign.\<close>

lemma uniform_bound:
  fixes v :: int
  assumes "\<And>i. n \<le> i \<Longrightarrow> bit v i = s"
  shows "- (2 ^ n) \<le> v \<and> v < 2 ^ n"
proof -
  have "signed_take_bit n v = v"
    by (rule bit_eqI) (use assms in \<open>auto simp: bit_signed_take_bit_iff min_def\<close>)
  then show ?thesis by (simp add: signed_take_bit_int_eq_self_iff)
qed

lemma zeros_bound:
  assumes "in_i64 v" and "0 \<le> v"
  shows "v < 2 ^ (64 - leading_zeros v)"
proof -
  have "bit v i = False" if "64 - leading_zeros v \<le> i" for i
    using leading_holds [of 64 "\<lambda>i. \<not> bit v i" i] bit_above [OF assms(1), of i] that assms(2)
    by (cases "i < 64") (auto simp: leading_zeros_def)
  from uniform_bound [OF this] show ?thesis by simp
qed

lemma ones_bound:
  assumes "in_i64 v" and "v < 0"
  shows "- (2 ^ (64 - leading_ones v)) \<le> v"
proof -
  have "bit v i = True" if "64 - leading_ones v \<le> i" for i
    using leading_holds [of 64 "bit v" i] bit_above [OF assms(1), of i] that assms(2)
    by (cases "i < 64") (auto simp: leading_ones_def)
  from uniform_bound [OF this] show ?thesis by simp
qed

lemma signed_bits_bound:
  assumes "in_i64 v"
  shows "- (2 ^ (signed_bits v - 1)) \<le> v \<and> v < 2 ^ (signed_bits v - 1)"
proof (cases "0 \<le> v")
  case True
  have "- (2 ^ (64 - leading_zeros v)) \<le> (0 :: int)" by simp
  with True show ?thesis using zeros_bound [OF assms True] by (simp add: signed_bits_def) 
next
  case False
  have "(0 :: int) < 2 ^ (64 - leading_ones v)" by simp
  with False show ?thesis using ones_bound [OF assms] by (simp add: signed_bits_def)
qed

text \<open>Bitwise operations keep the envelope of their operands.\<close>

lemma signed_envelope:
  fixes x y :: int
  assumes "- (2 ^ n) \<le> x \<and> x < 2 ^ n" and "- (2 ^ n) \<le> y \<and> y < 2 ^ n"
  shows "- (2 ^ n) \<le> x AND y \<and> x AND y < 2 ^ n" "- (2 ^ n) \<le> x OR y \<and> x OR y < 2 ^ n"
    "- (2 ^ n) \<le> x XOR y \<and> x XOR y < 2 ^ n"
proof -
  define p q where "p = bit x n" and "q = bit y n"
  have e: "bit x i = p" "bit y i = q" if "n \<le> i" for i
  proof -
    have "signed_take_bit n x = x" "signed_take_bit n y = y"
      using assms by (simp_all add: signed_take_bit_int_eq_self_iff)
    then have "bit x i = bit (signed_take_bit n x) i" "bit y i = bit (signed_take_bit n y) i" by simp_all
    then show "bit x i = p" "bit y i = q" using that by (simp_all add: bit_signed_take_bit_iff min_def p_def q_def)
  qed
  show "- (2 ^ n) \<le> x AND y \<and> x AND y < 2 ^ n"
    by (rule uniform_bound [of _ _ "p \<and> q"]) (simp add: bit_and_iff e)
  show "- (2 ^ n) \<le> x OR y \<and> x OR y < 2 ^ n"
    by (rule uniform_bound [of _ _ "p \<or> q"]) (simp add: bit_or_iff e)
  show "- (2 ^ n) \<le> x XOR y \<and> x XOR y < 2 ^ n"
    by (rule uniform_bound [of _ _ "p \<noteq> q"]) (simp add: bit_xor_iff e)
qed

lemma or_lower:
  fixes x y :: int
  assumes "0 \<le> x" and "0 \<le> y"
  shows "x \<le> x OR y" "y \<le> x OR y"
  using plus_and_or [of x y] AND_upper1 [OF assms(1), of y] AND_upper2 [OF assms(2), of x] by linarith+

lemma ones_over_bound:
  assumes "in_i64 v" and "0 \<le> v"
  shows "\<exists>n \<le> 63. v < 2 ^ n \<and> ones_over v = 2 ^ n - 1"
proof -
  let ?n = "64 - leading_zeros v"
  have "0 < leading_zeros v"
    unfolding leading_zeros_def by (rule leading_top) (use bit_above [OF assms(1), of 63] assms(2) in simp)
  then have n: "?n \<le> 63" by simp
  show ?thesis using zeros_bound [OF assms] n
    by (intro exI [of _ ?n]) (auto simp: ones_over_def Let_def I64_MAX_def)
qed

lemma bitwise_cases:
  assumes "bitwise bop x y = Inr v"
  obtains "bop = Bop_BitAnd" "v = x AND y" | "bop = Bop_BitOr" "v = x OR y" | "bop = Bop_BitXor" "v = x XOR y"
  using assms by (auto simp: bitwise_def split: TileBinaryOp.splits)

lemma in_i64_bits: "in_i64 x \<longleftrightarrow> - (2 ^ 63) \<le> x \<and> x < 2 ^ 63"
  by (auto simp: in_i64_def I64_MIN_def I64_MAX_def)

lemma bitwise_envelope:
  assumes "bitwise bop x y = Inr v" and "- (2 ^ n) \<le> x \<and> x < 2 ^ n" and "- (2 ^ n) \<le> y \<and> y < 2 ^ n"
  shows "- (2 ^ n) \<le> v \<and> v < 2 ^ n"
  using assms(1) by (rule bitwise_cases) (use signed_envelope [OF assms(2,3)] in simp_all)

lemma in_i64_bitwise: "bitwise bop x y = Inr v \<Longrightarrow> in_i64 x \<Longrightarrow> in_i64 y \<Longrightarrow> in_i64 v"
  unfolding in_i64_bits by (rule bitwise_envelope)

lemma nonnegative_covers:
  assumes v: "bitwise bop x y = Inr v" and wf: "wf_bounds a" "wf_bounds b" and x: "inside x a" "inside y b"
    and n: "0 \<le> b_start a" "0 \<le> b_start b" and e: "\<not> (is_exact a \<and> is_exact b)"
  shows "\<exists>c. bitwise_bounds bop a b = Inr c \<and> covers c v"
proof -
  have i: "0 \<le> x" "x \<le> b_end a" "0 \<le> y" "y \<le> b_end b" "b_start a \<le> x" "b_start b \<le> y"
    using x n by (auto simp: inside_def)
  have w: "in_i64 (b_end a)" "in_i64 (b_end b)" "in_i64 (b_start a)" "in_i64 (b_start b)" using wf by (auto simp: wf_bounds_def)
  let ?o = "b_end a OR b_end b"
  have o: "b_end a \<le> ?o" "b_end b \<le> ?o" using i or_lower [of "b_end a" "b_end b"] by auto
  have "in_i64 ?o" using w(1,2) unfolding in_i64_bits by (rule signed_envelope(2))
  moreover have "0 \<le> ?o" using o i by linarith
  ultimately obtain k where k: "k \<le> 63" "?o < 2 ^ k" "ones_over ?o = 2 ^ k - 1" using ones_over_bound by blast
  have b: "x < 2 ^ k" "y < 2 ^ k" using i o k(2) by linarith+
  have "(2 :: int) ^ k \<le> 2 ^ 63" using k(1) by (intro power_increasing) simp_all
  moreover have "(0 :: int) < 2 ^ k" by simp
  ultimately have m: "in_i64 (2 ^ k - 1)" unfolding in_i64_bits by linarith
  from v show ?thesis
  proof (rule bitwise_cases)
    assume b1: "bop = Bop_BitAnd" "v = x AND y"
    have "covers (bounds_new 0 (min (b_end a) (b_end b))) v" unfolding b1(2)
      using i w AND_upper1 [of x y] AND_upper2 [of y x] by (intro covers_new) (auto simp: min_def in_i64_def AND_lower)
    then show ?thesis using n e b1 by (auto simp: bitwise_bounds_def)
  next
    assume b1: "bop = Bop_BitOr" "v = x OR y"
    have "covers (bounds_new (max (b_start a) (b_start b)) (2 ^ k - 1)) v" unfolding b1(2)
      using i w m or_lower [of x y] OR_upper [of x k y] b by (intro covers_new) (auto simp: max_def)
    then show ?thesis using n e b1 k by (auto simp: bitwise_bounds_def)
  next
    assume b1: "bop = Bop_BitXor" "v = x XOR y"
    have "covers (bounds_new 0 (2 ^ k - 1)) v" unfolding b1(2)
      using i w m XOR_upper [of x k y] b by (intro covers_new) (auto simp: in_i64_def XOR_lower)
    then show ?thesis using n e b1 k by (auto simp: bitwise_bounds_def)
  qed
qed

lemma bitwise_covers:
  assumes v: "bitwise bop x y = Inr v" and wf: "wf_bounds a" "wf_bounds b" and x: "inside x a" "inside y b"
  shows "\<exists>c. bitwise_bounds bop a b = Inr c \<and> covers c v"
proof (cases "is_exact a \<and> is_exact b")
  case True
  then have "b_start a = x" "b_start b = y" using x inside_exact by auto
  moreover have "in_i64 v" by (rule in_i64_bitwise [OF v]) (use wf x in \<open>auto intro: wf_inside\<close>)
  ultimately show ?thesis using True v by (simp add: bitwise_bounds_def covers_exact)
next
  case False
  show ?thesis
  proof (cases "0 \<le> b_start a \<and> 0 \<le> b_start b")
    case True
    then show ?thesis using nonnegative_covers [OF v wf x _ _ False] by simp
  next
    case neg: False
    let ?ks = "map signed_bits [b_start a, b_end a, b_start b, b_end b]"
    define k where "k = Max (set ?ks)"
    have wide: "- (2 ^ (k - 1)) \<le> u \<and> u < 2 ^ (k - 1)" if "u \<in> {b_start a, b_end a, b_start b, b_end b}" for u
    proof -
      have "signed_bits u \<le> k" using that by (auto simp: k_def)
      then have "(2 :: int) ^ (signed_bits u - 1) \<le> 2 ^ (k - 1)" by (intro power_increasing) simp_all
      moreover have "in_i64 u" using that wf by (auto simp: wf_bounds_def)
      ultimately show ?thesis using signed_bits_bound [of u] by linarith
    qed
    have "- (2 ^ (k - 1)) \<le> v \<and> v < 2 ^ (k - 1)"
      by (rule bitwise_envelope [OF v]) (use wide x in \<open>auto simp: inside_def intro: order_trans le_less_trans\<close>)
    moreover have "in_i64 v" by (rule in_i64_bitwise [OF v]) (use wf x in \<open>auto intro: wf_inside\<close>)
    moreover have "in_i64 (- (2 ^ (k - 1)))" "in_i64 (2 ^ (k - 1) - 1)" if "\<not> 64 \<le> k"
    proof -
      have "(2 :: int) ^ (k - 1) \<le> 2 ^ 63" using that by (intro power_increasing) simp_all
      moreover have "(0 :: int) < 2 ^ (k - 1)" by simp
      ultimately show "in_i64 (- (2 ^ (k - 1)))" "in_i64 (2 ^ (k - 1) - 1)" unfolding in_i64_bits by linarith+
    qed
    ultimately have "covers (if 64 \<le> k then bounds_new I64_MIN I64_MAX else bounds_new (- (2 ^ (k - 1))) (2 ^ (k - 1) - 1)) v"
      by (auto simp: in_i64_def intro!: covers_new)
    moreover have "bitwise_bounds bop a b =
        Inr (if 64 \<le> k then bounds_new I64_MIN I64_MAX else bounds_new (- (2 ^ (k - 1))) (2 ^ (k - 1) - 1))"
      using False neg unfolding bitwise_bounds_def Let_def k_def [symmetric] by (simp only: if_False)
    ultimately show ?thesis by blast
  qed
qed

section \<open>Soundness of the transfer function\<close>

text \<open>Each operation covers its exact value.\<close>

lemma arithmetic_covers:
  assumes "inside x a" "inside y b"
  shows "covers (bounds_add a b) (x + y)" "covers (bounds_sub a b) (x - y)" "covers (bounds_mul a b) (x * y)"
proof -
  show "covers (bounds_add a b) (x + y)"
    unfolding bounds_add_def by (rule covers_hull [OF add.corner_axioms subset_UNIV assms]) (simp_all add: saturating_add_def corners_def)
  show "covers (bounds_sub a b) (x - y)"
    unfolding bounds_sub_def by (rule covers_hull [OF sub.corner_axioms subset_UNIV assms]) (simp_all add: saturating_sub_def corners_def)
  show "covers (bounds_mul a b) (x * y)"
    unfolding bounds_mul_def by (rule covers_hull [OF mul.corner_axioms subset_UNIV assms]) (simp_all add: saturating_mul_def corners_def)
qed

lemma order_covers:
  assumes "wf_bounds a" "wf_bounds b" "inside x a" "inside y b"
  shows "\<exists>c. bop_bounds a b (\<lambda>x y. Inr (truth (x < y))) = Inr c \<and> covers c (truth (x < y))"
    "\<exists>c. bop_bounds a b (\<lambda>x y. Inr (truth (x \<le> y))) = Inr c \<and> covers c (truth (x \<le> y))"
    "\<exists>c. bop_bounds a b (\<lambda>x y. Inr (truth (y < x))) = Inr c \<and> covers c (truth (y < x))"
    "\<exists>c. bop_bounds a b (\<lambda>x y. Inr (truth (y \<le> x))) = Inr c \<and> covers c (truth (y \<le> x))"
    "\<exists>c. bop_bounds a b (\<lambda>x y. Inr (min x y)) = Inr c \<and> covers c (min x y)"
    "\<exists>c. bop_bounds a b (\<lambda>x y. Inr (max x y)) = Inr c \<and> covers c (max x y)"
proof -
  have i: "in_i64 x" "in_i64 y" using assms by (auto intro: wf_inside)
  note c = bop_bounds_covers [OF _ _ _ assms(1,2) subset_UNIV assms(3,4)]
  show "\<exists>c. bop_bounds a b (\<lambda>x y. Inr (truth (x < y))) = Inr c \<and> covers c (truth (x < y))"
    by (rule c [OF lt.corner_axioms]) simp_all
  show "\<exists>c. bop_bounds a b (\<lambda>x y. Inr (truth (x \<le> y))) = Inr c \<and> covers c (truth (x \<le> y))"
    by (rule c [OF le.corner_axioms]) simp_all
  show "\<exists>c. bop_bounds a b (\<lambda>x y. Inr (truth (y < x))) = Inr c \<and> covers c (truth (y < x))"
    by (rule c [OF gt.corner_axioms]) simp_all
  show "\<exists>c. bop_bounds a b (\<lambda>x y. Inr (truth (y \<le> x))) = Inr c \<and> covers c (truth (y \<le> x))"
    by (rule c [OF ge.corner_axioms]) simp_all
  show "\<exists>c. bop_bounds a b (\<lambda>x y. Inr (min x y)) = Inr c \<and> covers c (min x y)"
    by (rule c [OF min.corner_axioms]) (use i in \<open>auto simp: in_i64_def\<close>)
  show "\<exists>c. bop_bounds a b (\<lambda>x y. Inr (max x y)) = Inr c \<and> covers c (max x y)"
    by (rule c [OF max.corner_axioms]) (use i in \<open>auto simp: in_i64_def\<close>)
qed

text \<open>A divisor interval that holds zero, and a shift, have no result; nothing panics.\<close>

lemma bounds_from_bop_covers:
  assumes "wf_bounds a" "wf_bounds b" "inside x a" "inside y b" and "exact_value bop x y = Some v"
    and "bop \<in> {Bop_CeilDiv, Bop_Div, Bop_TrueDiv, Bop_Rem} \<Longrightarrow> \<not> inside 0 b"
  shows "\<exists>c. bounds_from_bop bop a b = Inr (Some c) \<and> covers c v"
proof -
  note ar = arithmetic_covers [OF assms(3,4)] and od = order_covers [OF assms(1-4)]
    and bw = bitwise_covers [OF _ assms(1-4)]
    and eq = equal_covers [OF assms(3,4), of "(=)" 0] equal_covers [OF assms(3,4), of "(\<noteq>)" 1]
  have dv: "\<exists>c. bounds_div a b = Inr c \<and> covers c (x sdiv y)" "\<exists>c. bop_bounds a b div_ceil_i64 = Inr c \<and> covers c (ceiling_div x y)"
    "covers (bounds_rem a b) (x smod y)" and z: "\<not> (b_start b \<le> 0 \<and> 0 \<le> b_end b)" if "\<not> inside 0 b"
    using bounds_div_covers [OF assms(1-4) that] ceil_covers [OF assms(1-4) that] rem_covers [OF assms(1-4) that] that
    by (simp_all add: inside_def)
  show ?thesis
  proof (cases bop)
    case Bop_Div
    with dv(1) z assms(5,6) show ?thesis by (auto simp: bounds_from_bop_def exact_value_def split: if_splits)
  next
    case Bop_TrueDiv
    with dv(1) z assms(5,6) show ?thesis by (auto simp: bounds_from_bop_def exact_value_def split: if_splits)
  next
    case Bop_CeilDiv
    with dv(2) z assms(5,6) show ?thesis by (auto simp: bounds_from_bop_def exact_value_def split: if_splits)
  next
    case Bop_Rem
    with dv(3) z assms(5,6) show ?thesis by (auto simp: bounds_from_bop_def exact_value_def split: if_splits)
  next
    case Bop_BitAnd
    with bw [of bop] assms(5) show ?thesis by (auto simp: bounds_from_bop_def exact_value_def bitwise_def)
  next
    case Bop_BitOr
    with bw [of bop] assms(5) show ?thesis by (auto simp: bounds_from_bop_def exact_value_def bitwise_def)
  next
    case Bop_BitXor
    with bw [of bop] assms(5) show ?thesis by (auto simp: bounds_from_bop_def exact_value_def bitwise_def)
  next
    case Bop_Eq
    with eq(1) assms(5) show ?thesis by (auto simp: bounds_from_bop_def exact_value_def truth_def)
  next
    case Bop_Ne
    with eq(2) assms(5) show ?thesis by (auto simp: bounds_from_bop_def exact_value_def truth_def)
  qed (use ar od assms(5) in \<open>auto simp: bounds_from_bop_def exact_value_def\<close>)
qed

text \<open>No interval exactly for the shifts and for a divisor interval that holds zero.\<close>

lemma bounds_from_bop_none:
  assumes "wf_bounds a" "wf_bounds b"
  shows "bounds_from_bop bop a b = Inr None \<longleftrightarrow>
    bop \<in> {Bop_Shl, Bop_Shr} \<or> bop \<in> {Bop_CeilDiv, Bop_Div, Bop_TrueDiv, Bop_Rem} \<and> inside 0 b"
proof -
  have "inside (b_start a) a" "inside (b_start b) b" using assms by (auto simp: inside_def wf_bounds_def)
  note c = bounds_from_bop_covers [OF assms this, of bop]
  show ?thesis
  proof (cases "bop \<in> {Bop_Shl, Bop_Shr} \<or> bop \<in> {Bop_CeilDiv, Bop_Div, Bop_TrueDiv, Bop_Rem} \<and> inside 0 b")
    case True
    then show ?thesis by (auto simp: bounds_from_bop_def inside_def)
  next
    case False
    have "\<exists>v. exact_value bop (b_start a) (b_start b) = Some v"
      using False \<open>inside (b_start b) b\<close> by (cases bop) (auto simp: exact_value_def)
    with c False show ?thesis by auto
  qed
qed

end
