(* ===== verification/Terms.thy ===== *)
theory Terms
  imports Intervals "HOL-Library.Product_Lexorder"
begin

text \<open>
  Linear terms and predicates (\<open>cuda-async/src/predicate.rs\<close>), the vocabulary the compiler
  and the launcher share. A term is a sorted map from atoms to coefficients and a constant;
  a construction that leaves the \<open>i64\<close> range yields no term.

  A \<open>BTreeMap\<close> is an association list in increasing order of its keys. A term denotes the
  integer \<open>term_val \<rho> t\<close> under a valuation \<open>\<rho>\<close> of the atoms.
\<close>

section \<open>Ordered maps\<close>

fun bt_insert :: "'k::linorder \<Rightarrow> 'v \<Rightarrow> ('k \<times> 'v) list \<Rightarrow> ('k \<times> 'v) list" where
  "bt_insert k v [] = [(k, v)]"
| "bt_insert k v ((k', v') # m) =
     (if k < k' then (k, v) # (k', v') # m
      else if k = k' then (k, v) # m
      else (k', v') # bt_insert k v m)"

definition bt_remove :: "'k \<Rightarrow> ('k \<times> 'v) list \<Rightarrow> ('k \<times> 'v) list" where
  "bt_remove k m = filter (\<lambda>e. fst e \<noteq> k) m"

definition bt_sorted :: "('k::linorder \<times> 'v) list \<Rightarrow> bool" where
  "bt_sorted m \<longleftrightarrow> sorted_wrt (<) (map fst m)"

section \<open>Stages and atoms\<close>

datatype Stage = Jit | Launch | Device

fun stage_rank :: "Stage \<Rightarrow> nat" where
  "stage_rank Jit = 0"
| "stage_rank Launch = 1"
| "stage_rank Device = 2"

lemma stage_rank_inject: "stage_rank a = stage_rank b \<Longrightarrow> a = b"
  by (cases a; cases b) simp_all

instantiation Stage :: linorder
begin

definition less_eq_Stage :: "Stage \<Rightarrow> Stage \<Rightarrow> bool" where
  "a \<le> b \<longleftrightarrow> stage_rank a \<le> stage_rank b"

definition less_Stage :: "Stage \<Rightarrow> Stage \<Rightarrow> bool" where
  "a < b \<longleftrightarrow> stage_rank a < stage_rank b"

instance
  by standard (auto simp: less_eq_Stage_def less_Stage_def stage_rank_inject)

end

datatype Atom =
    Dim nat nat
  | Iv u32
  | TileBlockId nat
  | NumTileBlocks nat
  | ViewExtent nat nat
  | TileCount nat nat int

text \<open>The derived order: variants in declaration order, then fields from left to right.\<close>

fun atom_key :: "Atom \<Rightarrow> nat \<times> nat \<times> nat \<times> int" where
  "atom_key (Dim p a) = (0, p, a, 0)"
| "atom_key (Iv v) = (1, unat v, 0, 0)"
| "atom_key (TileBlockId k) = (2, k, 0, 0)"
| "atom_key (NumTileBlocks k) = (3, k, 0, 0)"
| "atom_key (ViewExtent p a) = (4, p, a, 0)"
| "atom_key (TileCount p a t) = (5, p, a, t)"

lemma atom_key_inject: "atom_key a = atom_key b \<Longrightarrow> a = b"
  by (cases a; cases b) (auto simp: word_unat_eq_iff)

instantiation Atom :: linorder
begin

definition less_eq_Atom :: "Atom \<Rightarrow> Atom \<Rightarrow> bool" where
  "a \<le> b \<longleftrightarrow> atom_key a \<le> atom_key b"

definition less_Atom :: "Atom \<Rightarrow> Atom \<Rightarrow> bool" where
  "a < b \<longleftrightarrow> atom_key a < atom_key b"

instance
  by standard (auto simp: less_eq_Atom_def less_Atom_def atom_key_inject not_le)

end

fun atom_stage :: "Atom \<Rightarrow> Stage" where
  "atom_stage (Dim _ _) = Launch"
| "atom_stage (NumTileBlocks _) = Launch"
| "atom_stage (ViewExtent _ _) = Launch"
| "atom_stage (TileCount _ _ _) = Launch"
| "atom_stage (Iv _) = Device"
| "atom_stage (TileBlockId _) = Device"

section \<open>Terms\<close>

definition checked_add :: "int \<Rightarrow> int \<Rightarrow> int option" where
  "checked_add a b = (if in_i64 (a + b) then Some (a + b) else None)"

definition checked_mul :: "int \<Rightarrow> int \<Rightarrow> int option" where
  "checked_mul a b = (if in_i64 (a * b) then Some (a * b) else None)"

definition checked_neg :: "int \<Rightarrow> int option" where
  "checked_neg a = (if in_i64 (- a) then Some (- a) else None)"

record Term =
  coeffs :: "(Atom \<times> int) list"
  t_constant :: int

definition term_constant :: "int \<Rightarrow> Term" where
  "term_constant c = \<lparr>coeffs = [], t_constant = c\<rparr>"

definition term_atom :: "Atom \<Rightarrow> Term" where
  "term_atom a = \<lparr>coeffs = bt_insert a 1 [], t_constant = 0\<rparr>"

definition term_affine :: "Atom \<Rightarrow> int \<Rightarrow> int \<Rightarrow> Term" where
  "term_affine a scale offset =
     (if scale = 0 then term_constant offset
      else \<lparr>coeffs = bt_insert a scale [], t_constant = offset\<rparr>)"

definition as_constant :: "Term \<Rightarrow> int option" where
  "as_constant t = (if coeffs t = [] then Some (t_constant t) else None)"

definition term_stage :: "Term \<Rightarrow> Stage" where
  "term_stage t = foldr (\<lambda>e. max (atom_stage (fst e))) (coeffs t) Jit"

fun add_entries :: "(Atom \<times> int) list \<Rightarrow> (Atom \<times> int) list \<Rightarrow> (Atom \<times> int) list option" where
  "add_entries [] m = Some m"
| "add_entries ((a, c) # es) m =
     (let entry = (case map_of m a of Some e \<Rightarrow> e | None \<Rightarrow> 0) in
      case checked_add entry c of
        None \<Rightarrow> None
      | Some e \<Rightarrow> add_entries es (if e = 0 then bt_remove a m else bt_insert a e m))"

definition term_add :: "Term \<Rightarrow> Term \<Rightarrow> Term option" where
  "term_add t u =
     (case add_entries (coeffs u) (coeffs t) of
        None \<Rightarrow> None
      | Some m \<Rightarrow> (case checked_add (t_constant t) (t_constant u) of
          None \<Rightarrow> None
        | Some k \<Rightarrow> Some \<lparr>coeffs = m, t_constant = k\<rparr>))"

text \<open>A map built by inserting the image of every entry.\<close>

fun map_entries :: "(int \<Rightarrow> int option) \<Rightarrow> (Atom \<times> int) list \<Rightarrow> (Atom \<times> int) list \<Rightarrow> (Atom \<times> int) list option" where
  "map_entries f [] m = Some m"
| "map_entries f ((a, c) # es) m =
     (case f c of
        None \<Rightarrow> None
      | Some e \<Rightarrow> map_entries f es (bt_insert a e m))"

definition term_neg :: "Term \<Rightarrow> Term option" where
  "term_neg t =
     (case map_entries checked_neg (coeffs t) [] of
        None \<Rightarrow> None
      | Some m \<Rightarrow> (case checked_neg (t_constant t) of
          None \<Rightarrow> None
        | Some k \<Rightarrow> Some \<lparr>coeffs = m, t_constant = k\<rparr>))"

definition term_sub :: "Term \<Rightarrow> Term \<Rightarrow> Term option" where
  "term_sub t u = (case term_neg u of None \<Rightarrow> None | Some n \<Rightarrow> term_add t n)"

definition mul_const :: "Term \<Rightarrow> int \<Rightarrow> Term option" where
  "mul_const t k =
     (if k = 0 then Some (term_constant 0)
      else case map_entries (\<lambda>c. checked_mul c k) (coeffs t) [] of
        None \<Rightarrow> None
      | Some m \<Rightarrow> (case checked_mul (t_constant t) k of
          None \<Rightarrow> None
        | Some c \<Rightarrow> Some \<lparr>coeffs = m, t_constant = c\<rparr>))"

definition sign_canonical :: "Term \<Rightarrow> Term" where
  "sign_canonical t =
     (let leading_negative = (case coeffs t of (_, c) # _ \<Rightarrow> c < 0 | [] \<Rightarrow> t_constant t < 0) in
      if leading_negative then (case term_neg t of Some n \<Rightarrow> n | None \<Rightarrow> t) else t)"

definition as_single_affine :: "Term \<Rightarrow> (Atom \<times> int \<times> int) option" where
  "as_single_affine t = (case coeffs t of [(a, c)] \<Rightarrow> Some (a, c, t_constant t) | _ \<Rightarrow> None)"

fun eval_entries :: "(Atom \<Rightarrow> int option) \<Rightarrow> (Atom \<times> int) list \<Rightarrow> int \<Rightarrow> int option" where
  "eval_entries r [] acc = Some acc"
| "eval_entries r ((a, c) # es) acc =
     (case r a of
        None \<Rightarrow> None
      | Some v \<Rightarrow> (case checked_mul c v of
          None \<Rightarrow> None
        | Some p \<Rightarrow> (case checked_add acc p of
            None \<Rightarrow> None
          | Some acc' \<Rightarrow> eval_entries r es acc')))"

definition term_eval :: "(Atom \<Rightarrow> int option) \<Rightarrow> Term \<Rightarrow> int option" where
  "term_eval r t = eval_entries r (coeffs t) (t_constant t)"

section \<open>Predicates\<close>

datatype Predicate = Zero Term | Nonzero Term | Positive Term | DivisibleBy Term int

definition pred_eq :: "Term \<Rightarrow> Term \<Rightarrow> Predicate option" where
  "pred_eq a b = (case term_sub a b of None \<Rightarrow> None | Some t \<Rightarrow> Some (Zero (sign_canonical t)))"

definition pred_nonzero :: "Term \<Rightarrow> Predicate" where
  "pred_nonzero t = Nonzero (sign_canonical t)"

definition pred_lt :: "Term \<Rightarrow> Term \<Rightarrow> Predicate option" where
  "pred_lt a b = map_option Positive (term_sub b a)"

definition pred_le :: "Term \<Rightarrow> Term \<Rightarrow> Predicate option" where
  "pred_le a b =
     (case term_add b (term_constant 1) of
        None \<Rightarrow> None
      | Some b1 \<Rightarrow> map_option Positive (term_sub b1 a))"

text \<open>\<open>rem_euclid\<close> by a divisor, which is at least 1 in every predicate the constructors build.\<close>

fun residues :: "int \<Rightarrow> (Atom \<times> int) list \<Rightarrow> (Atom \<times> int) list \<Rightarrow> (Atom \<times> int) list" where
  "residues d [] m = m"
| "residues d ((a, c) # es) m = residues d es (if c mod d \<noteq> 0 then bt_insert a (c mod d) m else m)"

definition pred_divisible_by :: "Term \<Rightarrow> int \<Rightarrow> Predicate option" where
  "pred_divisible_by t d =
     (if d < 1 then None
      else Some (DivisibleBy (sign_canonical \<lparr>coeffs = residues d (coeffs t) [], t_constant = t_constant t mod d\<rparr>) d))"

fun pred_stage :: "Predicate \<Rightarrow> Stage" where
  "pred_stage (Zero t) = term_stage t"
| "pred_stage (Nonzero t) = term_stage t"
| "pred_stage (Positive t) = term_stage t"
| "pred_stage (DivisibleBy t _) = term_stage t"

fun pred_eval :: "(Atom \<Rightarrow> int option) \<Rightarrow> Predicate \<Rightarrow> bool option" where
  "pred_eval r (Zero t) = map_option (\<lambda>v. v = 0) (term_eval r t)"
| "pred_eval r (Nonzero t) = map_option (\<lambda>v. v \<noteq> 0) (term_eval r t)"
| "pred_eval r (Positive t) = map_option (\<lambda>v. 0 < v) (term_eval r t)"
| "pred_eval r (DivisibleBy t d) = map_option (\<lambda>v. v mod \<bar>d\<bar> = 0) (term_eval r t)"

section \<open>Meaning\<close>

type_synonym valuation = "Atom \<Rightarrow> int"

definition entries_val :: "valuation \<Rightarrow> (Atom \<times> int) list \<Rightarrow> int" where
  "entries_val \<rho> m = (\<Sum>(a, c)\<leftarrow>m. c * \<rho> a)"

definition term_val :: "valuation \<Rightarrow> Term \<Rightarrow> int" where
  "term_val \<rho> t = entries_val \<rho> (coeffs t) + t_constant t"

definition wf_entries :: "(Atom \<times> int) list \<Rightarrow> bool" where
  "wf_entries m \<longleftrightarrow> bt_sorted m \<and> (\<forall>(a, c) \<in> set m. c \<noteq> 0 \<and> in_i64 c)"

definition wf_term :: "Term \<Rightarrow> bool" where
  "wf_term t \<longleftrightarrow> wf_entries (coeffs t) \<and> in_i64 (t_constant t)"

fun pred_holds :: "valuation \<Rightarrow> Predicate \<Rightarrow> bool" where
  "pred_holds \<rho> (Zero t) \<longleftrightarrow> term_val \<rho> t = 0"
| "pred_holds \<rho> (Nonzero t) \<longleftrightarrow> term_val \<rho> t \<noteq> 0"
| "pred_holds \<rho> (Positive t) \<longleftrightarrow> 0 < term_val \<rho> t"
| "pred_holds \<rho> (DivisibleBy t d) \<longleftrightarrow> d dvd term_val \<rho> t"

end
