(* ===== verification/TermLaws.thy ===== *)
theory TermLaws
  imports Terms
begin

text \<open>
  The term algebra is exact and canonical: operations that return a term return the term of
  the exact result, terms with the same value everywhere are equal, and each constructor of
  predicates states the relation it is named after.
\<close>

section \<open>Ordered maps\<close>

definition entry :: "('k \<times> int) list \<Rightarrow> 'k \<Rightarrow> int" where
  "entry m k = (case map_of m k of Some e \<Rightarrow> e | None \<Rightarrow> 0)"

lemma entry_Cons: "entry ((k', v) # m) k = (if k = k' then v else entry m k)"
  by (simp add: entry_def)

lemma bt_sorted_simps [simp]:
  "bt_sorted []" "bt_sorted (e # m) \<longleftrightarrow> (\<forall>k \<in> fst ` set m. fst e < k) \<and> bt_sorted m"
  by (auto simp: bt_sorted_def)

lemma keys_bt_insert: "fst ` set (bt_insert k v m) = insert k (fst ` set m)"
  by (induction k v m rule: bt_insert.induct) auto

lemma set_bt_insert: "set (bt_insert k v m) \<subseteq> insert (k, v) (set m)"
  by (induction k v m rule: bt_insert.induct) auto

lemma bt_insert_sorted: "bt_sorted m \<Longrightarrow> bt_sorted (bt_insert k v m)"
  by (induction k v m rule: bt_insert.induct) (auto simp: keys_bt_insert intro: less_trans)

lemma bt_remove_sorted: "bt_sorted m \<Longrightarrow> bt_sorted (bt_remove k m)"
  by (induction m) (auto simp: bt_remove_def)

lemma entry_fresh: "k \<notin> fst ` set m \<Longrightarrow> entry m k = 0"
  by (simp add: entry_def map_of_eq_None_iff [THEN iffD2])

lemma map_of_bt_insert: "map_of (bt_insert k v m) = (map_of m)(k \<mapsto> v)"
  by (induction k v m rule: bt_insert.induct) (auto simp: fun_eq_iff)

lemma bt_ext:
  assumes "bt_sorted m" and "bt_sorted m'" and "map_of m = map_of m'"
  shows "m = m'"
  using assms
proof (induction m arbitrary: m')
  case Nil
  then show ?case by (metis empty_eq_map_of_iff map_of.simps(1))
next
  case (Cons e m)
  obtain k v where e: "e = (k, v)" by fastforce
  show ?case
  proof (cases m')
    case Nil
    then show ?thesis using fun_cong [OF Cons.prems(3), of k] e by simp
  next
    case (Cons e' n)
    obtain k' v' where e': "e' = (k', v')" by fastforce
    have d: "fst ` set (e # m) = fst ` set (e' # n)" using Cons.prems(3) Cons dom_map_of_conv_image_fst by metis
    then have "k' \<in> insert k (fst ` set m)" and "k \<in> insert k' (fst ` set n)" using e e' by auto
    moreover have "\<forall>j \<in> fst ` set m. k < j" and "\<forall>j \<in> fst ` set n. k' < j" using Cons.prems(1,2) Cons e e' by auto
    ultimately have k: "k' = k" by (metis insertE less_asym)
    then have v: "v' = v" using Cons.prems(3) Cons e e' by (auto dest: fun_cong [of _ _ k])
    have "k \<notin> fst ` set m" "k \<notin> fst ` set n" using Cons.prems(1,2) Cons e e' k by auto
    then have "map_of m k = None" "map_of n k = None" by (simp_all add: map_of_eq_None_iff)
    moreover have "map_of m j = map_of n j" if "j \<noteq> k" for j
      using fun_cong [OF Cons.prems(3), of j] Cons e e' k that by simp
    ultimately have "map_of m = map_of n" by (metis ext)
    then show ?thesis using Cons.IH [of n] Cons.prems(1,2) Cons e e' k v by simp
  qed
qed

section \<open>Values of maps\<close>

lemma entries_val_simps [simp]:
  "entries_val \<rho> [] = 0" "entries_val \<rho> ((a, c) # m) = c * \<rho> a + entries_val \<rho> m"
  by (simp_all add: entries_val_def)

lemma entry_below: "(\<forall>x \<in> fst ` set m. (k :: 'k::linorder) < x) \<Longrightarrow> entry m k = 0"
  by (rule entry_fresh) auto

lemma entries_val_insert:
  "bt_sorted m \<Longrightarrow> entries_val \<rho> (bt_insert a c m) = entries_val \<rho> m + (c - entry m a) * \<rho> a"
proof (induction m)
  case (Cons e m)
  obtain k v where e: "e = (k, v)" by fastforce
  consider "a < k" | "a = k" | "k < a" by (rule linorder_cases)
  then show ?case
  proof cases
    case 1
    then have "entry (e # m) a = 0" using Cons.prems e by (intro entry_below) (auto intro: less_trans)
    with 1 show ?thesis by (simp add: e)
  next
    case 3
    then show ?thesis using Cons e by (auto simp: entry_Cons)
  qed (simp add: e entry_Cons algebra_simps)
qed (simp add: entry_def)

lemma entries_val_remove:
  "bt_sorted m \<Longrightarrow> entries_val \<rho> (bt_remove a m) = entries_val \<rho> m - entry m a * \<rho> a"
proof (induction m)
  case (Cons e m)
  obtain k c where e: "e = (k, c)" by fastforce
  show ?case
  proof (cases "k = a")
    case True
    then have "a \<notin> fst ` set m" using Cons.prems e by auto
    then have "bt_remove a m = m" by (auto simp: bt_remove_def intro!: filter_True)
    then show ?thesis using True e by (simp add: bt_remove_def entry_Cons)
  next
    case False
    then show ?thesis using Cons e by (simp add: bt_remove_def entry_Cons)
  qed
qed (simp add: bt_remove_def entry_def)

lemma wf_entries_Nil [simp]: "wf_entries []"
  by (simp add: wf_entries_def)

lemma wf_entries_insert: "wf_entries m \<Longrightarrow> c \<noteq> 0 \<Longrightarrow> in_i64 c \<Longrightarrow> wf_entries (bt_insert a c m)"
  using set_bt_insert [of a c m] by (auto simp: wf_entries_def bt_insert_sorted)

lemma wf_entries_remove: "wf_entries m \<Longrightarrow> wf_entries (bt_remove a m)"
  by (auto simp: wf_entries_def bt_remove_sorted) (auto simp: bt_remove_def)

lemma wf_entries_sorted: "wf_entries m \<Longrightarrow> bt_sorted m"
  by (simp add: wf_entries_def)

section \<open>Operations on terms\<close>

lemma add_entries_exact:
  "add_entries es m = Some n \<Longrightarrow> wf_entries m \<Longrightarrow>
   wf_entries n \<and> (\<forall>\<rho>. entries_val \<rho> n = entries_val \<rho> m + entries_val \<rho> es)"
proof (induction es m rule: add_entries.induct)
  case (2 a c es m)
  define e where "e = entry m a + c"
  let ?m = "if e = 0 then bt_remove a m else bt_insert a e m"
  have i: "in_i64 e" and n: "add_entries es ?m = Some n"
    using 2(2) by (auto simp: checked_add_def e_def entry_def Let_def split: if_splits)
  have w: "wf_entries ?m" using 2(3) i by (simp add: wf_entries_remove wf_entries_insert)
  have c: "c = e - entry m a" by (simp add: e_def)
  have v: "entries_val \<rho> ?m = entries_val \<rho> m + c * \<rho> a" for \<rho>
    using wf_entries_sorted [OF 2(3)] unfolding c
    by (cases "e = 0") (simp_all add: entries_val_remove entries_val_insert algebra_simps)
  have "wf_entries n \<and> (\<forall>\<rho>. entries_val \<rho> n = entries_val \<rho> ?m + entries_val \<rho> es)"
    by (rule 2(1) [OF refl, of e]) (use i n w in \<open>simp_all add: checked_add_def e_def entry_def\<close>)
  with v show ?case by simp
qed simp

lemma map_entries_exact:
  assumes f: "\<And>c e. f c = Some e \<Longrightarrow> e = g * c \<and> in_i64 e" and "g \<noteq> 0"
  shows "map_entries f es m = Some n \<Longrightarrow> wf_entries m \<Longrightarrow> wf_entries es \<Longrightarrow> fst ` set es \<inter> fst ` set m = {} \<Longrightarrow>
   wf_entries n \<and> (\<forall>\<rho>. entries_val \<rho> n = entries_val \<rho> m + g * entries_val \<rho> es)"
proof (induction es arbitrary: m)
  case (Cons x es)
  obtain a c where x: "x = (a, c)" by fastforce
  from Cons.prems(1) x obtain e where e: "f c = Some e" and n: "map_entries f es (bt_insert a e m) = Some n"
    by (auto split: option.splits)
  have c: "c \<noteq> 0" "wf_entries es" "a \<notin> fst ` set es" using Cons.prems(3) x by (auto simp: wf_entries_def)
  have w: "wf_entries (bt_insert a e m)" using Cons.prems(2) f [OF e] assms(2) c(1) by (intro wf_entries_insert) auto
  have "entry m a = 0" using Cons.prems(4) x by (intro entry_fresh) auto
  then have v: "entries_val \<rho> (bt_insert a e m) = entries_val \<rho> m + g * (c * \<rho> a)" for \<rho>
    using entries_val_insert [OF wf_entries_sorted [OF Cons.prems(2)], of \<rho> a e] f [OF e] by simp
  have "fst ` set es \<inter> fst ` set (bt_insert a e m) = {}"
    using Cons.prems(4) c(3) x by (auto simp: keys_bt_insert)
  from Cons.IH [OF n w c(2) this] v show ?case by (simp add: x algebra_simps)
qed simp

lemma in_i64_small [simp]: "in_i64 0" "in_i64 1"
  by (simp_all add: in_i64_def I64_MIN_def I64_MAX_def)

lemma term_constant_val [simp]: "term_val \<rho> (term_constant c) = c" "wf_term (term_constant c) \<longleftrightarrow> in_i64 c"
  by (simp_all add: term_val_def term_constant_def wf_term_def)

lemma term_atom_val [simp]: "term_val \<rho> (term_atom a) = \<rho> a" "wf_term (term_atom a)"
  by (simp_all add: term_val_def term_atom_def wf_term_def wf_entries_def)

lemma term_affine_val:
  "term_val \<rho> (term_affine a k b) = k * \<rho> a + b" "in_i64 k \<Longrightarrow> in_i64 b \<Longrightarrow> wf_term (term_affine a k b)"
  by (simp_all add: term_affine_def) (simp_all add: term_val_def wf_term_def wf_entries_def)

lemma term_add_exact:
  assumes "term_add t u = Some w" and "wf_term t"
  shows "wf_term w \<and> (\<forall>\<rho>. term_val \<rho> w = term_val \<rho> t + term_val \<rho> u)"
  using assms add_entries_exact [of "coeffs u" "coeffs t"]
  by (auto simp: term_add_def wf_term_def term_val_def checked_add_def split: option.splits if_splits)

lemma term_neg_exact:
  assumes "term_neg t = Some w" and "wf_term t"
  shows "wf_term w \<and> (\<forall>\<rho>. term_val \<rho> w = - term_val \<rho> t)"
proof -
  obtain m where m: "map_entries checked_neg (coeffs t) [] = Some m" and k: "in_i64 (- t_constant t)"
    and w: "w = \<lparr>coeffs = m, t_constant = - t_constant t\<rparr>"
    using assms(1) by (auto simp: term_neg_def checked_neg_def split: option.splits if_splits)
  have "wf_entries m \<and> (\<forall>\<rho>. entries_val \<rho> m = entries_val \<rho> [] + - 1 * entries_val \<rho> (coeffs t))"
    by (rule map_entries_exact [OF _ _ m]) (use assms(2) in \<open>auto simp: checked_neg_def wf_term_def split: if_splits\<close>)
  with k show ?thesis by (simp add: w wf_term_def term_val_def)
qed

lemma term_sub_exact:
  assumes "term_sub t u = Some w" and "wf_term t" and "wf_term u"
  shows "wf_term w \<and> (\<forall>\<rho>. term_val \<rho> w = term_val \<rho> t - term_val \<rho> u)"
proof -
  obtain n where n: "term_neg u = Some n" and w: "term_add t n = Some w"
    using assms(1) by (auto simp: term_sub_def split: option.splits)
  from term_neg_exact [OF n assms(3)] term_add_exact [OF w assms(2)] show ?thesis by simp
qed

lemma mul_const_exact:
  assumes "mul_const t k = Some w" and "wf_term t"
  shows "wf_term w \<and> (\<forall>\<rho>. term_val \<rho> w = k * term_val \<rho> t)"
proof (cases "k = 0")
  case True
  then show ?thesis using assms(1) by (auto simp: mul_const_def)
next
  case False
  then obtain m where m: "map_entries (\<lambda>c. checked_mul c k) (coeffs t) [] = Some m" and c: "in_i64 (t_constant t * k)"
    and w: "w = \<lparr>coeffs = m, t_constant = t_constant t * k\<rparr>"
    using assms(1) by (auto simp: mul_const_def checked_mul_def split: option.splits if_splits)
  have "wf_entries m \<and> (\<forall>\<rho>. entries_val \<rho> m = entries_val \<rho> [] + k * entries_val \<rho> (coeffs t))"
    by (rule map_entries_exact [OF _ False m])
      (use assms(2) in \<open>auto simp: checked_mul_def wf_term_def mult.commute split: if_splits\<close>)
  with c show ?thesis by (simp add: w wf_term_def term_val_def algebra_simps)
qed

lemma sign_canonical_exact:
  assumes "wf_term t"
  shows "wf_term (sign_canonical t) \<and>
    ((\<forall>\<rho>. term_val \<rho> (sign_canonical t) = term_val \<rho> t) \<or> (\<forall>\<rho>. term_val \<rho> (sign_canonical t) = - term_val \<rho> t))"
  using term_neg_exact [OF _ assms] assms by (auto simp: sign_canonical_def Let_def split: option.split)

section \<open>Terms are canonical\<close>

lemma entries_val_at:
  assumes "bt_sorted m"
  shows "entries_val (\<lambda>b. if b = a then 1 else 0) m = entry m a"
  using assms
proof (induction m)
  case (Cons e m)
  obtain k c where e: "e = (k, c)" by fastforce
  show ?case using Cons entry_fresh [of k m] e by (cases "k = a") (auto simp: entry_Cons)
qed (simp add: entry_def)

lemma entry_map_of: "wf_entries m \<Longrightarrow> map_of m a = (if entry m a = 0 then None else Some (entry m a))"
  by (auto simp: entry_def wf_entries_def dest!: map_of_SomeD split: option.splits)

lemma canonical:
  assumes "wf_term t" and "wf_term u" and "\<And>\<rho>. term_val \<rho> t = term_val \<rho> u"
  shows "t = u"
proof -
  have z: "entries_val (\<lambda>_. 0) m = 0" for m
    by (induction m) (auto simp: entries_val_def)
  have k: "t_constant t = t_constant u" using assms(3) [of "\<lambda>_. 0"] by (simp add: term_val_def z)
  have w: "wf_entries (coeffs t)" "wf_entries (coeffs u)" using assms(1,2) by (simp_all add: wf_term_def)
  have "entry (coeffs t) a = entry (coeffs u) a" for a
    using assms(3) [of "\<lambda>b. if b = a then 1 else 0"] k w
    by (simp add: term_val_def entries_val_at wf_entries_sorted)
  then have "map_of (coeffs t) = map_of (coeffs u)" using w by (simp add: entry_map_of fun_eq_iff)
  then have "coeffs t = coeffs u" using bt_ext w wf_entries_sorted by blast
  with k show ?thesis by simp
qed

section \<open>The interface of the term algebra\<close>

text \<open>What the predicates rely on: addition and subtraction are exact where they are defined.\<close>

locale term_algebra =
  fixes wf :: "'t \<Rightarrow> bool" and val :: "'r \<Rightarrow> 't \<Rightarrow> int"
    and const :: "int \<Rightarrow> 't" and add :: "'t \<Rightarrow> 't \<Rightarrow> 't option" and sub :: "'t \<Rightarrow> 't \<Rightarrow> 't option"
  assumes val_const: "val r (const c) = c"
    and add_exact: "add t u = Some w \<Longrightarrow> wf t \<Longrightarrow> wf w \<and> (\<forall>r. val r w = val r t + val r u)"
    and sub_exact: "sub t u = Some w \<Longrightarrow> wf t \<Longrightarrow> wf u \<Longrightarrow> wf w \<and> (\<forall>r. val r w = val r t - val r u)"
begin

lemma difference_zero: "sub t u = Some w \<Longrightarrow> wf t \<Longrightarrow> wf u \<Longrightarrow> val r w = 0 \<longleftrightarrow> val r t = val r u"
  using sub_exact by auto

lemma difference_positive: "sub u t = Some w \<Longrightarrow> wf t \<Longrightarrow> wf u \<Longrightarrow> 0 < val r w \<longleftrightarrow> val r t < val r u"
  using sub_exact by auto

lemma successor_difference:
  "add u (const 1) = Some u1 \<Longrightarrow> sub u1 t = Some w \<Longrightarrow> wf t \<Longrightarrow> wf u \<Longrightarrow> 0 < val r w \<longleftrightarrow> val r t \<le> val r u"
  using add_exact [of u "const 1" u1] sub_exact [of u1 t w] val_const [of r 1] by auto

end

interpretation linear: term_algebra wf_term term_val term_constant term_add term_sub
  by unfold_locales (use term_add_exact term_sub_exact in auto)

section \<open>What a predicate states\<close>

lemma sign_canonical_zero: "wf_term t \<Longrightarrow> term_val \<rho> (sign_canonical t) = 0 \<longleftrightarrow> term_val \<rho> t = 0"
  using sign_canonical_exact [of t] by (auto dest: spec [of _ \<rho>])

lemma sign_canonical_dvd: "wf_term t \<Longrightarrow> d dvd term_val \<rho> (sign_canonical t) \<longleftrightarrow> d dvd term_val \<rho> t"
  using sign_canonical_exact [of t] by (metis dvd_minus_iff)

lemma pred_eq_holds: "pred_eq a b = Some p \<Longrightarrow> wf_term a \<Longrightarrow> wf_term b \<Longrightarrow> pred_holds \<rho> p \<longleftrightarrow> term_val \<rho> a = term_val \<rho> b"
  using term_sub_exact [of a b] linear.difference_zero [of a b]
  by (auto simp: pred_eq_def sign_canonical_zero split: option.splits)

lemma pred_nonzero_holds: "wf_term t \<Longrightarrow> pred_holds \<rho> (pred_nonzero t) \<longleftrightarrow> term_val \<rho> t \<noteq> 0"
  by (simp add: pred_nonzero_def sign_canonical_zero)

lemma pred_lt_holds: "pred_lt a b = Some p \<Longrightarrow> wf_term a \<Longrightarrow> wf_term b \<Longrightarrow> pred_holds \<rho> p \<longleftrightarrow> term_val \<rho> a < term_val \<rho> b"
  using linear.difference_positive [of b a] by (auto simp: pred_lt_def)

lemma pred_le_holds: "pred_le a b = Some p \<Longrightarrow> wf_term a \<Longrightarrow> wf_term b \<Longrightarrow> pred_holds \<rho> p \<longleftrightarrow> term_val \<rho> a \<le> term_val \<rho> b"
  using linear.successor_difference [of b] by (auto simp: pred_le_def split: option.splits)

text \<open>Reducing the coefficients modulo the divisor keeps the residue of the value.\<close>

lemma residues_exact:
  assumes "0 < d" and "in_i64 d"
  shows "wf_entries es \<Longrightarrow> wf_entries m \<Longrightarrow> fst ` set es \<inter> fst ` set m = {} \<Longrightarrow>
    wf_entries (residues d es m) \<and> (\<forall>\<rho>. d dvd entries_val \<rho> (residues d es m) - entries_val \<rho> m - entries_val \<rho> es)"
proof (induction es arbitrary: m)
  case (Cons x es)
  obtain a c where x: "x = (a, c)" by fastforce
  let ?m = "if c mod d \<noteq> 0 then bt_insert a (c mod d) m else m"
  have es: "wf_entries es" "a \<notin> fst ` set es" using Cons.prems(1) x by (auto simp: wf_entries_def)
  have "0 \<le> c mod d" "c mod d < d" using assms(1) by simp_all
  then have "in_i64 (c mod d)" using assms(2) by (simp add: in_i64_def I64_MIN_def)
  then have w: "wf_entries ?m" using Cons.prems(2) by (simp add: wf_entries_insert)
  have f: "entry m a = 0" using Cons.prems(3) x by (intro entry_fresh) auto
  have "entries_val \<rho> ?m = entries_val \<rho> m + (c mod d) * \<rho> a" for \<rho>
    using entries_val_insert [OF wf_entries_sorted [OF Cons.prems(2)]] f by simp
  then have v: "entries_val \<rho> ?m = entries_val \<rho> m + c * \<rho> a - d * ((c div d) * \<rho> a)" for \<rho>
    by (simp add: minus_div_mult_eq_mod [symmetric] algebra_simps)
  have "fst ` set es \<inter> fst ` set ?m = {}" using Cons.prems(3) es(2) x by (auto simp: keys_bt_insert)
  from Cons.IH [OF es(1) w this] have ih: "wf_entries (residues d es ?m)"
    "\<And>\<rho>. d dvd entries_val \<rho> (residues d es ?m) - entries_val \<rho> ?m - entries_val \<rho> es" by auto
  have "d dvd entries_val \<rho> (residues d es ?m) - entries_val \<rho> m - entries_val \<rho> (x # es)" for \<rho>
    using dvd_diff [OF ih(2) [of \<rho>] dvd_triv_left [of d "(c div d) * \<rho> a"]] by (simp add: v x algebra_simps)
  with ih(1) show ?case by (simp add: x)
qed simp

lemma pred_divisible_by_holds:
  assumes "pred_divisible_by t d = Some p" and "wf_term t" and "in_i64 d"
  shows "pred_holds \<rho> p \<longleftrightarrow> d dvd term_val \<rho> t"
proof -
  have d: "0 < d" and p: "p = DivisibleBy (sign_canonical \<lparr>coeffs = residues d (coeffs t) [], t_constant = t_constant t mod d\<rparr>) d"
    using assms(1) by (auto simp: pred_divisible_by_def split: if_splits)
  let ?u = "\<lparr>coeffs = residues d (coeffs t) [], t_constant = t_constant t mod d\<rparr>"
  have r: "wf_entries (residues d (coeffs t) [])" "d dvd entries_val \<rho> (residues d (coeffs t) []) - entries_val \<rho> (coeffs t)"
    using residues_exact [OF d assms(3), of "coeffs t" "[]"] assms(2) by (auto simp: wf_term_def)
  have "0 \<le> t_constant t mod d" "t_constant t mod d < d" using d by simp_all
  then have u: "wf_term ?u" using r(1) assms(3) by (simp add: wf_term_def in_i64_def I64_MIN_def)
  have "d dvd t_constant t mod d - t_constant t" by (simp add: mod_eq_dvd_iff [symmetric])
  from dvd_add [OF r(2) this] have "d dvd term_val \<rho> ?u - term_val \<rho> t" by (simp add: term_val_def algebra_simps)
  then have "d dvd term_val \<rho> ?u \<longleftrightarrow> d dvd term_val \<rho> t" by (metis diff_add_cancel dvd_add_right_iff)
  then show ?thesis by (simp add: p sign_canonical_dvd [OF u])
qed

section \<open>Evaluation\<close>

definition agrees :: "(Atom \<Rightarrow> int option) \<Rightarrow> valuation \<Rightarrow> bool" where
  "agrees r \<rho> \<longleftrightarrow> (\<forall>a v. r a = Some v \<longrightarrow> v = \<rho> a)"

lemma eval_entries_exact: "eval_entries r es acc = Some v \<Longrightarrow> agrees r \<rho> \<Longrightarrow> v = acc + entries_val \<rho> es"
proof (induction es arbitrary: acc)
  case (Cons x es)
  obtain a c where x: "x = (a, c)" by fastforce
  from Cons.prems(1) obtain w where w: "r a = Some w" and e: "eval_entries r es (acc + c * w) = Some v"
    by (auto simp: x checked_mul_def checked_add_def split: option.splits if_splits)
  from Cons.IH [OF e Cons.prems(2)] w Cons.prems(2) show ?case by (simp add: x agrees_def)
qed simp

lemma term_eval_exact: "term_eval r t = Some v \<Longrightarrow> agrees r \<rho> \<Longrightarrow> v = term_val \<rho> t"
  unfolding term_eval_def term_val_def by (drule (1) eval_entries_exact) simp

lemma eval_map_exact:
  assumes "map_option f (term_eval r t) = Some b" and "agrees r \<rho>"
  shows "b = f (term_val \<rho> t)"
proof -
  obtain v where v: "term_eval r t = Some v" "b = f v" using assms(1) by auto
  from term_eval_exact [OF v(1) assms(2)] v(2) show ?thesis by simp
qed

lemma pred_eval_exact:
  assumes "pred_eval r p = Some b" and "agrees r \<rho>"
  shows "b \<longleftrightarrow> pred_holds \<rho> p"
proof (cases p)
  case (DivisibleBy t d)
  have "b = (term_val \<rho> t mod \<bar>d\<bar> = 0)" using eval_map_exact [OF _ assms(2)] assms(1) DivisibleBy by simp
  also have "\<dots> = (\<bar>d\<bar> dvd term_val \<rho> t)" by (simp only: dvd_eq_mod_eq_0)
  finally show ?thesis using DivisibleBy by simp
qed (use eval_map_exact [OF _ assms(2)] assms(1) in simp_all)

text \<open>The stage bounds the atoms, so a predicate of stage \<open>Jit\<close> is decided by its constant.\<close>

lemma term_stage_atoms: "a \<in> fst ` set (coeffs t) \<Longrightarrow> atom_stage a \<le> term_stage t"
proof -
  have "a \<in> fst ` set es \<Longrightarrow> atom_stage a \<le> foldr (\<lambda>e. max (atom_stage (fst e))) es Jit" for es
    by (induction es) (auto simp: le_max_iff_disj)
  then show "a \<in> fst ` set (coeffs t) \<Longrightarrow> atom_stage a \<le> term_stage t" by (simp add: term_stage_def)
qed

section \<open>Equalities have one representative\<close>

definition negated :: "(Atom \<times> int) list \<Rightarrow> (Atom \<times> int) list" where
  "negated m = map (\<lambda>(a, c). (a, - c)) m"

lemma opposite_coeffs:
  assumes "wf_term t" and "wf_term u" and "\<And>\<rho>. term_val \<rho> u = - term_val \<rho> t"
  shows "coeffs u = negated (coeffs t)" and "t_constant u = - t_constant t"
proof -
  have z: "entries_val (\<lambda>_. 0) m = 0" for m
    by (induction m) (auto simp: entries_val_def)
  show k: "t_constant u = - t_constant t" using assms(3) [of "\<lambda>_. 0"] by (simp add: term_val_def z)
  have w: "wf_entries (coeffs t)" "wf_entries (coeffs u)" using assms(1,2) by (simp_all add: wf_term_def)
  have e: "entry (coeffs u) a = - entry (coeffs t) a" for a
    using assms(3) [of "\<lambda>b. if b = a then 1 else 0"] k w
    by (simp add: term_val_def entries_val_at wf_entries_sorted)
  have "map_of (negated (coeffs t)) = map_option uminus \<circ> map_of (coeffs t)"
    unfolding negated_def by (rule map_of_map)
  then have "map_of (coeffs u) = map_of (negated (coeffs t))"
    using w e by (auto simp: entry_map_of fun_eq_iff)
  moreover have "bt_sorted (negated (coeffs t))"
    using w(1) by (simp add: wf_entries_def bt_sorted_def negated_def case_prod_unfold comp_def)
  ultimately show "coeffs u = negated (coeffs t)" using bt_ext w(2) wf_entries_sorted by blast
qed

lemma map_entries_defined: "\<forall>(a, c) \<in> set es. f c \<noteq> None \<Longrightarrow> \<exists>n. map_entries f es m = Some n"
  by (induction f es m rule: map_entries.induct) auto

lemma neg_is_unique:
  assumes "wf_term t" and "wf_term u" and "\<And>\<rho>. term_val \<rho> u = - term_val \<rho> t"
  shows "term_neg t = Some u"
proof -
  note o = opposite_coeffs [OF assms]
  have "\<forall>(a, c) \<in> set (coeffs t). checked_neg c \<noteq> None"
    using assms(2) o(1) by (auto simp: wf_term_def wf_entries_def negated_def checked_neg_def)
  from map_entries_defined [OF this] obtain n where n: "map_entries checked_neg (coeffs t) [] = Some n" by blast
  have "checked_neg (t_constant t) = Some (t_constant u)" using assms(2) o(2) by (simp add: checked_neg_def wf_term_def)
  with n obtain w where w: "term_neg t = Some w" by (simp add: term_neg_def)
  from term_neg_exact [OF w assms(1)] assms(2,3) have "w = u" by (intro canonical) auto
  with w show ?thesis by simp
qed

lemma sign_canonical_opposite:
  assumes "wf_term t" and "wf_term u" and "\<And>\<rho>. term_val \<rho> u = - term_val \<rho> t"
  shows "sign_canonical t = sign_canonical u"
proof -
  note o = opposite_coeffs [OF assms]
  have n: "term_neg t = Some u" "term_neg u = Some t"
    using neg_is_unique [OF assms] neg_is_unique [OF assms(2,1)] assms(3) by auto
  show ?thesis
  proof (cases "coeffs t")
    case Nil
    then have "coeffs u = []" using o by (simp add: negated_def)
    then show ?thesis using Nil n o(2) canonical [OF assms(1,2)] assms(3)
      by (auto simp: sign_canonical_def term_val_def)
  next
    case (Cons e es)
    obtain a c where e: "e = (a, c)" by fastforce
    have "c \<noteq> 0" using assms(1) Cons e by (auto simp: wf_term_def wf_entries_def)
    moreover have "\<exists>es'. coeffs u = (a, - c) # es'" using o(1) Cons e by (simp add: negated_def)
    ultimately show ?thesis using Cons e n by (auto simp: sign_canonical_def)
  qed
qed

lemma pred_eq_symmetric:
  assumes "pred_eq a b = Some p" and "pred_eq b a = Some q" and "wf_term a" and "wf_term b"
  shows "p = q"
proof -
  obtain t where t: "term_sub a b = Some t" "p = Zero (sign_canonical t)"
    using assms(1) by (auto simp: pred_eq_def split: option.splits)
  obtain u where u: "term_sub b a = Some u" "q = Zero (sign_canonical u)"
    using assms(2) by (auto simp: pred_eq_def split: option.splits)
  have "sign_canonical t = sign_canonical u"
    using term_sub_exact [OF t(1) assms(3,4)] term_sub_exact [OF u(1) assms(4,3)] by (intro sign_canonical_opposite) auto
  then show ?thesis by (simp add: t u)
qed

end
