(* ===== verification/ValueFacts.thy ===== *)
theory ValueFacts
  imports IntervalSound TermLaws IrModule
begin

text \<open>
  The facts the compiler propagates over scalar values
  (\<open>cutile-compiler/src/value_facts.rs\<close>): an interval, a linear term, and the residue of a
  division by a constant. The value of a kernel variable is the machine value, which wraps
  at the width of its type; an interval survives only when the exact result fits the type.
\<close>

section \<open>Compiled values\<close>

record FloorDiv =
  numerator :: Term
  divisor :: int

record PartitionAxisOrigin =
  pa_tensor :: string
  pa_axis :: nat
  pa_tile_dim :: int

datatype DimOrigin = PartitionAxis Value nat int | DimValue Value

text \<open>The facts of a \<open>TileRustValue\<close> that the checks read.\<close>

record TileRustValue =
  tv_value :: "Value option"
  tv_bounds :: "Bounds option"
  tv_term :: "Term option"
  tv_floor_div :: "FloorDiv option"
  tv_tensor_origin :: "string option"
  tv_partition_axis_origin :: "PartitionAxisOrigin option"
  tv_index_origin :: "DimOrigin option"
  tv_bounded_axes :: "DimOrigin list option"

record ScalarFacts =
  sf_bounds :: "Bounds option"
  sf_term :: "Term option"
  sf_floor_div :: "FloorDiv option"

section \<open>Transfer functions\<close>

definition int_value_domain :: "string \<Rightarrow> Bounds option" where
  "int_value_domain ty =
     (if ty = ''bool'' \<or> ty = ''i1'' then Some (bounds_new 0 1)
      else if ty = ''i32'' then Some (bounds_new (- (2 ^ 31)) (2 ^ 31 - 1))
      else if ty = ''u32'' then Some (bounds_new 0 (2 ^ 32 - 1))
      else None)"

definition propagate_bounds :: "TileBinaryOp \<Rightarrow> TileRustValue \<Rightarrow> TileRustValue \<Rightarrow> Bounds option may_panic" where
  "propagate_bounds bop lhs rhs =
     (case (tv_bounds lhs, tv_bounds rhs) of
        (Some a, Some b) \<Rightarrow> bounds_from_bop bop a b
      | _ \<Rightarrow> Inr None)"

definition exact_bound :: "TileRustValue \<Rightarrow> int option" where
  "exact_bound v =
     (case tv_bounds v of
        Some b \<Rightarrow> if is_exact b then Some (b_start b) else None
      | None \<Rightarrow> None)"

definition propagate_floor_div :: "TileBinaryOp \<Rightarrow> TileRustValue \<Rightarrow> TileRustValue \<Rightarrow> FloorDiv option" where
  "propagate_floor_div bop lhs rhs =
     (if bop \<noteq> Bop_Div then None
      else case exact_bound rhs of
        None \<Rightarrow> None
      | Some d \<Rightarrow>
          if d \<le> 0 then None
          else map_option (\<lambda>t. \<lparr>numerator = t, divisor = d\<rparr>) (tv_term lhs))"

definition term_of :: "TileRustValue \<Rightarrow> Term option" where
  "term_of v =
     (case tv_term v of
        Some t \<Rightarrow> Some t
      | None \<Rightarrow> map_option term_constant (exact_bound v))"

definition propagate_term :: "TileBinaryOp \<Rightarrow> TileRustValue \<Rightarrow> TileRustValue \<Rightarrow> Term option" where
  "propagate_term bop lhs rhs =
     (case (term_of lhs, term_of rhs) of
        (Some lt, Some rt) \<Rightarrow>
          (case bop of
             Bop_Add \<Rightarrow> term_add lt rt
           | Bop_Sub \<Rightarrow> term_sub lt rt
           | Bop_Mul \<Rightarrow>
               (case as_constant rt of
                  Some c \<Rightarrow> mul_const lt c
                | None \<Rightarrow> (case as_constant lt of
                    Some c \<Rightarrow> mul_const rt c
                  | None \<Rightarrow> None))
           | _ \<Rightarrow> None)
      | _ \<Rightarrow> None)"

definition transfer ::
  "TileBinaryOp \<Rightarrow> TileRustValue \<Rightarrow> TileRustValue \<Rightarrow> Bounds option \<Rightarrow> ScalarFacts may_panic" where
  "transfer bop lhs rhs result_domain =
     and_then (propagate_bounds bop lhs rhs) (\<lambda>bs.
       Inr \<lparr>sf_bounds = (case (bs, result_domain) of
              (Some b, Some d) \<Rightarrow> if b_start d \<le> b_start b \<and> b_end b \<le> b_end d then Some b else None
            | _ \<Rightarrow> None),
            sf_term = propagate_term bop lhs rhs,
            sf_floor_div = propagate_floor_div bop lhs rhs\<rparr>)"

fun term_range_entries :: "(Atom \<Rightarrow> Bounds option) \<Rightarrow> (Atom \<times> int) list \<Rightarrow> int \<Rightarrow> int \<Rightarrow> Bounds option" where
  "term_range_entries r [] lo hi = Some \<lparr>b_start = lo, b_end = hi\<rparr>"
| "term_range_entries r ((atom, coeff) # es) lo hi =
     (case r atom of
        None \<Rightarrow> None
      | Some b \<Rightarrow> (case (checked_mul coeff (b_start b), checked_mul coeff (b_end b)) of
          (Some x, Some y) \<Rightarrow>
            (case (checked_add lo (min x y), checked_add hi (max x y)) of
               (Some lo', Some hi') \<Rightarrow> term_range_entries r es lo' hi'
             | _ \<Rightarrow> None)
        | _ \<Rightarrow> None))"

definition term_range :: "Term \<Rightarrow> (Atom \<Rightarrow> Bounds option) \<Rightarrow> Bounds option" where
  "term_range t r = term_range_entries r (coeffs t) (t_constant t) (t_constant t)"

section \<open>Machine values\<close>

text \<open>The value of a type with the given domain that is congruent to \<open>v\<close>.\<close>

definition machine :: "Bounds \<Rightarrow> int \<Rightarrow> int" where
  "machine d v = b_start d + (v - b_start d) mod (b_end d - b_start d + 1)"

lemma machine_inside: "b_start d \<le> b_end d \<Longrightarrow> inside (machine d v) d"
  using pos_mod_bound [of "b_end d - b_start d + 1" "v - b_start d"]
  by (simp add: machine_def inside_def pos_mod_sign)

lemma machine_id: "inside v d \<Longrightarrow> machine d v = v"
  by (simp add: machine_def inside_def mod_pos_pos_trivial)

text \<open>The interval of a value holds the value at run time.\<close>

definition bounds_ok :: "TileRustValue \<Rightarrow> int \<Rightarrow> bool" where
  "bounds_ok v x \<longleftrightarrow> (\<forall>b. tv_bounds v = Some b \<longrightarrow> wf_bounds b \<and> inside x b)"

lemma domain_inner:
  assumes "int_value_domain ty = Some d"
  shows "I64_MIN < b_start d" "b_end d < I64_MAX" "b_start d \<le> b_end d"
  using assms by (auto simp: int_value_domain_def bounds_new_def I64_MIN_def I64_MAX_def split: if_splits)

lemma inside_inner: "inside (sat v) b \<Longrightarrow> I64_MIN < b_start b \<Longrightarrow> b_end b < I64_MAX \<Longrightarrow> sat v = v"
  by (auto simp: inside_def sat_def split: if_splits)

lemma transfer_exact:
  assumes dom: "int_value_domain ty = Some d" and "transfer bop lhs rhs (Some d) = Inr facts" and "sf_bounds facts = Some c"
    and "bounds_ok lhs x" and "bounds_ok rhs y" and "exact_value bop x y = Some v"
  shows "wf_bounds c \<and> inside v c \<and> inside v d \<and> machine d v = v"
proof -
  have "\<exists>a b. tv_bounds lhs = Some a \<and> tv_bounds rhs = Some b \<and> bounds_from_bop bop a b = Inr (Some c)"
    and sub: "b_start d \<le> b_start c" "b_end c \<le> b_end d"
    using assms(2,3) by (auto simp: transfer_def propagate_bounds_def and_then_eq_Inr split: option.splits if_splits)
  then obtain a b where ab: "tv_bounds lhs = Some a" "tv_bounds rhs = Some b" "bounds_from_bop bop a b = Inr (Some c)" by blast
  have w: "wf_bounds a" "wf_bounds b" "inside x a" "inside y b" using assms(4,5) ab by (simp_all add: bounds_ok_def)
  have "bop \<in> {Bop_CeilDiv, Bop_Div, Bop_TrueDiv, Bop_Rem} \<Longrightarrow> \<not> inside 0 b"
    using bounds_from_bop_none [OF w(1,2), of bop] ab(3) by auto
  from bounds_from_bop_covers [OF w assms(6) this] ab(3) have c: "wf_bounds c" "inside (sat v) c" by (auto simp: covers_def)
  have "sat v = v" using inside_inner [OF c(2)] domain_inner [OF dom] sub by linarith
  with c sub have "inside v c" "inside v d" by (auto simp: inside_def)
  then show ?thesis using c(1) machine_id by blast
qed

section \<open>Terms modulo the width of the type\<close>

text \<open>
  A term is exact arithmetic, the machine wraps; they agree modulo the size of the type.
\<close>

definition term_ok :: "int \<Rightarrow> valuation \<Rightarrow> TileRustValue \<Rightarrow> int \<Rightarrow> bool" where
  "term_ok m \<rho> v x \<longleftrightarrow> (\<forall>t. tv_term v = Some t \<longrightarrow> wf_term t \<and> m dvd x - term_val \<rho> t)"

lemma term_of_ok:
  assumes "term_of v = Some t" and "term_ok m \<rho> v x" and "bounds_ok v x"
  shows "wf_term t \<and> m dvd x - term_val \<rho> t"
  using assms by (auto simp: term_of_def term_ok_def exact_bound_def bounds_ok_def inside_def is_exact_def wf_bounds_def
      split: option.splits if_splits)

lemma dvd_products:
  fixes m :: int
  assumes "m dvd x - a" and "m dvd y - b"
  shows "m dvd x * y - a * b"
proof -
  have "m dvd (x - a) * y + a * (y - b)" using assms by simp
  then show ?thesis by (simp add: algebra_simps)
qed

lemma as_constant_val: "as_constant t = Some c \<Longrightarrow> term_val \<rho> t = c"
  by (auto simp: as_constant_def term_val_def split: if_splits)

lemma propagate_term_congruent:
  assumes "propagate_term bop lhs rhs = Some t" and "exact_value bop x y = Some v"
    and "term_ok m \<rho> lhs x" "bounds_ok lhs x" "term_ok m \<rho> rhs y" "bounds_ok rhs y"
  shows "wf_term t \<and> m dvd v - term_val \<rho> t"
proof -
  obtain lt rt where t: "term_of lhs = Some lt" "term_of rhs = Some rt"
    using assms(1) by (auto simp: propagate_term_def split: option.splits)
  have l: "wf_term lt" "m dvd x - term_val \<rho> lt" using term_of_ok [OF t(1) assms(3,4)] by auto
  have r: "wf_term rt" "m dvd y - term_val \<rho> rt" using term_of_ok [OF t(2) assms(5,6)] by auto
  consider (add) "bop = Bop_Add" "term_add lt rt = Some t" | (sub) "bop = Bop_Sub" "term_sub lt rt = Some t"
    | (right) c where "bop = Bop_Mul" "as_constant rt = Some c" "mul_const lt c = Some t"
    | (left) c where "bop = Bop_Mul" "as_constant lt = Some c" "mul_const rt c = Some t"
    using assms(1) t by (auto simp: propagate_term_def split: TileBinaryOp.splits option.splits)
  then show ?thesis
  proof cases
    case add
    with term_add_exact [OF add(2) l(1)] dvd_add [OF l(2) r(2)] assms(2) show ?thesis
      by (simp add: exact_value_def algebra_simps)
  next
    case sub
    have "m dvd x - y - (term_val \<rho> lt - term_val \<rho> rt)"
      using dvd_diff [OF l(2) r(2)] by (simp add: algebra_simps)
    moreover have "v = x - y" using assms(2) sub(1) by (simp add: exact_value_def)
    ultimately show ?thesis using term_sub_exact [OF sub(2) l(1) r(1)] by simp
  next
    case right
    with mul_const_exact [OF right(3) l(1)] dvd_products [OF l(2) r(2)] assms(2) as_constant_val [OF right(2), of \<rho>]
    show ?thesis by (simp add: exact_value_def mult.commute)
  next
    case left
    with mul_const_exact [OF left(3) r(1)] dvd_products [OF l(2) r(2)] assms(2) as_constant_val [OF left(2), of \<rho>]
    show ?thesis by (simp add: exact_value_def)
  qed
qed

section \<open>Ranges of terms\<close>

lemma scaled_between:
  fixes c :: int
  assumes "lo \<le> x" and "x \<le> hi"
  shows "min (c * lo) (c * hi) \<le> c * x \<and> c * x \<le> max (c * lo) (c * hi)"
proof (cases "0 \<le> c")
  case True
  then have "c * lo \<le> c * x" "c * x \<le> c * hi" using assms by (simp_all add: mult_left_mono)
  then show ?thesis by (simp add: min_le_iff_disj le_max_iff_disj)
next
  case False
  then have "c * x \<le> c * lo" "c * hi \<le> c * x" using assms by (simp_all add: mult_left_mono_neg)
  then show ?thesis by (simp add: min_le_iff_disj le_max_iff_disj)
qed

lemma term_range_entries_sound:
  assumes env: "\<And>a b. r a = Some b \<Longrightarrow> inside (\<rho> a) b"
  shows "term_range_entries r es lo hi = Some c \<Longrightarrow> in_i64 lo \<Longrightarrow> in_i64 hi \<Longrightarrow> lo \<le> u \<Longrightarrow> u \<le> hi \<Longrightarrow>
    wf_bounds c \<and> inside (u + entries_val \<rho> es) c"
proof (induction es arbitrary: lo hi u)
  case Nil
  then show ?case by (auto simp: wf_bounds_def inside_def)
next
  case (Cons e es)
  obtain a k where e: "e = (a, k)" by fastforce
  from Cons.prems(1) e obtain b lo' hi' where b: "r a = Some b"
    and lo: "checked_add lo (min (k * b_start b) (k * b_end b)) = Some lo'"
    and hi: "checked_add hi (max (k * b_start b) (k * b_end b)) = Some hi'"
    and c: "term_range_entries r es lo' hi' = Some c"
    by (auto simp: checked_mul_def split: option.splits if_splits)
  have "inside (\<rho> a) b" by (rule env [OF b])
  then have k: "min (k * b_start b) (k * b_end b) \<le> k * \<rho> a \<and> k * \<rho> a \<le> max (k * b_start b) (k * b_end b)"
    by (intro scaled_between) (simp_all add: inside_def)
  have l: "in_i64 lo'" "in_i64 hi'" "lo' = lo + min (k * b_start b) (k * b_end b)" "hi' = hi + max (k * b_start b) (k * b_end b)"
    using lo hi by (auto simp: checked_add_def split: if_splits)
  have "lo' \<le> u + k * \<rho> a" "u + k * \<rho> a \<le> hi'" using k l(3,4) Cons.prems(4,5) by linarith+
  from Cons.IH [OF c l(1,2) this] show ?case by (simp add: e algebra_simps)
qed

lemma term_range_sound:
  assumes "term_range t r = Some c" and "wf_term t" and "\<And>a b. r a = Some b \<Longrightarrow> inside (\<rho> a) b"
  shows "wf_bounds c \<and> inside (term_val \<rho> t) c"
  using term_range_entries_sound [where r = r and es = "coeffs t" and lo = "t_constant t" and hi = "t_constant t" and u = "t_constant t", OF assms(3)] assms(1,2)
  by (simp add: term_range_def wf_term_def term_val_def add.commute)

end
