(* ===== verification/LaunchChecks.thy ===== *)
theory LaunchChecks
  imports TermLaws
begin

text \<open>
  The host side of launch-time checks (\<open>cutile/src/tile_kernel.rs\<close>): the launch grid against
  the partitions, and the predicates the compiler moved out of the kernel, evaluated against
  the extents of the launched tensors. An atom that cannot be resolved fails the check.
\<close>

record LaunchCheck =
  lc_predicate :: Predicate
  lc_cause :: string

section \<open>Grids\<close>

type_synonym grid = "nat \<times> nat \<times> nat"

datatype GridBound = GB_Exact grid | GB_AtMost grid

datatype launch_error =
    GridMismatch grid grid
  | GridExceeds grid grid nat
  | GridRequired
  | GridOnlyBounded
  | CheckFailed string
  | CheckUnresolved string

definition validate_grids :: "grid \<Rightarrow> grid list \<Rightarrow> launch_error + unit" where
  "validate_grids g gs =
     (case find (\<lambda>p. p \<noteq> g) gs of
        Some p \<Rightarrow> Inl (GridMismatch g p)
      | None \<Rightarrow> Inr ())"

fun exact_bound_ok :: "grid \<Rightarrow> GridBound \<Rightarrow> unit \<Rightarrow> launch_error + unit" where
  "exact_bound_ok g (GB_Exact e) _ = (if e \<noteq> g then Inl (GridMismatch g e) else Inr ())"
| "exact_bound_ok g (GB_AtMost _) _ = Inr ()"

fun axes :: "grid \<Rightarrow> nat list" where
  "axes (x, y, z) = [x, y, z]"

fun most_bound_ok :: "grid \<Rightarrow> GridBound \<Rightarrow> unit \<Rightarrow> launch_error + unit" where
  "most_bound_ok g (GB_Exact _) _ = Inr ()"
| "most_bound_ok g (GB_AtMost m) _ =
     (case find (\<lambda>k. axes m ! k < axes g ! k) [0, 1, 2] of
        Some k \<Rightarrow> Inl (GridExceeds g m k)
      | None \<Rightarrow> Inr ())"

definition validate_grid_bounds :: "grid \<Rightarrow> GridBound list \<Rightarrow> launch_error + unit" where
  "validate_grid_bounds g bs =
     and_then (for_each (exact_bound_ok g) bs ()) (\<lambda>_. for_each (most_bound_ok g) bs ())"

fun exact_grids :: "GridBound list \<Rightarrow> grid list" where
  "exact_grids [] = []"
| "exact_grids (GB_Exact g # bs) = g # exact_grids bs"
| "exact_grids (GB_AtMost _ # bs) = exact_grids bs"

definition infer_launch_grid :: "grid \<Rightarrow> GridBound list \<Rightarrow> launch_error + grid" where
  "infer_launch_grid g bs =
     (if g \<noteq> (0, 0, 0) then and_then (validate_grid_bounds g bs) (\<lambda>_. Inr g)
      else case exact_grids bs of
        [] \<Rightarrow> Inl (if bs = [] then GridRequired else GridOnlyBounded)
      | e # _ \<Rightarrow> and_then (validate_grid_bounds e bs) (\<lambda>_. Inr e))"

section \<open>Predicates at launch\<close>

record Launch =
  param_shapes :: "int list list"
  view_shapes :: "int list list"
  launch_grid :: grid

definition extent_at :: "int list list \<Rightarrow> nat \<Rightarrow> nat \<Rightarrow> int option" where
  "extent_at shapes p a = (case get_opt shapes p of Some sh \<Rightarrow> get_opt sh a | None \<Rightarrow> None)"

fun resolve_atom :: "Launch \<Rightarrow> Atom \<Rightarrow> int option" where
  "resolve_atom L (Dim p a) = extent_at (param_shapes L) p a"
| "resolve_atom L (ViewExtent p a) = extent_at (view_shapes L) p a"
| "resolve_atom L (TileCount p a t) =
     (if t < 1 then None else map_option (\<lambda>e. (e + t - 1) sdiv t) (extent_at (param_shapes L) p a))"
| "resolve_atom L (NumTileBlocks k) = map_option int (get_opt (axes (launch_grid L)) k)"
| "resolve_atom L (Iv _) = None"
| "resolve_atom L (TileBlockId _) = None"

definition evaluate_launch_check :: "Launch \<Rightarrow> LaunchCheck \<Rightarrow> unit \<Rightarrow> launch_error + unit" where
  "evaluate_launch_check L c _ =
     (case pred_eval (resolve_atom L) (lc_predicate c) of
        Some True \<Rightarrow> Inr ()
      | Some False \<Rightarrow> Inl (CheckFailed (lc_cause c))
      | None \<Rightarrow> Inl (CheckUnresolved (lc_cause c)))"

definition validate_launch_checks :: "Launch \<Rightarrow> LaunchCheck list \<Rightarrow> launch_error + unit" where
  "validate_launch_checks L cs = for_each (evaluate_launch_check L) cs ()"

definition validate_launch :: "Launch \<Rightarrow> GridBound list \<Rightarrow> LaunchCheck list \<Rightarrow> launch_error + unit" where
  "validate_launch L bs cs =
     and_then (validate_grid_bounds (launch_grid L) bs) (\<lambda>_. for_each (evaluate_launch_check L) cs ())"

section \<open>What passing means\<close>

lemma for_each_passes: "for_each f xs () = Inr () \<longleftrightarrow> (\<forall>x \<in> set xs. f x () = Inr ())"
  by (induction xs) (auto simp: and_then_eq_Inr)

definition grid_fits :: "grid \<Rightarrow> GridBound \<Rightarrow> bool" where
  "grid_fits g b \<longleftrightarrow> (case b of GB_Exact e \<Rightarrow> g = e | GB_AtMost m \<Rightarrow> \<forall>k < 3. axes g ! k \<le> axes m ! k)"

lemma bound_checks: "exact_bound_ok g b u = Inr () \<and> most_bound_ok g b u = Inr () \<longleftrightarrow> grid_fits g b"
proof (cases b)
  case (GB_AtMost m)
  have "(\<forall>k < 3. axes g ! k \<le> axes m ! k) \<longleftrightarrow> (\<forall>k \<in> set [0, 1, 2 :: nat]. axes g ! k \<le> axes m ! k)"
    by (auto simp: less_Suc_eq eval_nat_numeral)
  then show ?thesis using GB_AtMost
    by (auto simp: grid_fits_def find_None_iff not_less split: option.splits)
qed (auto simp: grid_fits_def)

lemma validate_grid_bounds_exact: "validate_grid_bounds g bs = Inr () \<longleftrightarrow> (\<forall>b \<in> set bs. grid_fits g b)"
  by (auto simp: validate_grid_bounds_def and_then_eq_Inr for_each_passes bound_checks [symmetric, of _ _ "()"])

text \<open>An inferred grid fits every binding, and is the requested one when there is one.\<close>

lemma infer_launch_grid_fits:
  assumes "infer_launch_grid g bs = Inr h"
  shows "(\<forall>b \<in> set bs. grid_fits h b) \<and> (g \<noteq> (0, 0, 0) \<longrightarrow> h = g) \<and> (g = (0, 0, 0) \<longrightarrow> GB_Exact h \<in> set bs)"
proof (cases "g = (0, 0, 0)")
  case True
  have "exact_grids bs \<noteq> []" using assms True by (auto simp: infer_launch_grid_def)
  then obtain e es where "exact_grids bs = e # es" by (meson neq_Nil_conv)
  moreover have "validate_grid_bounds e bs = Inr () \<and> h = e" if "exact_grids bs = e # es" for e es
    using assms True that by (auto simp: infer_launch_grid_def and_then_eq_Inr)
  ultimately have e: "exact_grids bs = e # es" "validate_grid_bounds e bs = Inr ()" "h = e" by blast+
  from e(1) have "e \<in> set (exact_grids bs)" by simp
  then have "GB_Exact e \<in> set bs" by (induction bs rule: exact_grids.induct) auto
  then show ?thesis using e True by (simp add: validate_grid_bounds_exact)
next
  case False
  then have "validate_grid_bounds g bs = Inr ()" "h = g" using assms by (auto simp: infer_launch_grid_def and_then_eq_Inr)
  then show ?thesis using False by (simp add: validate_grid_bounds_exact)
qed

lemma validate_launch_checks_pass:
  "validate_launch_checks L cs = Inr () \<longleftrightarrow> (\<forall>c \<in> set cs. pred_eval (resolve_atom L) (lc_predicate c) = Some True)"
  unfolding validate_launch_checks_def for_each_passes
  by (auto simp: evaluate_launch_check_def split: option.splits bool.splits)

text \<open>A predicate that passes holds in every valuation that agrees with the launch.\<close>

lemma passed_holds:
  assumes "pred_eval (resolve_atom L) p = Some True" and "agrees (resolve_atom L) \<rho>"
  shows "pred_holds \<rho> p"
  using pred_eval_exact [OF assms] by simp

end
