(* ===== verification/Obligations.thy ===== *)
theory Obligations
  imports ValueFacts LaunchChecks
begin

text \<open>
  The obligation solver (\<open>passes/obligation.rs\<close>) and the part of the function compiler that
  routes obligations (\<open>compiler/_function.rs\<close>, \<open>check_optimizations.rs\<close>). An obligation is
  discharged when the compiler can decide it or believes it, moved to the launch when its
  atoms are known there, and left to the device otherwise.
\<close>

section \<open>The solver\<close>

record Obligation =
  ob_predicate :: Predicate
  ob_cause :: string

datatype Resolution = Res_Jit | Res_Launch LaunchCheck | Res_Device

type_synonym Assumptions = "Predicate set"

definition entails :: "Assumptions \<Rightarrow> Predicate \<Rightarrow> bool" where
  "entails believed p \<longleftrightarrow> p \<in> believed"

definition resolve :: "Obligation \<Rightarrow> Assumptions \<Rightarrow> Resolution" where
  "resolve ob believed =
     (if pred_eval (\<lambda>_. None) (ob_predicate ob) = Some True then Res_Jit
      else if entails believed (ob_predicate ob) then Res_Jit
      else if pred_stage (ob_predicate ob) \<le> Launch
      then Res_Launch \<lparr>lc_predicate = ob_predicate ob, lc_cause = ob_cause ob\<rparr>
      else Res_Device)"

section \<open>Declared preconditions\<close>

datatype MetadataExpr = MDim string nat

datatype MetadataFact = DimEq MetadataExpr MetadataExpr | DimDivisible string nat int

definition insert_opt :: "'a option \<Rightarrow> 'a set \<Rightarrow> 'a set" where
  "insert_opt x s = (case x of Some y \<Rightarrow> insert y s | None \<Rightarrow> s)"

fun believe :: "(string \<Rightarrow> nat option) \<Rightarrow> MetadataFact \<Rightarrow> Assumptions \<Rightarrow> Assumptions" where
  "believe params (DimEq (MDim lt la) (MDim rt ra)) believed =
     (case (params lt, params rt) of
        (Some lp, Some rp) \<Rightarrow> insert_opt (pred_eq (term_atom (Dim lp la)) (term_atom (Dim rp ra))) believed
      | _ \<Rightarrow> believed)"
| "believe params (DimDivisible tensor axis d) believed =
     (case params tensor of
        Some p \<Rightarrow> insert_opt (pred_divisible_by (term_atom (Dim p axis)) d) believed
      | None \<Rightarrow> believed)"

definition from_preconditions :: "MetadataFact list \<Rightarrow> (string \<Rightarrow> nat option) \<Rightarrow> Assumptions" where
  "from_preconditions facts params = fold (believe params) facts {}"

section \<open>The function compiler\<close>

record CheckOptimizations =
  hoist_to_preheaders :: bool
  relocate_to_launch :: bool
  discharge_proofs :: bool

definition release :: CheckOptimizations where
  "release = \<lparr>hoist_to_preheaders = True, relocate_to_launch = True, discharge_proofs = True\<rparr>"

definition device_debug :: CheckOptimizations where
  "device_debug = \<lparr>hoist_to_preheaders = False, relocate_to_launch = True, discharge_proofs = True\<rparr>"

definition disabled :: CheckOptimizations where
  "disabled = \<lparr>hoist_to_preheaders = False, relocate_to_launch = False, discharge_proofs = False\<rparr>"

text \<open>The policy of a compile, from the variables of the process environment.\<close>

definition from_env :: "(string \<Rightarrow> string option) \<Rightarrow> CheckOptimizations" where
  "from_env env =
     (let flag = (\<lambda>name. env name = Some ''1'') in
      if flag ''CUTILE_FORCE_DEVICE_CHECKS'' then disabled
      else release\<lparr>hoist_to_preheaders := \<not> flag ''CUTILE_DISABLE_CHECK_HOISTING''\<rparr>)"

datatype ValidParamType = VP_Scalar string | VP_Pointer bool string | VP_Tensor string "int list"

text \<open>What the checks read of the compiler, the launch checks it collects, and its counters.\<close>

record FnCompiler =
  check_opts :: CheckOptimizations
  assumptions :: Assumptions
  param_index :: "string \<Rightarrow> nat option"
  param_is_mutable :: "bool list"
  valid_params :: "ValidParamType list"
  launch_checks :: "LaunchCheck list"
  deny_in_kernel_checks :: bool
  discharged :: nat
  hoisted :: nat
  in_place :: nat

definition lower_obligation :: "Predicate \<Rightarrow> string \<Rightarrow> FnCompiler \<Rightarrow> bool \<times> FnCompiler" where
  "lower_obligation p cause fc =
     (case resolve \<lparr>ob_predicate = p, ob_cause = cause\<rparr> (assumptions fc) of
        Res_Jit \<Rightarrow> (True, fc)
      | Res_Launch c \<Rightarrow>
          (True, if \<exists>k \<in> set (launch_checks fc). lc_predicate k = lc_predicate c then fc
                 else fc\<lparr>launch_checks := launch_checks fc @ [c]\<rparr>)
      | Res_Device \<Rightarrow> (False, fc))"

definition extent_atom :: "FnCompiler \<Rightarrow> nat \<Rightarrow> nat \<Rightarrow> Atom" where
  "extent_atom fc p a =
     (if (case get_opt (param_is_mutable fc) p of Some mt \<Rightarrow> mt | None \<Rightarrow> True) then ViewExtent p a else Dim p a)"

definition root_framed_param :: "FnCompiler \<Rightarrow> string \<Rightarrow> nat option" where
  "root_framed_param fc tensor =
     (case param_index fc tensor of
        Some p \<Rightarrow> (case extent_atom fc p 0 of Dim _ _ \<Rightarrow> Some p | _ \<Rightarrow> None)
      | None \<Rightarrow> None)"

definition dim_text :: "string \<Rightarrow> nat \<Rightarrow> string" where
  "dim_text tensor axis = ''dim('' @ tensor @ '', '' @ show_nat axis @ '')''"

definition resolve_dim_eq :: "string \<Rightarrow> nat \<Rightarrow> string \<Rightarrow> nat \<Rightarrow> FnCompiler \<Rightarrow> bool \<times> FnCompiler" where
  "resolve_dim_eq at aa bt ba fc =
     (case (param_index fc at, param_index fc bt) of
        (Some ap, Some bp) \<Rightarrow>
          (case pred_eq (term_atom (Dim ap aa)) (term_atom (Dim bp ba)) of
             Some p \<Rightarrow> lower_obligation p (dim_text at aa @ '' == '' @ dim_text bt ba) fc
           | None \<Rightarrow> (False, fc))
      | _ \<Rightarrow> (False, fc))"

definition resolve_dim_le :: "string \<Rightarrow> nat \<Rightarrow> string \<Rightarrow> nat \<Rightarrow> int \<Rightarrow> FnCompiler \<Rightarrow> bool \<times> FnCompiler" where
  "resolve_dim_le at aa bt ba tile fc =
     (case (param_index fc at, param_index fc bt) of
        (Some ap, Some bp) \<Rightarrow>
          if (case pred_eq (term_atom (Dim ap aa)) (term_atom (Dim bp ba)) of
                Some eq \<Rightarrow> resolve \<lparr>ob_predicate = eq, ob_cause = []\<rparr> (assumptions fc) = Res_Jit
              | None \<Rightarrow> False)
          then (True, fc)
          else if \<not> relocate_to_launch (check_opts fc) then (False, fc)
          else if tile < 1 then (False, fc)
          else (case pred_le (term_atom (TileCount ap aa tile)) (term_atom (TileCount bp ba tile)) of
             None \<Rightarrow> (False, fc)
           | Some le \<Rightarrow> lower_obligation le
               (''ceil('' @ dim_text at aa @ ''/'' @ show_int tile @ '') <= ceil('' @ dim_text bt ba @ ''/'' @
                show_int tile @ '')'') fc)
      | _ \<Rightarrow> (False, fc))"

definition declared_view_extent :: "FnCompiler \<Rightarrow> TileRustValue \<Rightarrow> int list \<Rightarrow> nat \<Rightarrow> int option" where
  "declared_view_extent fc part dim_map axis =
     (case get_opt dim_map axis of
        None \<Rightarrow> None
      | Some d \<Rightarrow>
          if d < 0 then None
          else case tv_tensor_origin part of
            None \<Rightarrow> None
          | Some name \<Rightarrow> (case param_index fc name of
              None \<Rightarrow> None
            | Some i \<Rightarrow> (case get_opt (valid_params fc) i of
                Some (VP_Tensor _ shape) \<Rightarrow>
                  (case get_opt shape (nat d) of
                     Some e \<Rightarrow> if 0 \<le> e then Some e else None
                   | None \<Rightarrow> None)
              | _ \<Rightarrow> None)))"

section \<open>Soundness of the solver\<close>

definition believed_hold :: "valuation \<Rightarrow> FnCompiler \<Rightarrow> bool" where
  "believed_hold \<rho> fc \<longleftrightarrow> (\<forall>p \<in> assumptions fc. pred_holds \<rho> p)"

definition checks_hold :: "valuation \<Rightarrow> FnCompiler \<Rightarrow> bool" where
  "checks_hold \<rho> fc \<longleftrightarrow> (\<forall>c \<in> set (launch_checks fc). pred_holds \<rho> (lc_predicate c))"

text \<open>A step of the compiler only adds launch checks.\<close>

definition checks_grow :: "FnCompiler \<Rightarrow> FnCompiler \<Rightarrow> bool" where
  "checks_grow fc fc' \<longleftrightarrow> (\<exists>cs. launch_checks fc' = launch_checks fc @ cs) \<and> fc' = fc\<lparr>launch_checks := launch_checks fc'\<rparr>"

lemma checks_grow_refl [simp]: "checks_grow fc fc"
  by (simp add: checks_grow_def)

lemma checks_hold_back: "checks_grow fc fc' \<Longrightarrow> checks_hold \<rho> fc' \<Longrightarrow> checks_hold \<rho> fc"
  by (auto simp: checks_grow_def checks_hold_def)

lemma resolve_jit_sound:
  assumes "resolve ob believed = Res_Jit" and "\<forall>p \<in> believed. pred_holds \<rho> p"
  shows "pred_holds \<rho> (ob_predicate ob)"
proof -
  have "agrees (\<lambda>_. None) \<rho>" by (simp add: agrees_def)
  with assms show ?thesis using pred_eval_exact
    by (auto simp: resolve_def entails_def split: if_splits)
qed

lemma lower_obligation_grows: "lower_obligation p cause fc = (b, fc') \<Longrightarrow> checks_grow fc fc'"
  by (auto simp: lower_obligation_def checks_grow_def split: Resolution.splits if_splits)

lemma lower_obligation_sound:
  assumes "lower_obligation p cause fc = (True, fc')" and "believed_hold \<rho> fc" and "checks_hold \<rho> fc'"
  shows "pred_holds \<rho> p"
proof (cases "resolve \<lparr>ob_predicate = p, ob_cause = cause\<rparr> (assumptions fc)")
  case Res_Jit
  from resolve_jit_sound [OF this] assms(2) show ?thesis by (simp add: believed_hold_def)
next
  case (Res_Launch c)
  then have "lc_predicate c = p" by (auto simp: resolve_def split: if_splits)
  moreover have "\<exists>k \<in> set (launch_checks fc'). lc_predicate k = lc_predicate c"
    using assms(1) Res_Launch by (auto simp: lower_obligation_def split: if_splits)
  ultimately show ?thesis using assms(3) by (auto simp: checks_hold_def)
next
  case Res_Device
  then show ?thesis using assms(1) by (simp add: lower_obligation_def)
qed

text \<open>The launch checks the launcher accepted hold.\<close>

lemma validated_hold:
  assumes "validate_launch_checks L (launch_checks fc) = Inr ()" and "agrees (resolve_atom L) \<rho>"
  shows "checks_hold \<rho> fc"
  using assms passed_holds by (auto simp: validate_launch_checks_pass checks_hold_def)

text \<open>A check moved to the launch reads only atoms the launcher can resolve.\<close>

lemma resolve_launch_atoms:
  assumes "resolve ob believed = Res_Launch c"
  shows "pred_stage (lc_predicate c) \<le> Launch"
  using assms by (auto simp: resolve_def split: if_splits)

section \<open>Soundness of the declared facts\<close>

text \<open>What the generated launcher verifies of a declared precondition.\<close>

fun fact_holds :: "valuation \<Rightarrow> (string \<Rightarrow> nat option) \<Rightarrow> MetadataFact \<Rightarrow> bool" where
  "fact_holds \<rho> params (DimEq (MDim lt la) (MDim rt ra)) \<longleftrightarrow>
     (\<forall>lp rp. params lt = Some lp \<longrightarrow> params rt = Some rp \<longrightarrow> \<rho> (Dim lp la) = \<rho> (Dim rp ra))"
| "fact_holds \<rho> params (DimDivisible t a d) \<longleftrightarrow>
     in_i64 d \<and> (\<forall>p. params t = Some p \<longrightarrow> d dvd \<rho> (Dim p a))"

lemma believe_sound:
  assumes "fact_holds \<rho> params f" and "\<forall>p \<in> believed. pred_holds \<rho> p"
  shows "\<forall>p \<in> believe params f believed. pred_holds \<rho> p"
proof (cases f)
  case (DimEq l r)
  obtain lt la rt ra where "l = MDim lt la" "r = MDim rt ra" by (cases l; cases r)
  then show ?thesis using assms DimEq pred_eq_holds
    by (auto simp: insert_opt_def split: option.splits)
next
  case (DimDivisible t a d)
  then show ?thesis using assms pred_divisible_by_holds
    by (auto simp: insert_opt_def split: option.splits)
qed

lemma from_preconditions_sound:
  assumes "\<forall>f \<in> set facts. fact_holds \<rho> params f"
  shows "\<forall>p \<in> from_preconditions facts params. pred_holds \<rho> p"
proof -
  have "\<forall>p \<in> fold (believe params) facts B. pred_holds \<rho> p" if "\<forall>p \<in> B. pred_holds \<rho> p" for B
    using that assms
  proof (induction facts arbitrary: B)
    case Nil
    then show ?case by simp
  next
    case (Cons f fs)
    from Cons.prems have "\<forall>p \<in> believe params f B. pred_holds \<rho> p" by (intro believe_sound) simp_all
    then have "\<forall>p \<in> fold (believe params) fs (believe params f B). pred_holds \<rho> p"
      by (rule Cons.IH) (use Cons.prems in simp)
    then show ?case by simp
  qed
  from this [of "{}"] show ?thesis by (simp add: from_preconditions_def)
qed

end
