(* ===== verification/AccessChecks.thy ===== *)
theory AccessChecks
  imports Obligations
begin

text \<open>
  The check of one coordinate of a partition access (\<open>compiler/checks/goals.rs\<close> and the
  per-axis ladder of \<open>compiler/checks/mod.rs\<close>). With \<open>t\<close> the tile extent and \<open>e\<close> the extent of
  the tensor axis, a coordinate \<open>i\<close> is safe when \<open>0 \<le> i\<close> and \<open>i * t < e\<close>. The ladder tries the
  proofs in turn; every proof that decides the pair is shown to imply it.
\<close>

section \<open>Goals\<close>

record AxisGoals =
  g_axis :: nat
  g_extent_axis :: nat
  g_tile :: int
  g_static_extent :: "int option"
  g_index :: TileRustValue

record StaticViolation =
  sv_min :: int
  sv_max :: int
  sv_num_tiles :: int

datatype Brand = Matched | Foreign

definition brand_of :: "AxisGoals \<Rightarrow> DimOrigin \<Rightarrow> Brand option" where
  "brand_of g bound_origin =
     (case tv_index_origin (g_index g) of
        Some origin \<Rightarrow> Some (if origin = bound_origin then Matched else Foreign)
      | None \<Rightarrow> None)"

definition fold_static :: "AxisGoals \<Rightarrow> 'e fault + (StaticViolation + unit) option" where
  "fold_static g =
     (case (tv_bounds (g_index g), g_static_extent g) of
        (Some b, Some extent) \<Rightarrow>
          if g_tile g = 0 then Inl Panic
          else let num_tiles = (extent + g_tile g - 1) sdiv g_tile g in
            Inr (Some (if 0 \<le> b_start b \<and> b_end b < num_tiles then Inr ()
                       else Inl \<lparr>sv_min = b_start b, sv_max = b_end b, sv_num_tiles = num_tiles\<rparr>))
      | _ \<Rightarrow> Inr None)"

definition form_axis_goals ::
  "FnCompiler \<Rightarrow> TileRustValue \<Rightarrow> int list \<Rightarrow> int list \<Rightarrow> int list \<Rightarrow> nat \<Rightarrow> TileRustValue \<Rightarrow> 'e fault + AxisGoals" where
  "form_axis_goals fc part static_tile static_shape dim_map axis idx =
     and_then (index dim_map axis) (\<lambda>d.
     and_then (if d < 0 then Inl Panic else index static_shape (nat d)) (\<lambda>extent.
     and_then (index static_tile axis) (\<lambda>tile.
       Inr \<lparr>g_axis = axis, g_extent_axis = nat d, g_tile = tile,
            g_static_extent = (if extent = -1 then declared_view_extent fc part dim_map axis else Some extent),
            g_index = idx\<rparr>)))"

section \<open>Proof sources\<close>

definition discharge_by_axis_provenance :: "AxisGoals \<Rightarrow> TileRustValue \<Rightarrow> FnCompiler \<Rightarrow> bool \<times> FnCompiler" where
  "discharge_by_axis_provenance g part fc =
     (let (settled, fc1) =
        (case (tv_partition_axis_origin (g_index g), tv_tensor_origin part) of
           (Some origin, Some target) \<Rightarrow>
             if pa_tile_dim origin = g_tile g \<and> root_framed_param fc target \<noteq> None
             then resolve_dim_le (pa_tensor origin) (pa_axis origin) target (g_extent_axis g) (g_tile g) fc
             else (False, fc)
         | _ \<Rightarrow> (False, fc))
      in if settled then (True, fc1)
         else (case (tv_index_origin (g_index g), tv_value part) of
             (Some (PartitionAxis view axis tile_dim), Some partition_view) \<Rightarrow>
               (view = partition_view \<and> axis = g_axis g \<and> tile_dim = g_tile g, fc1)
           | _ \<Rightarrow> (False, fc1)))"

definition bare_block_id :: "Term \<Rightarrow> nat option" where
  "bare_block_id t =
     (if t_constant t \<noteq> 0 then None
      else case coeffs t of
        [(TileBlockId k, c)] \<Rightarrow> if c = 1 then Some k else None
      | _ \<Rightarrow> None)"

definition discharge_by_block_id_axiom :: "AxisGoals \<Rightarrow> TileRustValue \<Rightarrow> FnCompiler \<Rightarrow> bool \<times> FnCompiler" where
  "discharge_by_block_id_axiom g part fc =
     (case Option.bind (tv_term (g_index g)) bare_block_id of
        None \<Rightarrow> (False, fc)
      | Some k \<Rightarrow> (case tv_tensor_origin part of
          None \<Rightarrow> (False, fc)
        | Some tensor \<Rightarrow> (case param_index fc tensor of
            None \<Rightarrow> (False, fc)
          | Some p \<Rightarrow>
              (case (mul_const (term_atom (NumTileBlocks k)) (g_tile g),
                     term_add (term_atom (extent_atom fc p (g_extent_axis g))) (term_constant (g_tile g - 1))) of
                 (Some lhs, Some rhs) \<Rightarrow>
                   (case pred_le lhs rhs of
                      None \<Rightarrow> (False, fc)
                    | Some le \<Rightarrow> lower_obligation le
                        (''num_tile_blocks('' @ show_nat k @ '') <= ceil(extent('' @ tensor @ '', '' @
                         show_nat (g_extent_axis g) @ '')/'' @ show_int (g_tile g) @ '')'') fc)
               | _ \<Rightarrow> (False, fc)))))"

definition hoist_zero_coordinate_nonempty_extent ::
  "AxisGoals \<Rightarrow> TileRustValue \<Rightarrow> FnCompiler \<Rightarrow> bool \<times> FnCompiler" where
  "hoist_zero_coordinate_nonempty_extent g part fc =
     (if g_static_extent g \<noteq> None then (False, fc)
      else case tv_bounds (g_index g) of
        None \<Rightarrow> (False, fc)
      | Some b \<Rightarrow>
          if \<not> (b_start b = 0 \<and> b_end b = 0) then (False, fc)
          else case tv_tensor_origin part of
            None \<Rightarrow> (False, fc)
          | Some tensor \<Rightarrow> (case param_index fc tensor of
              None \<Rightarrow> (False, fc)
            | Some p \<Rightarrow> lower_obligation (pred_nonzero (term_atom (extent_atom fc p (g_extent_axis g))))
                (''partition access on axis '' @ show_nat (g_extent_axis g) @ '' of `'' @ tensor @
                 ''` requires a non-empty extent'') fc))"

definition resolve_dynamic_extent ::
  "AxisGoals \<Rightarrow> int list \<Rightarrow> TileRustValue list \<Rightarrow> string fault + TileRustValue" where
  "resolve_dynamic_extent g static_shape shape_dims =
     (let n = length (filter (\<lambda>d. d = -1) (take (g_extent_axis g + 1) static_shape)) in
      if n = 0
      then Inl (Err ''internal: dynamic partition dimension was not found in tensor shape metadata'')
      else ok_or (''internal: tensor shape metadata is missing dynamic dimension '' @ show_nat (n - 1))
             (get_opt shape_dims (n - 1)))"

section \<open>The ladder\<close>

definition count_discharged :: "FnCompiler \<Rightarrow> FnCompiler" where
  "count_discharged fc = fc\<lparr>discharged := discharged fc + 1\<rparr>"

text \<open>
  The proofs on one axis of a plain access. \<open>True\<close> says that the pair is decided, \<open>False\<close> that it
  is left to a check in the kernel.
\<close>

definition plain_axis :: "AxisGoals \<Rightarrow> TileRustValue \<Rightarrow> FnCompiler \<Rightarrow> string fault + bool \<times> FnCompiler" where
  "plain_axis g part fc =
     (let zero = (\<lambda>fc.
        let (b, fc') = (if relocate_to_launch (check_opts fc)
                        then hoist_zero_coordinate_nonempty_extent g part fc else (False, fc))
        in if b then Inr (True, count_discharged fc') else Inr (False, fc'))
      in if \<not> discharge_proofs (check_opts fc) then zero fc
         else let (b1, fc1) = discharge_by_axis_provenance g part fc in
           if b1 then Inr (True, count_discharged fc1)
           else and_then (fold_static g) (\<lambda>folded. case folded of
               Some (Inr _) \<Rightarrow> Inr (True, count_discharged fc1)
             | Some (Inl v) \<Rightarrow> Inl (Err (''Bounds check failed: 0 <= '' @ show_int (sv_min v) @ '' && '' @
                 show_int (sv_max v) @ '' < '' @ show_int (sv_num_tiles v)))
             | None \<Rightarrow>
                 let (b2, fc2) = discharge_by_block_id_axiom g part fc1 in
                 if b2 then Inr (True, count_discharged fc2) else zero fc2))"

text \<open>The proofs on one axis of a bounded access. What they do not decide is a compile error.\<close>

definition bounded_axis :: "AxisGoals \<Rightarrow> DimOrigin \<Rightarrow> TileRustValue \<Rightarrow> FnCompiler \<Rightarrow> string fault + FnCompiler" where
  "bounded_axis g bound_origin part fc =
     (let site = ''bounded partition coordinate axis '' @ show_nat (g_axis g) in
      case brand_of g bound_origin of
        Some Matched \<Rightarrow> Inr (count_discharged fc)
      | Some Foreign \<Rightarrow> Inl (Err (site @ '' was produced by a different dimension''))
      | None \<Rightarrow> and_then (fold_static g) (\<lambda>folded. case folded of
            Some (Inr _) \<Rightarrow> Inr (count_discharged fc)
          | Some (Inl v) \<Rightarrow> Inl (Err (site @ '': constant range ['' @ show_int (sv_min v) @ '', '' @
              show_int (sv_max v) @ ''] is not within the '' @ show_int (sv_num_tiles v) @ ''-tile grid''))
          | None \<Rightarrow>
              let (b, fc') = hoist_zero_coordinate_nonempty_extent g part fc in
              if b then Inr (count_discharged fc')
              else Inl (Err (site @ '' must come from iterating the matching dimension or be a constant within the axis's static tile grid''))))"

fun bounded_axes_from ::
  "TileRustValue \<Rightarrow> int list \<Rightarrow> int list \<Rightarrow> int list \<Rightarrow> nat \<Rightarrow> (TileRustValue \<times> DimOrigin) list \<Rightarrow>
   FnCompiler \<Rightarrow> string fault + FnCompiler" where
  "bounded_axes_from part static_tile static_shape dim_map axis [] fc = Inr fc"
| "bounded_axes_from part static_tile static_shape dim_map axis ((coord, bound_origin) # rest) fc =
     and_then (form_axis_goals fc part static_tile static_shape dim_map axis coord) (\<lambda>g.
     and_then (bounded_axis g bound_origin part fc) (\<lambda>fc'.
       bounded_axes_from part static_tile static_shape dim_map (axis + 1) rest fc'))"

definition check_bounded_partition_access ::
  "TileRustValue \<Rightarrow> int list \<times> int list \<times> int list \<Rightarrow> TileRustValue list \<Rightarrow> FnCompiler \<Rightarrow> string fault + FnCompiler" where
  "check_bounded_partition_access part geometry coords fc =
     (case tv_bounded_axes part of
        None \<Rightarrow> Inl (Err ''bounded partition load requires bounds established by `Partition::with_bounds`'')
      | Some bound_axes \<Rightarrow>
          if length coords \<noteq> length bound_axes
          then Inl (Err (''coordinate rank '' @ show_nat (length coords) @
                 '' does not match bounded partition rank '' @ show_nat (length bound_axes)))
          else (case geometry of (static_tile, static_shape, dim_map) \<Rightarrow>
            bounded_axes_from part static_tile static_shape dim_map 0 (zip coords bound_axes) fc))"

section \<open>What the facts say of a run\<close>

text \<open>
  A valuation gives every atom its value in one thread block of one launch. Extents are not
  negative, a tile count is the rounded-up quotient, and a block id is below the grid.
\<close>

definition execution_model :: "valuation \<Rightarrow> bool" where
  "execution_model \<rho> \<longleftrightarrow>
     (\<forall>p a. 0 \<le> \<rho> (Dim p a) \<and> 0 \<le> \<rho> (ViewExtent p a)) \<and>
     (\<forall>p a t. 1 \<le> t \<longrightarrow> \<rho> (TileCount p a t) = (\<rho> (Dim p a) + t - 1) div t) \<and>
     (\<forall>k. 0 \<le> \<rho> (TileBlockId k) \<and> \<rho> (TileBlockId k) < \<rho> (NumTileBlocks k) \<and> \<rho> (TileBlockId k) < 2 ^ 31)"

text \<open>What the recorded facts mean for the run-time value \<open>i\<close> of the coordinate.\<close>

definition coord_ok :: "valuation \<Rightarrow> FnCompiler \<Rightarrow> AxisGoals \<Rightarrow> TileRustValue \<Rightarrow> int \<Rightarrow> int \<Rightarrow> bool" where
  "coord_ok \<rho> fc g part i e \<longleftrightarrow>
     - (2 ^ 31) \<le> i \<and> i < 2 ^ 31 \<and> bounds_ok (g_index g) i \<and> term_ok (2 ^ 32) \<rho> (g_index g) i \<and>
     (\<forall>origin p. tv_partition_axis_origin (g_index g) = Some origin \<longrightarrow> param_index fc (pa_tensor origin) = Some p \<longrightarrow>
        0 \<le> i \<and> i < \<rho> (TileCount p (pa_axis origin) (pa_tile_dim origin))) \<and>
     (\<forall>view t. tv_index_origin (g_index g) = Some (PartitionAxis view (g_axis g) t) \<longrightarrow> tv_value part = Some view \<longrightarrow>
        0 \<le> i \<and> i < (e + t - 1) div t)"

text \<open>What the goals say of the extent \<open>e\<close> that the kernel sees.\<close>

definition extent_ok :: "valuation \<Rightarrow> FnCompiler \<Rightarrow> AxisGoals \<Rightarrow> TileRustValue \<Rightarrow> int \<Rightarrow> bool" where
  "extent_ok \<rho> fc g part e \<longleftrightarrow>
     0 \<le> e \<and> (\<forall>s. g_static_extent g = Some s \<longrightarrow> e = s) \<and>
     (\<forall>tensor p. tv_tensor_origin part = Some tensor \<longrightarrow> param_index fc tensor = Some p \<longrightarrow>
        e = \<rho> (extent_atom fc p (g_extent_axis g)))"

definition in_bounds :: "int \<Rightarrow> int \<Rightarrow> int \<Rightarrow> bool" where
  "in_bounds i t e \<longleftrightarrow> 0 \<le> i \<and> i * t < e"

lemma below_tiles:
  assumes "1 \<le> (t::int)"
  shows "i < (e + t - 1) div t \<longleftrightarrow> i * t < e"
proof -
  let ?q = "(e + t - 1) div t"
  have r: "e + t - 1 = ?q * t + (e + t - 1) mod t" "0 \<le> (e + t - 1) mod t" "(e + t - 1) mod t < t"
    using assms by (simp_all add: div_mult_mod_eq)
  show ?thesis
  proof (cases "i < ?q")
    case True
    then have "(i + 1) * t \<le> ?q * t" using assms by (intro mult_right_mono) linarith+
    moreover have "(i + 1) * t = i * t + t" by (simp add: algebra_simps)
    ultimately have "i * t < e" using r by linarith
    with True show ?thesis by simp
  next
    case False
    then have "?q * t \<le> i * t" using assms by (intro mult_right_mono) linarith+
    then have "\<not> i * t < e" using r by linarith
    with False show ?thesis by simp
  qed
qed

section \<open>Each proof implies the pair of goals\<close>

text \<open>A proof source is sound when its positive answer implies the goals, and it only adds checks.\<close>

locale proof_source =
  fixes rung :: "AxisGoals \<Rightarrow> TileRustValue \<Rightarrow> FnCompiler \<Rightarrow> bool \<times> FnCompiler"
  assumes grows: "rung g part fc = (b, fc') \<Longrightarrow> checks_grow fc fc'"
    and sound: "rung g part fc = (True, fc') \<Longrightarrow> believed_hold \<rho> fc \<Longrightarrow> checks_hold \<rho> fc' \<Longrightarrow>
      execution_model \<rho> \<Longrightarrow> 1 \<le> g_tile g \<Longrightarrow> coord_ok \<rho> fc g part i e \<Longrightarrow> extent_ok \<rho> fc g part e \<Longrightarrow>
      in_bounds i (g_tile g) e"
begin

text \<open>The answer does not depend on what later rungs add, and the assumptions stay.\<close>

lemma keeps: "rung g part fc = (b, fc') \<Longrightarrow>
  coord_ok \<rho> fc' g part i e = coord_ok \<rho> fc g part i e \<and> extent_ok \<rho> fc' g part e = extent_ok \<rho> fc g part e \<and>
  believed_hold \<rho> fc' = believed_hold \<rho> fc \<and> check_opts fc' = check_opts fc"
proof -
  assume "rung g part fc = (b, fc')"
  from grows [OF this] have "fc' = fc\<lparr>launch_checks := launch_checks fc'\<rparr>" by (simp add: checks_grow_def)
  then obtain cs where "fc' = fc\<lparr>launch_checks := cs\<rparr>" by blast
  then show ?thesis by (simp add: coord_ok_def extent_ok_def believed_hold_def extent_atom_def)
qed

end

lemma resolve_dim_le_grows: "resolve_dim_le at aa bt ba t fc = (b, fc') \<Longrightarrow> checks_grow fc fc'"
  by (auto simp: resolve_dim_le_def lower_obligation_grows split: option.splits if_splits)

lemma resolve_dim_le_sound:
  assumes "resolve_dim_le at aa bt ba t fc = (True, fc')" and "believed_hold \<rho> fc" and "checks_hold \<rho> fc'"
    and "execution_model \<rho>" and "1 \<le> t"
  shows "\<exists>ap bp. param_index fc at = Some ap \<and> param_index fc bt = Some bp \<and>
    \<rho> (TileCount ap aa t) \<le> \<rho> (TileCount bp ba t)"
proof -
  obtain ap bp where p: "param_index fc at = Some ap" "param_index fc bt = Some bp"
    using assms(1) by (auto simp: resolve_dim_le_def split: option.splits)
  consider eq where "pred_eq (term_atom (Dim ap aa)) (term_atom (Dim bp ba)) = Some eq"
      "resolve \<lparr>ob_predicate = eq, ob_cause = []\<rparr> (assumptions fc) = Res_Jit"
    | le cause where "pred_le (term_atom (TileCount ap aa t)) (term_atom (TileCount bp ba t)) = Some le"
      "lower_obligation le cause fc = (True, fc')"
    using assms(1) p by (auto simp: resolve_dim_le_def split: option.splits if_splits)
  then have "\<rho> (TileCount ap aa t) \<le> \<rho> (TileCount bp ba t)"
  proof cases
    case 1
    from resolve_jit_sound [OF 1(2), of \<rho>] assms(2) have "pred_holds \<rho> eq" by (simp add: believed_hold_def)
    then have "\<rho> (Dim ap aa) = \<rho> (Dim bp ba)" using pred_eq_holds [OF 1(1)] by simp
    then show ?thesis using assms(4,5) by (simp add: execution_model_def)
  next
    case 2
    from lower_obligation_sound [OF 2(2) assms(2,3)] show ?thesis using pred_le_holds [OF 2(1)] by simp
  qed
  with p show ?thesis by blast
qed

lemma root_framed_extent: "root_framed_param fc tensor = Some p \<Longrightarrow> param_index fc tensor = Some p \<and> extent_atom fc p a = Dim p a"
  by (auto simp: root_framed_param_def extent_atom_def split: option.splits if_splits)

lemma provenance_grows: "discharge_by_axis_provenance g part fc = (b, fc') \<Longrightarrow> checks_grow fc fc'"
  by (auto simp: discharge_by_axis_provenance_def Let_def resolve_dim_le_grows
      split: option.splits if_splits prod.splits DimOrigin.splits)

lemma provenance_cases:
  assumes "discharge_by_axis_provenance g part fc = (True, fc')"
  obtains origin target where "tv_partition_axis_origin (g_index g) = Some origin" "tv_tensor_origin part = Some target"
      "pa_tile_dim origin = g_tile g" "root_framed_param fc target \<noteq> None"
      "resolve_dim_le (pa_tensor origin) (pa_axis origin) target (g_extent_axis g) (g_tile g) fc = (True, fc')"
    | view where "tv_index_origin (g_index g) = Some (PartitionAxis view (g_axis g) (g_tile g))" "tv_value part = Some view"
  using assms
  by (auto simp: discharge_by_axis_provenance_def Let_def split: option.splits if_splits prod.splits DimOrigin.splits)

lemma provenance_sound:
  assumes "discharge_by_axis_provenance g part fc = (True, fc')" and "believed_hold \<rho> fc" and "checks_hold \<rho> fc'"
    and "execution_model \<rho>" and t: "1 \<le> g_tile g" and i: "coord_ok \<rho> fc g part i e" and e: "extent_ok \<rho> fc g part e"
  shows "in_bounds i (g_tile g) e"
  using assms(1)
proof (cases rule: provenance_cases)
  case (1 origin target)
  from resolve_dim_le_sound [OF 1(5) assms(2,3,4) t] obtain ap bp where
    p: "param_index fc (pa_tensor origin) = Some ap" "param_index fc target = Some bp"
      "\<rho> (TileCount ap (pa_axis origin) (g_tile g)) \<le> \<rho> (TileCount bp (g_extent_axis g) (g_tile g))" by blast
  have "0 \<le> i" "i < \<rho> (TileCount ap (pa_axis origin) (g_tile g))" using i p(1) 1(1,3) by (auto simp: coord_ok_def)
  moreover have "e = \<rho> (Dim bp (g_extent_axis g))"
  proof -
    from 1(4) obtain q where "root_framed_param fc target = Some q" by blast
    with root_framed_extent p(2) have "extent_atom fc bp (g_extent_axis g) = Dim bp (g_extent_axis g)" by fastforce
    with e p(2) 1(2) show ?thesis by (simp add: extent_ok_def)
  qed
  ultimately show ?thesis using p(3) assms(4) t below_tiles [OF t, of i e]
    by (simp add: in_bounds_def execution_model_def)
next
  case (2 view)
  then show ?thesis using i below_tiles [OF t] by (auto simp: coord_ok_def in_bounds_def)
qed

lemma block_id_grows: "discharge_by_block_id_axiom g part fc = (b, fc') \<Longrightarrow> checks_grow fc fc'"
  by (auto simp: discharge_by_block_id_axiom_def lower_obligation_grows split: option.splits)

lemma block_id_cases:
  assumes "discharge_by_block_id_axiom g part fc = (True, fc')"
  obtains t k tensor p lhs rhs le cause where "tv_term (g_index g) = Some t" "bare_block_id t = Some k"
    "tv_tensor_origin part = Some tensor" "param_index fc tensor = Some p"
    "mul_const (term_atom (NumTileBlocks k)) (g_tile g) = Some lhs"
    "term_add (term_atom (extent_atom fc p (g_extent_axis g))) (term_constant (g_tile g - 1)) = Some rhs"
    "pred_le lhs rhs = Some le" "lower_obligation le cause fc = (True, fc')"
  using assms by (auto simp: discharge_by_block_id_axiom_def bind_eq_Some_conv split: option.splits)

text \<open>A term that is the bare register is the register, for the machine value and both lie in the type.\<close>

lemma bare_block_id_val: "bare_block_id t = Some k \<Longrightarrow> term_val \<rho> t = \<rho> (TileBlockId k)"
  by (auto simp: bare_block_id_def term_val_def split: if_splits list.splits prod.splits Atom.splits)

lemma congruent_eq:
  assumes "(2::int) ^ 32 dvd x - y" and "- (2 ^ 31) \<le> x" "x < 2 ^ 31" and "0 \<le> y" "y < 2 ^ 31"
  shows "x = y"
proof -
  have "\<bar>x - y\<bar> < 2 ^ 32" using assms(2-5) by (simp add: abs_less_iff)
  with assms(1) show ?thesis using zdvd_imp_le [of "2 ^ 32" "\<bar>x - y\<bar>"] by (cases "x = y") simp_all
qed

lemma block_id_sound:
  assumes "discharge_by_block_id_axiom g part fc = (True, fc')" and "believed_hold \<rho> fc" and "checks_hold \<rho> fc'"
    and m: "execution_model \<rho>" and t: "1 \<le> g_tile g" and i: "coord_ok \<rho> fc g part i e" and e: "extent_ok \<rho> fc g part e"
  shows "in_bounds i (g_tile g) e"
  using assms(1)
proof (cases rule: block_id_cases)
  case (1 u k tensor p lhs rhs le cause)
  have "i = \<rho> (TileBlockId k)"
    by (rule congruent_eq) (use i m 1(1) bare_block_id_val [OF 1(2)] in \<open>auto simp: coord_ok_def term_ok_def execution_model_def\<close>)
  then have b: "0 \<le> i" "i + 1 \<le> \<rho> (NumTileBlocks k)" using m by (auto simp: execution_model_def intro: zless_imp_add1_zle)
  have l: "wf_term lhs" "term_val \<rho> lhs = g_tile g * \<rho> (NumTileBlocks k)" using mul_const_exact [OF 1(5)] by simp_all
  have r: "wf_term rhs" "term_val \<rho> rhs = e + (g_tile g - 1)"
    using term_add_exact [OF 1(6)] e 1(3,4) by (simp_all add: extent_ok_def)
  have "g_tile g * \<rho> (NumTileBlocks k) \<le> e + (g_tile g - 1)"
    using lower_obligation_sound [OF 1(8) assms(2,3)] pred_le_holds [OF 1(7) l(1) r(1), of \<rho>] l(2) r(2) by simp
  moreover have "g_tile g * (i + 1) \<le> g_tile g * \<rho> (NumTileBlocks k)" using b t by (intro mult_left_mono) linarith+
  ultimately show ?thesis using b(1) by (simp add: in_bounds_def algebra_simps)
qed

lemma zero_grows: "hoist_zero_coordinate_nonempty_extent g part fc = (b, fc') \<Longrightarrow> checks_grow fc fc'"
  by (auto simp: hoist_zero_coordinate_nonempty_extent_def lower_obligation_grows split: option.splits if_splits)

lemma zero_sound:
  assumes "hoist_zero_coordinate_nonempty_extent g part fc = (True, fc')" and "believed_hold \<rho> fc" and "checks_hold \<rho> fc'"
    and "execution_model \<rho>" and "1 \<le> g_tile g" and i: "coord_ok \<rho> fc g part i e" and e: "extent_ok \<rho> fc g part e"
  shows "in_bounds i (g_tile g) e"
proof -
  obtain b tensor p cause where b: "tv_bounds (g_index g) = Some b" "b_start b = 0" "b_end b = 0"
    and p: "tv_tensor_origin part = Some tensor" "param_index fc tensor = Some p"
    and o: "lower_obligation (pred_nonzero (term_atom (extent_atom fc p (g_extent_axis g)))) cause fc = (True, fc')"
    using assms(1) by (auto simp: hoist_zero_coordinate_nonempty_extent_def split: option.splits if_splits)
  have "i = 0" using i b by (auto simp: coord_ok_def bounds_ok_def inside_def)
  moreover have "e \<noteq> 0" "0 \<le> e"
    using lower_obligation_sound [OF o assms(2,3)] pred_nonzero_holds [of "term_atom (extent_atom fc p (g_extent_axis g))"] e p
    by (auto simp: extent_ok_def)
  ultimately show ?thesis by (simp add: in_bounds_def)
qed

interpretation provenance: proof_source discharge_by_axis_provenance
  by unfold_locales (use provenance_grows provenance_sound in blast)+

interpretation block_id: proof_source discharge_by_block_id_axiom
  by unfold_locales (use block_id_grows block_id_sound in blast)+

interpretation zero_coordinate: proof_source hoist_zero_coordinate_nonempty_extent
  by unfold_locales (use zero_grows zero_sound in blast)+

lemma sdiv_nonneg: "0 \<le> (a::int) \<Longrightarrow> 0 < b \<Longrightarrow> a sdiv b = a div b"
  by (cases "a = 0") (simp_all add: signed_divide_int_def)

lemma fold_static_sound:
  assumes "fold_static g = Inr (Some (Inr u))" and t: "1 \<le> g_tile g" and i: "bounds_ok (g_index g) i"
    and e: "\<And>s. g_static_extent g = Some s \<Longrightarrow> e = s" and "0 \<le> e"
  shows "in_bounds i (g_tile g) e"
proof -
  obtain b s where s: "tv_bounds (g_index g) = Some b" "g_static_extent g = Some s"
      "0 \<le> b_start b" "b_end b < (s + g_tile g - 1) sdiv g_tile g"
    using assms(1) by (auto simp: fold_static_def Let_def split: option.splits if_splits)
  from e [OF s(2)] s have b: "tv_bounds (g_index g) = Some b"
      "g_static_extent g = Some e" "0 \<le> b_start b" "b_end b < (e + g_tile g - 1) sdiv g_tile g" by simp_all
  have "(e + g_tile g - 1) sdiv g_tile g = (e + g_tile g - 1) div g_tile g" using t assms(5) by (intro sdiv_nonneg) linarith+
  moreover have "b_start b \<le> i" "i \<le> b_end b" using i b(1) by (auto simp: bounds_ok_def inside_def)
  ultimately have "0 \<le> i" "i < (e + g_tile g - 1) div g_tile g" using b(3,4) by linarith+
  then show ?thesis using below_tiles [OF t] by (simp add: in_bounds_def)
qed

lemma count_discharged_hold [simp]:
  "checks_hold \<rho> (count_discharged fc) = checks_hold \<rho> fc" "believed_hold \<rho> (count_discharged fc) = believed_hold \<rho> fc"
  "launch_checks (count_discharged fc) = launch_checks fc"
  by (simp_all add: count_discharged_def checks_hold_def believed_hold_def)

section \<open>The ladder implies the pair of goals\<close>

text \<open>Which proof decided an axis of a plain access.\<close>

lemma plain_axis_cases:
  assumes "plain_axis g part fc = Inr (True, fc')"
  obtains fc1 where "discharge_by_axis_provenance g part fc = (True, fc1)" "fc' = count_discharged fc1"
    | u where "fold_static g = (Inr (Some (Inr u)) :: string fault + _)"
    | fc1 fc2 where "discharge_by_axis_provenance g part fc = (False, fc1)"
        "discharge_by_block_id_axiom g part fc1 = (True, fc2)" "fc' = count_discharged fc2"
    | fc1 fc2 fc3 where "discharge_by_axis_provenance g part fc = (False, fc1)"
        "discharge_by_block_id_axiom g part fc1 = (False, fc2)"
        "hoist_zero_coordinate_nonempty_extent g part fc2 = (True, fc3)" "fc' = count_discharged fc3"
    | fc1 where "hoist_zero_coordinate_nonempty_extent g part fc = (True, fc1)" "fc' = count_discharged fc1"
  using assms
  by (auto simp: plain_axis_def Let_def and_then_eq_Inr split: prod.splits if_splits option.splits sum.splits)

lemma plain_axis_safe:
  assumes "plain_axis g part fc = Inr (True, fc')" and b: "believed_hold \<rho> fc" and c: "checks_hold \<rho> fc'"
    and m: "execution_model \<rho>" and t: "1 \<le> g_tile g" and i: "coord_ok \<rho> fc g part i e" and e: "extent_ok \<rho> fc g part e"
  shows "in_bounds i (g_tile g) e"
  using assms(1)
proof (cases rule: plain_axis_cases)
  case (1 fc1)
  with provenance.sound [OF 1(1) b _ m t i e] c show ?thesis by simp
next
  case (2 u)
  with fold_static_sound [OF 2 t, of i e] i e show ?thesis by (auto simp: coord_ok_def extent_ok_def)
next
  case (3 fc1 fc2)
  with block_id.sound [OF 3(2) _ _ m t, of i e] provenance.keeps [OF 3(1)] b c i e show ?thesis by simp
next
  case (4 fc1 fc2 fc3)
  with zero_coordinate.sound [OF 4(3) _ _ m t, of i e] provenance.keeps [OF 4(1)] block_id.keeps [OF 4(2)] b c i e
  show ?thesis by simp
next
  case (5 fc1)
  with zero_coordinate.sound [OF 5(1) b _ m t i e] c show ?thesis by simp
qed

text \<open>With the disabled policy no proof applies, so every axis is checked in the kernel.\<close>

lemma plain_axis_disabled: "check_opts fc = disabled \<Longrightarrow> plain_axis g part fc = Inr (False, fc)"
  by (simp add: plain_axis_def disabled_def)

text \<open>A bounded access: the brand stands for the binding made by \<open>with_bounds\<close>.\<close>

definition brand_ok :: "AxisGoals \<Rightarrow> DimOrigin \<Rightarrow> int \<Rightarrow> int \<Rightarrow> bool" where
  "brand_ok g bound_origin i e \<longleftrightarrow>
     (tv_index_origin (g_index g) = Some bound_origin \<longrightarrow> 0 \<le> i \<and> i < (e + g_tile g - 1) div g_tile g)"

lemma bounded_axis_safe:
  assumes "bounded_axis g bound_origin part fc = Inr fc'" and b: "believed_hold \<rho> fc" and c: "checks_hold \<rho> fc'"
    and m: "execution_model \<rho>" and t: "1 \<le> g_tile g" and i: "coord_ok \<rho> fc g part i e" and e: "extent_ok \<rho> fc g part e"
    and brand: "brand_ok g bound_origin i e"
  shows "in_bounds i (g_tile g) e"
proof -
  consider (brand) "brand_of g bound_origin = Some Matched"
    | (folded) u where "fold_static g = (Inr (Some (Inr u)) :: string fault + _)"
    | (zero) fc1 where "hoist_zero_coordinate_nonempty_extent g part fc = (True, fc1)" "fc' = count_discharged fc1"
  proof (cases "brand_of g bound_origin")
    case None
    with assms(1) obtain f where f: "fold_static g = (Inr f :: string fault + _)"
      by (auto simp: bounded_axis_def Let_def and_then_eq_Inr)
    obtain bb fc1 where h: "hoist_zero_coordinate_nonempty_extent g part fc = (bb, fc1)" by fastforce
    show ?thesis using assms(1) None f h that
      by (cases f rule: option.exhaust; cases bb; cases "the f") (auto simp: bounded_axis_def Let_def)
  next
    case (Some br)
    with assms(1) that show ?thesis by (cases br) (auto simp: bounded_axis_def Let_def)
  qed
  then show ?thesis
  proof cases
    case brand
    then have "tv_index_origin (g_index g) = Some bound_origin" by (auto simp: brand_of_def split: option.splits if_splits)
    with brand assms(8) below_tiles [OF t] show ?thesis by (simp add: brand_ok_def in_bounds_def)
  next
    case folded
    with fold_static_sound [OF folded t, of i e] i e show ?thesis by (auto simp: coord_ok_def extent_ok_def)
  next
    case zero
    with zero_coordinate.sound [OF zero(1) b _ m t i e] c show ?thesis by simp
  qed
qed

end
