(* ===== verification/Placement.thy ===== *)
theory Placement
  imports AccessChecks
begin

text \<open>
  Checks left to the kernel (\<open>compiler/checks/placement.rs\<close>) and the access check that places them
  (\<open>compile_check_partition_access\<close> of \<open>compiler/checks/mod.rs\<close>). A check is a comparison over
  32-bit values, emitted at the access or, when the index allows it, before the loop. The
  comparison is kept as the tree of the binary operations that are compiled for it.
\<close>

section \<open>Loops and checks\<close>

record LoopFrame =
  preheader_block :: BlockId
  body_block :: BlockId
  value_watermark :: u32
  induction_values :: "Value list"
  lf_lower :: Value
  lf_upper :: Value
  unit_step :: bool
  known_non_empty :: bool
  induction_range :: "Bounds option"
  has_early_exit :: bool

datatype HoistIndex =
    HI_Const int int
  | HI_Invariant
  | HI_InductionAffine int int Value Value

datatype Extreme = Strongest | Weakest

datatype CheckExpr = CE_Const int | CE_Value Value | CE_Op TileBinaryOp CheckExpr CheckExpr

record Residual =
  r_block :: BlockId
  r_check :: CheckExpr
  r_message :: string

fun value_index :: "Value \<Rightarrow> u32" where
  "value_index (Value n) = n"

definition fits_i32 :: "Bounds \<Rightarrow> bool" where
  "fits_i32 b \<longleftrightarrow> - (2 ^ 31) \<le> b_start b \<and> b_end b \<le> 2 ^ 31 - 1"

definition ranged :: "TileRustValue \<Rightarrow> Bounds option" where
  "ranged v = (case tv_bounds v of Some b \<Rightarrow> if fits_i32 b then Some b else None | None \<Rightarrow> None)"

section \<open>Where a check goes\<close>

text \<open>The index as a multiple of the induction variable of the loop, plus a constant.\<close>

definition affine_index :: "LoopFrame \<Rightarrow> TileRustValue \<Rightarrow> Value \<Rightarrow> (u32 \<times> int \<times> int) option" where
  "affine_index fr idx v =
     (if v \<in> set (induction_values fr) then Some (value_index v, 1, 0)
      else case Option.bind (tv_term idx) as_single_affine of
        Some (Iv n, scale, offset) \<Rightarrow>
          if n \<in> value_index ` set (induction_values fr) then Some (n, scale, offset) else None
      | _ \<Rightarrow> None)"

text \<open>The form of the index in the preheader, with the values it refers to; or why there is none.\<close>

definition classify_index :: "LoopFrame \<Rightarrow> TileRustValue \<Rightarrow> string + HoistIndex \<times> Value list" where
  "classify_index fr idx =
     (case ranged idx of
        Some b \<Rightarrow> Inr (HI_Const (b_start b) (b_end b), [])
      | None \<Rightarrow> (case tv_value idx of
          None \<Rightarrow> Inl ''index has no direct value''
        | Some v \<Rightarrow> (case affine_index fr idx v of
            Some (n, scale, offset) \<Rightarrow>
              if \<not> unit_step fr then Inl ''index depends on a non-unit-step induction variable''
              else if scale = 0 then Inl ''degenerate affine index''
              else (case Option.bind (induction_range fr)
                      (\<lambda>r. term_range (term_affine (Iv n) scale offset) (\<lambda>a. if a = Iv n then Some r else None)) of
                  Some rng \<Rightarrow>
                    if fits_i32 rng then Inr (HI_Const (b_start rng) (b_end rng), [])
                    else if \<not> (scale = 1 \<and> offset = 0) then Inl ''non-identity affine instance could overflow i32''
                    else Inr (HI_InductionAffine scale offset (lf_lower fr) (lf_upper fr), [lf_upper fr, lf_lower fr])
                | None \<Rightarrow>
                    if \<not> (scale = 1 \<and> offset = 0) then Inl ''non-identity affine instance could overflow i32''
                    else Inr (HI_InductionAffine scale offset (lf_lower fr) (lf_upper fr), [lf_upper fr, lf_lower fr]))
          | None \<Rightarrow>
              if value_index v < value_watermark fr then Inr (HI_Invariant, [v])
              else Inl ''index is computed inside the loop body'')))"

text \<open>The outermost loop whose preheader the check may reach.\<close>

fun walk_outward :: "LoopFrame list \<Rightarrow> Value list \<Rightarrow> nat \<Rightarrow> nat" where
  "walk_outward frames deps 0 = 0"
| "walk_outward frames deps (Suc n) =
     (let inner = frames ! Suc n; outer = frames ! n in
      if preheader_block inner = body_block outer \<and> known_non_empty inner \<and> \<not> has_early_exit outer \<and>
         (\<forall>v \<in> set deps. value_index v < value_watermark outer)
      then walk_outward frames deps n else Suc n)"

definition extent_deps :: "TileRustValue option \<Rightarrow> string + Value list" where
  "extent_deps dynamic_extent =
     (case dynamic_extent of
        None \<Rightarrow> Inr []
      | Some sv \<Rightarrow> (case tv_value sv of
          None \<Rightarrow> Inl ''dynamic shape operand has no direct value''
        | Some v \<Rightarrow> Inr [v]))"

definition classify_hoist ::
  "FnCompiler \<Rightarrow> AxisGoals \<Rightarrow> TileRustValue option \<Rightarrow> BlockId \<Rightarrow> LoopFrame list \<Rightarrow>
   (LoopFrame \<times> HoistIndex) option \<times> string option" where
  "classify_hoist fc g dynamic_extent blk frames =
     (if \<not> hoist_to_preheaders (check_opts fc)
      then (None, Some ''preheader hoisting disabled by the check policy'')
      else if frames = [] then (None, None)
      else let innermost = last frames in
        if blk \<noteq> body_block innermost then (None, Some ''check sits inside a conditional block'')
        else if has_early_exit innermost then (None, Some ''the loop body has an early exit (`continue`)'')
        else case and_then (extent_deps dynamic_extent) (\<lambda>ds.
               and_then (classify_index innermost (g_index g)) (\<lambda>(kind, vs). Inr (kind, ds @ vs))) of
          Inl why \<Rightarrow> (None, Some why)
        | Inr (kind, deps) \<Rightarrow> (Some (frames ! walk_outward frames deps (length frames - 1), kind), None))"

section \<open>What a check compares\<close>

definition wrap32 :: "int \<Rightarrow> int" where
  "wrap32 v = (v + 2 ^ 31) mod 2 ^ 32 - 2 ^ 31"

text \<open>An operand of a compiled operation is a value.\<close>

definition operand :: "TileRustValue \<Rightarrow> string fault + CheckExpr" where
  "operand v = ok_or ''left-hand side of binary operation did not produce a value'' (map_option CE_Value (tv_value v))"

definition affine_extreme_instance :: "Value \<Rightarrow> Value \<Rightarrow> int \<Rightarrow> int \<Rightarrow> Extreme \<Rightarrow> CheckExpr" where
  "affine_extreme_instance lo hi scale offset extreme =
     (let at_last_iteration = ((0 < scale) = (extreme = Strongest));
          e0 = (if at_last_iteration then CE_Op Bop_Sub (CE_Value hi) (CE_Const 1) else CE_Value lo);
          e1 = (if scale \<noteq> 1 then CE_Op Bop_Mul e0 (CE_Const (wrap32 scale)) else e0)
      in if offset \<noteq> 0 then CE_Op Bop_Add e1 (CE_Const (wrap32 offset)) else e1)"

text \<open>The number of tiles, without a sum that could pass the largest extent.\<close>

definition tile_count_expr :: "CheckExpr \<Rightarrow> int \<Rightarrow> CheckExpr" where
  "tile_count_expr shape tile =
     CE_Op Bop_Add (CE_Op Bop_Div shape (CE_Const tile))
       (CE_Op Bop_Min (CE_Op Bop_Rem shape (CE_Const tile)) (CE_Const 1))"

definition lower_static :: "FnCompiler \<Rightarrow> AxisGoals \<Rightarrow> HoistIndex option \<Rightarrow> int option" where
  "lower_static fc g kind =
     (if \<not> discharge_proofs (check_opts fc) then None
      else case ranged (g_index g) of
        Some b \<Rightarrow> Some (b_start b)
      | None \<Rightarrow> (case kind of Some (HI_Const lo _) \<Rightarrow> Some lo | _ \<Rightarrow> None))"

definition index_instance :: "AxisGoals \<Rightarrow> HoistIndex option \<Rightarrow> string fault + CheckExpr" where
  "index_instance g kind =
     (case kind of
        Some (HI_InductionAffine scale offset lo hi) \<Rightarrow> Inr (affine_extreme_instance lo hi scale offset Strongest)
      | Some (HI_Const _ hi) \<Rightarrow> Inr (CE_Const hi)
      | _ \<Rightarrow> operand (g_index g))"

definition guard_operand :: "AxisGoals \<Rightarrow> HoistIndex option \<Rightarrow> string fault + CheckExpr" where
  "guard_operand g kind =
     (case kind of
        Some (HI_InductionAffine scale offset lo hi) \<Rightarrow> Inr (affine_extreme_instance lo hi scale offset Weakest)
      | _ \<Rightarrow> operand (g_index g))"

definition extent_operand :: "AxisGoals \<Rightarrow> TileRustValue option \<Rightarrow> string fault + CheckExpr" where
  "extent_operand g dynamic_extent =
     (case dynamic_extent of
        Some sv \<Rightarrow> operand sv
      | None \<Rightarrow> (case g_static_extent g of Some e \<Rightarrow> Inr (CE_Const e) | None \<Rightarrow> Inl Panic))"

definition residual_expr ::
  "AxisGoals \<Rightarrow> TileRustValue option \<Rightarrow> HoistIndex option \<Rightarrow> bool \<Rightarrow> (Value \<times> Value) option \<Rightarrow> string fault + CheckExpr" where
  "residual_expr g dynamic_extent kind needs_lower_guard guard_bounds =
     and_then (extent_operand g dynamic_extent) (\<lambda>shape.
     and_then (index_instance g kind) (\<lambda>idx.
     and_then (let upper = CE_Op Bop_Lt idx (tile_count_expr shape (g_tile g)) in
               if needs_lower_guard
               then and_then (guard_operand g kind) (\<lambda>low.
                      Inr (CE_Op Bop_BitAnd (CE_Op Bop_Ge low (CE_Const 0)) upper))
               else Inr upper) (\<lambda>check.
       Inr (case guard_bounds of
          Some (lo, hi) \<Rightarrow> CE_Op Bop_BitOr (CE_Op Bop_Le (CE_Value hi) (CE_Value lo)) check
        | None \<Rightarrow> check))))"

definition deny_residual_check :: "FnCompiler \<Rightarrow> string \<Rightarrow> string \<Rightarrow> string fault + unit" where
  "deny_residual_check fc what remedy =
     (if \<not> deny_in_kernel_checks fc then Inr ()
      else Inl (Err (''`deny_in_kernel_checks`: '' @ what @ '' could not be discharged at compile time '' @
        ''or hoisted to launch, so it would be emitted in the kernel and cost device registers. '' @ remedy @
        ''. Or drop the flag.'')))"

definition residual_remedy :: "nat \<Rightarrow> string" where
  "residual_remedy axis =
     ''For a loop counter, iterate `0..num_tiles(&partition, '' @ show_nat axis @ '')`, whose '' @
     ''result carries the axis it counts (a hand-computed `n / TILE` is the '' @
     ''same number but proves nothing); for an index from a different tensor, '' @
     ''relate the extents with `preconditions = (dim(a, i) == dim(b, j),)`; '' @
     ''a tile-block id cannot be proven against a partition's tile count '' @
     ''today, since the launch grid counts CTA slabs rather than tiles''"

definition residual_message :: "AxisGoals \<Rightarrow> bool \<Rightarrow> string" where
  "residual_message g needs_lower_guard =
     ''partition access out of bounds: dim '' @ show_nat (g_axis g) @ '', block index >= ceil('' @
     (case g_static_extent g of Some e \<Rightarrow> show_int e | None \<Rightarrow> ''?'') @ ''/'' @ show_int (g_tile g) @ '')'' @
     (if needs_lower_guard then '' or index < 0'' else [])"

definition place_residual_check ::
  "BlockId \<Rightarrow> AxisGoals \<Rightarrow> TileRustValue option \<Rightarrow> LoopFrame list \<Rightarrow> FnCompiler \<Rightarrow>
   string fault + Residual \<times> FnCompiler" where
  "place_residual_check blk g dynamic_extent frames fc =
     (let (hoist, no_hoist_why) = classify_hoist fc g dynamic_extent blk frames;
          check_block = (case hoist of Some (fr, _) \<Rightarrow> preheader_block fr | None \<Rightarrow> blk);
          guard_bounds = (case hoist of
              Some (fr, _) \<Rightarrow> if known_non_empty fr then None else Some (lf_lower fr, lf_upper fr)
            | None \<Rightarrow> None);
          kind = map_option snd hoist;
          low = lower_static fc g kind;
          what = ''the bounds check for partition axis '' @ show_nat (g_axis g) @
                 (case no_hoist_why of Some why \<Rightarrow> '' ('' @ why @ '')'' | None \<Rightarrow> [])
      in and_then (case low of
           Some lo \<Rightarrow> if lo < 0 then Inl (Err (''partition access out of bounds: dim '' @ show_nat (g_axis g) @
               '', block index can be '' @ show_int lo @ '' (0 <= index is required)'')) else Inr ()
         | None \<Rightarrow> Inr ()) (\<lambda>_.
         and_then (deny_residual_check fc what (residual_remedy (g_axis g))) (\<lambda>_.
         and_then (residual_expr g dynamic_extent kind (low = None) guard_bounds) (\<lambda>check.
           Inr (\<lparr>r_block = check_block, r_check = check, r_message = residual_message g (low = None)\<rparr>,
                if hoist \<noteq> None then fc\<lparr>hoisted := hoisted fc + 1\<rparr> else fc\<lparr>in_place := in_place fc + 1\<rparr>)))))"

section \<open>The access check\<close>

text \<open>The last rung: nothing when the axis is decided, a check in the kernel otherwise.\<close>

definition place_axis ::
  "int list \<Rightarrow> TileRustValue list \<Rightarrow> BlockId \<Rightarrow> LoopFrame list \<Rightarrow> AxisGoals \<Rightarrow> bool \<Rightarrow> FnCompiler \<Rightarrow>
   string fault + Residual list \<times> FnCompiler" where
  "place_axis static_shape shape_dims blk frames g decided fc =
     (if decided then Inr ([], fc)
      else and_then (if g_static_extent g = None
                     then and_then (resolve_dynamic_extent g static_shape shape_dims) (\<lambda>d. Inr (Some d))
                     else Inr None) (\<lambda>dyn.
           and_then (place_residual_check blk g dyn frames fc) (\<lambda>(r, fc'). Inr ([r], fc'))))"

fun plain_axes_from ::
  "TileRustValue \<Rightarrow> int list \<Rightarrow> int list \<Rightarrow> int list \<Rightarrow> TileRustValue list \<Rightarrow> BlockId \<Rightarrow> LoopFrame list \<Rightarrow>
   nat \<Rightarrow> TileRustValue list \<Rightarrow> FnCompiler \<Rightarrow> string fault + Residual list \<times> FnCompiler" where
  "plain_axes_from part static_tile static_shape dim_map shape_dims blk frames axis [] fc = Inr ([], fc)"
| "plain_axes_from part static_tile static_shape dim_map shape_dims blk frames axis (idx # rest) fc =
     and_then (form_axis_goals fc part static_tile static_shape dim_map axis idx) (\<lambda>g.
     and_then (plain_axis g part fc) (\<lambda>(decided, fc1).
     and_then (place_axis static_shape shape_dims blk frames g decided fc1) (\<lambda>(rs, fc2).
     and_then (plain_axes_from part static_tile static_shape dim_map shape_dims blk frames (axis + 1) rest fc2)
       (\<lambda>(rs', fc3). Inr (rs @ rs', fc3)))))"

definition check_partition_access ::
  "TileRustValue \<Rightarrow> int list \<times> int list \<times> int list \<Rightarrow> TileRustValue list \<Rightarrow> BlockId \<Rightarrow> LoopFrame list \<Rightarrow>
   TileRustValue list \<Rightarrow> FnCompiler \<Rightarrow> string fault + Residual list \<times> FnCompiler" where
  "check_partition_access part geometry shape_dims blk frames indexes fc =
     (case geometry of (static_tile, static_shape, dim_map) \<Rightarrow>
        let len = length static_tile in
        if len \<noteq> length indexes \<or> len \<noteq> length static_shape
        then Inl (Err (''Unexpected tile ('' @ show_nat len @ ''), shape ('' @ show_nat (length static_shape) @
               ''), or index ('' @ show_nat (length indexes) @ '') length mismatch.''))
        else plain_axes_from part static_tile static_shape dim_map shape_dims blk frames 0 indexes fc)"

section \<open>Running a check\<close>

fun eval_check :: "(Value \<Rightarrow> int) \<Rightarrow> CheckExpr \<Rightarrow> int option" where
  "eval_check env (CE_Const c) = Some c"
| "eval_check env (CE_Value v) = Some (env v)"
| "eval_check env (CE_Op bop a b) =
     (case (eval_check env a, eval_check env b) of
        (Some x, Some y) \<Rightarrow> map_option wrap32 (exact_value bop x y)
      | _ \<Rightarrow> None)"

definition passes :: "(Value \<Rightarrow> int) \<Rightarrow> CheckExpr \<Rightarrow> bool" where
  "passes env c \<longleftrightarrow> (case eval_check env c of Some v \<Rightarrow> v \<noteq> 0 | None \<Rightarrow> False)"

definition is_i32 :: "int \<Rightarrow> bool" where
  "is_i32 x \<longleftrightarrow> - (2 ^ 31) \<le> x \<and> x < 2 ^ 31"

lemma wrap32_id: "is_i32 x \<Longrightarrow> wrap32 x = x"
  by (simp add: wrap32_def is_i32_def mod_pos_pos_trivial)

lemma wrap32_truth [simp]: "wrap32 (truth b) = truth b"
  by (simp add: wrap32_def truth_def)

lemma truth_ops [simp]:
  "truth a AND truth b = truth (a \<and> b)" "truth a OR truth b = truth (a \<or> b)" "truth a \<noteq> 0 \<longleftrightarrow> a"
  by (simp_all add: truth_def)

lemma smod_nonneg: "0 \<le> (a::int) \<Longrightarrow> 0 < b \<Longrightarrow> a smod b = a mod b"
  by (cases "a = 0") (simp_all add: signed_modulo_int_def)

lemma tiles_split:
  assumes "1 \<le> (t::int)"
  shows "e div t + min (e mod t) 1 = (e + t - 1) div t"
proof -
  have m: "0 \<le> e mod t" "e mod t < t" using assms by simp_all
  have "(e + t - 1) div t = (e div t * t + (e mod t + t - 1)) div t" by (simp add: algebra_simps)
  also have "\<dots> = e div t + (e mod t + t - 1) div t" using assms by simp
  also have "(e mod t + t - 1) div t = min (e mod t) 1"
  proof (cases "e mod t = 0")
    case True
    then show ?thesis using assms by (simp add: div_pos_pos_trivial)
  next
    case False
    then have "(e mod t + t - 1) div t = (t * 1 + (e mod t - 1)) div t" by (simp add: algebra_simps)
    also have "\<dots> = 1 + (e mod t - 1) div t" using assms by (subst div_mult_self4) simp_all
    also have "(e mod t - 1) div t = 0" using m False by (intro div_pos_pos_trivial) linarith+
    finally show ?thesis using m False by simp
  qed
  finally show ?thesis by simp
qed

text \<open>No operation of the tile count wraps, and it is the rounded-up quotient.\<close>

lemma tile_count_eval:
  assumes "eval_check env shape = Some e" and "0 \<le> e" "is_i32 e" and "1 \<le> t"
  shows "eval_check env (tile_count_expr shape t) = Some ((e + t - 1) div t)"
proof -
  have d: "0 \<le> e div t" "0 \<le> e mod t" "e mod t \<le> e" "e = t * (e div t) + e mod t"
    using assms(2,4) by (simp_all add: pos_imp_zdiv_nonneg_iff zmod_le_nonneg_dividend)
  moreover have "1 * (e div t) \<le> t * (e div t)" using assms(4) d(1) by (rule mult_right_mono)
  ultimately have q: "0 \<le> e div t" "e div t \<le> e" "0 \<le> e mod t" "e mod t \<le> e" by linarith+
  have s: "e div t + min (e mod t) 1 \<le> e"
  proof (cases "t = 1")
    case True
    then show ?thesis by simp
  next
    case False
    then have "2 * (e div t) \<le> t * (e div t)" using q assms(4) by (intro mult_right_mono) linarith+
    moreover have "e = t * (e div t) + e mod t" by simp
    ultimately show ?thesis using q by linarith
  qed
  have "wrap32 (e div t) = e div t" "wrap32 (e mod t) = e mod t" "wrap32 (min (e mod t) 1) = min (e mod t) 1"
    "wrap32 (e div t + min (e mod t) 1) = e div t + min (e mod t) 1"
    using q s assms(3) by (auto intro!: wrap32_id simp: is_i32_def)
  then show ?thesis using assms tiles_split [OF assms(4), of e]
    by (simp add: tile_count_expr_def exact_value_def sdiv_nonneg smod_nonneg)
qed

lemma compare_eval:
  assumes "eval_check env a = Some x" and "eval_check env b = Some y"
  shows "eval_check env (CE_Op Bop_Lt a b) = Some (truth (x < y))"
    "eval_check env (CE_Op Bop_Le a b) = Some (truth (x \<le> y))"
    "eval_check env (CE_Op Bop_Ge a b) = Some (truth (y \<le> x))"
  using assms by (simp_all add: exact_value_def)

lemma connective_eval:
  assumes "eval_check env a = Some (truth p)" and "eval_check env b = Some (truth q)"
  shows "eval_check env (CE_Op Bop_BitAnd a b) = Some (truth (p \<and> q))"
    "eval_check env (CE_Op Bop_BitOr a b) = Some (truth (p \<or> q))"
  using assms by (simp_all add: exact_value_def)

text \<open>What a check decides, given the values of its operands.\<close>

lemma residual_expr_eval:
  assumes "residual_expr g dyn kind needs gb = Inr c"
    and idx: "\<And>ie. index_instance g kind = Inr ie \<Longrightarrow> eval_check env ie = Some x"
    and low: "\<And>le. needs \<Longrightarrow> guard_operand g kind = Inr le \<Longrightarrow> eval_check env le = Some y"
    and ext: "\<And>se. extent_operand g dyn = Inr se \<Longrightarrow> eval_check env se = Some e"
    and e: "0 \<le> e" "is_i32 e" and t: "1 \<le> g_tile g"
  shows "passes env c \<longleftrightarrow>
    (case gb of Some (lo, hi) \<Rightarrow> env hi \<le> env lo | None \<Rightarrow> False) \<or>
    ((needs \<longrightarrow> 0 \<le> y) \<and> x < (e + g_tile g - 1) div g_tile g)"
proof -
  obtain se ie where se: "extent_operand g dyn = Inr se" and ie: "index_instance g kind = Inr ie"
    using assms(1) by (auto simp: residual_expr_def and_then_eq_Inr)
  let ?u = "CE_Op Bop_Lt ie (tile_count_expr se (g_tile g))"
  have u: "eval_check env ?u = Some (truth (x < (e + g_tile g - 1) div g_tile g))"
    by (rule compare_eval [OF idx [OF ie] tile_count_eval [OF ext [OF se] e t]])
  obtain d where d: "eval_check env d = Some (truth ((needs \<longrightarrow> 0 \<le> y) \<and> x < (e + g_tile g - 1) div g_tile g))"
    and c: "c = (case gb of Some (lo, hi) \<Rightarrow> CE_Op Bop_BitOr (CE_Op Bop_Le (CE_Value hi) (CE_Value lo)) d | None \<Rightarrow> d)"
  proof (cases needs)
    case True
    then obtain le where le: "guard_operand g kind = Inr le"
      using assms(1) by (auto simp: residual_expr_def and_then_eq_Inr)
    let ?d = "CE_Op Bop_BitAnd (CE_Op Bop_Ge le (CE_Const 0)) ?u"
    have "eval_check env ?d = Some (truth (0 \<le> y \<and> x < (e + g_tile g - 1) div g_tile g))"
      by (rule connective_eval [OF compare_eval(3) [OF low [OF True le]] u]) simp
    then have "eval_check env ?d = Some (truth ((needs \<longrightarrow> 0 \<le> y) \<and> x < (e + g_tile g - 1) div g_tile g))"
      by (simp only: True simp_thms)
    moreover have "c = (case gb of Some (lo, hi) \<Rightarrow> CE_Op Bop_BitOr (CE_Op Bop_Le (CE_Value hi) (CE_Value lo)) ?d | None \<Rightarrow> ?d)"
      using True assms(1) se ie le by (simp add: residual_expr_def)
    ultimately show ?thesis by (rule that)
  next
    case False
    have "c = (case gb of Some (lo, hi) \<Rightarrow> CE_Op Bop_BitOr (CE_Op Bop_Le (CE_Value hi) (CE_Value lo)) ?u | None \<Rightarrow> ?u)"
      using False assms(1) se ie by (simp add: residual_expr_def)
    moreover have "eval_check env ?u = Some (truth ((needs \<longrightarrow> 0 \<le> y) \<and> x < (e + g_tile g - 1) div g_tile g))"
      using u by (simp only: False simp_thms)
    ultimately show ?thesis by (intro that)
  qed
  show ?thesis
  proof (cases gb)
    case None
    then show ?thesis using c d by (simp add: passes_def)
  next
    case (Some p)
    obtain lo hi where p: "p = (lo, hi)" by fastforce
    have "eval_check env (CE_Op Bop_Le (CE_Value hi) (CE_Value lo)) = Some (truth (env hi \<le> env lo))"
      by (rule compare_eval) simp_all
    from connective_eval(2) [OF this d] show ?thesis using Some p c by (simp add: passes_def)
  qed
qed

section \<open>A check that passes bounds the index\<close>

text \<open>Every policy that moves checks out of loops also lets the compiler use ranges.\<close>

definition policy_ok :: "CheckOptimizations \<Rightarrow> bool" where
  "policy_ok p \<longleftrightarrow> (hoist_to_preheaders p \<longrightarrow> discharge_proofs p)"

lemma policies_ok: "policy_ok release" "policy_ok device_debug" "policy_ok disabled" "policy_ok (from_env vars)"
  by (simp_all add: policy_ok_def release_def device_debug_def disabled_def from_env_def Let_def)

text \<open>
  One iteration of the innermost loop: \<open>env\<close> gives the values at the place of the check, and the index
  has the value \<open>i\<close>.
\<close>

definition iteration :: "(Value \<Rightarrow> int) \<Rightarrow> valuation \<Rightarrow> LoopFrame \<Rightarrow> TileRustValue \<Rightarrow> int \<Rightarrow> bool" where
  "iteration env \<rho> fr idx i \<longleftrightarrow>
     (\<forall>v \<in> set (induction_values fr).
        env (lf_lower fr) \<le> \<rho> (Iv (value_index v)) \<and> \<rho> (Iv (value_index v)) < env (lf_upper fr) \<and>
        (\<forall>r. induction_range fr = Some r \<longrightarrow> inside (\<rho> (Iv (value_index v))) r)) \<and>
     (\<forall>v. tv_value idx = Some v \<longrightarrow>
        (if v \<in> set (induction_values fr) then i = \<rho> (Iv (value_index v))
         else value_index v < value_watermark fr \<longrightarrow> env v = i))"

lemma congruent_i32:
  assumes "(2::int) ^ 32 dvd x - y" and "is_i32 x" and "is_i32 y"
  shows "x = y"
proof -
  have "\<bar>x - y\<bar> < 2 ^ 32" using assms(2,3) by (auto simp: is_i32_def abs_less_iff)
  with assms(1) show ?thesis using zdvd_imp_le [of "2 ^ 32" "\<bar>x - y\<bar>"] by (cases "x = y") simp_all
qed

lemma as_single_affine_Some: "as_single_affine t = Some (a, c, k) \<longleftrightarrow> coeffs t = [(a, c)] \<and> t_constant t = k"
  by (auto simp: as_single_affine_def split: list.splits)

lemma affine_index_sound:
  assumes "affine_index fr idx v = Some (n, scale, offset)" and "tv_value idx = Some v"
    and "iteration env \<rho> fr idx i" and "term_ok (2 ^ 32) \<rho> idx i"
  shows "n \<in> value_index ` set (induction_values fr) \<and> in_i64 scale \<and> in_i64 offset \<and>
    2 ^ 32 dvd i - (scale * \<rho> (Iv n) + offset)"
proof (cases "v \<in> set (induction_values fr)")
  case True
  then have "n = value_index v" "scale = 1" "offset = 0" using assms(1) by (auto simp: affine_index_def)
  then show ?thesis using True assms(2,3) by (auto simp: iteration_def)
next
  case False
  with assms(1) obtain t where t: "tv_term idx = Some t" "coeffs t = [(Iv n, scale)]" "t_constant t = offset"
    "n \<in> value_index ` set (induction_values fr)"
    by (auto simp: affine_index_def bind_eq_Some_conv as_single_affine_Some
        split: option.splits prod.splits Atom.splits if_splits)
  then have "wf_term t" "2 ^ 32 dvd i - term_val \<rho> t" using assms(4) by (simp_all add: term_ok_def)
  then show ?thesis using t by (simp add: wf_term_def wf_entries_def term_val_def)
qed

text \<open>What each form of the index says of the iteration.\<close>

fun form_ok :: "(Value \<Rightarrow> int) \<Rightarrow> TileRustValue \<Rightarrow> int \<Rightarrow> HoistIndex \<Rightarrow> bool" where
  "form_ok env idx i (HI_Const lo hi) \<longleftrightarrow> lo \<le> i \<and> i \<le> hi"
| "form_ok env idx i HI_Invariant \<longleftrightarrow> (\<exists>v. tv_value idx = Some v \<and> env v = i)"
| "form_ok env idx i (HI_InductionAffine scale offset lo hi) \<longleftrightarrow>
     scale = 1 \<and> offset = 0 \<and> env lo \<le> i \<and> i < env hi"

lemma ranged_ok: "ranged idx = Some b \<Longrightarrow> bounds_ok idx i \<Longrightarrow> b_start b \<le> i \<and> i \<le> b_end b"
  by (auto simp: ranged_def bounds_ok_def inside_def split: option.splits if_splits)

lemma classify_index_cases:
  assumes "classify_index fr idx = Inr (kind, deps)"
  obtains b where "ranged idx = Some b" "kind = HI_Const (b_start b) (b_end b)"
    | v n scale offset r c where "tv_value idx = Some v" "affine_index fr idx v = Some (n, scale, offset)"
        "induction_range fr = Some r" "term_range (term_affine (Iv n) scale offset) (\<lambda>a. if a = Iv n then Some r else None) = Some c"
        "fits_i32 c" "kind = HI_Const (b_start c) (b_end c)"
    | v n where "tv_value idx = Some v" "affine_index fr idx v = Some (n, 1, 0)"
        "kind = HI_InductionAffine 1 0 (lf_lower fr) (lf_upper fr)"
    | v where "tv_value idx = Some v" "affine_index fr idx v = None" "value_index v < value_watermark fr" "kind = HI_Invariant"
proof (cases "ranged idx")
  case None
  then obtain v where v: "tv_value idx = Some v" using assms by (auto simp: classify_index_def split: option.splits)
  show thesis
  proof (cases "affine_index fr idx v")
    case None
    with \<open>ranged idx = None\<close> v assms that(4) show thesis by (auto simp: classify_index_def split: if_splits)
  next
    case (Some a)
    obtain n scale offset where a: "a = (n, scale, offset)" by (cases a)
    show thesis
    proof (cases "Option.bind (induction_range fr)
        (\<lambda>r. term_range (term_affine (Iv n) scale offset) (\<lambda>a. if a = Iv n then Some r else None))")
      case None
      with \<open>ranged idx = None\<close> v Some a assms that(3) show thesis by (auto simp: classify_index_def split: if_splits)
    next
      case (Some c)
      then obtain r where "induction_range fr = Some r"
        "term_range (term_affine (Iv n) scale offset) (\<lambda>a. if a = Iv n then Some r else None) = Some c"
        by (auto simp: bind_eq_Some_conv)
      with Some \<open>ranged idx = None\<close> v \<open>affine_index fr idx v = Some a\<close> a assms that(2,3) show thesis
        by (auto simp: classify_index_def split: if_splits)
    qed
  qed
qed (use assms that(1) in \<open>auto simp: classify_index_def\<close>)

lemma classify_index_sound:
  assumes "classify_index fr idx = Inr (kind, deps)" and it: "iteration env \<rho> fr idx i"
    and "is_i32 i" and "bounds_ok idx i" and t: "term_ok (2 ^ 32) \<rho> idx i" and env: "\<And>v. is_i32 (env v)"
  shows "form_ok env idx i kind"
  using assms(1)
proof (cases rule: classify_index_cases)
  case (1 b)
  with ranged_ok assms(4) show ?thesis by simp
next
  case (2 v n scale offset r c)
  from affine_index_sound [OF 2(2,1) it t] have n: "n \<in> value_index ` set (induction_values fr)" "in_i64 scale" "in_i64 offset"
    "2 ^ 32 dvd i - (scale * \<rho> (Iv n) + offset)" by blast+
  have "inside (\<rho> (Iv n)) r" using it n(1) 2(3) by (auto simp: iteration_def)
  then have r: "\<And>a b. (if a = Iv n then Some r else None) = Some b \<Longrightarrow> inside (\<rho> a) b" by (auto split: if_splits)
  from term_range_sound [OF 2(4) term_affine_val(2) [OF n(2,3)], of \<rho>, OF r]
  have "inside (term_val \<rho> (term_affine (Iv n) scale offset)) c" by blast
  then have c: "inside (scale * \<rho> (Iv n) + offset) c" by (simp add: term_affine_val)
  then have "is_i32 (scale * \<rho> (Iv n) + offset)" using 2(5) by (auto simp: inside_def fits_i32_def is_i32_def)
  with congruent_i32 [OF n(4) assms(3)] have "i = scale * \<rho> (Iv n) + offset" by blast
  with c 2(6) show ?thesis by (simp add: inside_def)
next
  case (3 v n)
  from affine_index_sound [OF 3(2,1) it t] have n: "n \<in> value_index ` set (induction_values fr)"
    "2 ^ 32 dvd i - \<rho> (Iv n)" by auto
  have b: "env (lf_lower fr) \<le> \<rho> (Iv n)" "\<rho> (Iv n) < env (lf_upper fr)" using it n(1) by (auto simp: iteration_def)
  then have "is_i32 (\<rho> (Iv n))" using env [of "lf_lower fr"] env [of "lf_upper fr"] by (simp add: is_i32_def)
  with congruent_i32 [OF n(2) assms(3)] have "i = \<rho> (Iv n)" by blast
  with b 3(3) show ?thesis by simp
next
  case (4 v)
  then have "v \<notin> set (induction_values fr)" by (auto simp: affine_index_def)
  with it 4 show ?thesis by (auto simp: iteration_def)
qed

text \<open>An affine index with scale one stands for the bounds of the loop.\<close>

lemma extreme_eval:
  assumes "is_i32 (env lo)" "is_i32 (env hi)" "env lo < env hi"
  shows "eval_check env (affine_extreme_instance lo hi 1 0 Strongest) = Some (env hi - 1)"
    "eval_check env (affine_extreme_instance lo hi 1 0 Weakest) = Some (env lo)"
proof -
  have "wrap32 (env hi - 1) = env hi - 1" using assms by (intro wrap32_id) (simp add: is_i32_def)
  then show "eval_check env (affine_extreme_instance lo hi 1 0 Strongest) = Some (env hi - 1)"
    by (simp add: affine_extreme_instance_def exact_value_def)
  show "eval_check env (affine_extreme_instance lo hi 1 0 Weakest) = Some (env lo)"
    by (simp add: affine_extreme_instance_def)
qed

text \<open>What the index of a check evaluates to: at least the run-time index, and its guard at most.\<close>

lemma operand_eval: "operand v = Inr ve \<Longrightarrow> (\<And>u. tv_value v = Some u \<Longrightarrow> env u = x) \<Longrightarrow> eval_check env ve = Some x"
  by (auto simp: operand_def)

definition placed_ok :: "(Value \<Rightarrow> int) \<Rightarrow> TileRustValue \<Rightarrow> int \<Rightarrow> HoistIndex option \<Rightarrow> bool" where
  "placed_ok env idx i kind \<longleftrightarrow>
     (case kind of
        Some k \<Rightarrow> form_ok env idx i k
      | None \<Rightarrow> (\<forall>v. tv_value idx = Some v \<longrightarrow> env v = i))"

lemma instances_eval:
  assumes "placed_ok env (g_index g) i kind" and env: "\<And>v. is_i32 (env v)"
    and "index_instance g kind = Inr ie"
  obtains x where "eval_check env ie = Some x" "i \<le> x"
proof (cases kind)
  case None
  then show thesis using assms(1,3) operand_eval [of "g_index g" ie env i] that [of i]
    by (simp add: placed_ok_def index_instance_def)
next
  case (Some k)
  show thesis
  proof (cases k)
    case (HI_Const lo hi)
    then show thesis using Some assms(1,3) that [of hi] by (auto simp: placed_ok_def index_instance_def)
  next
    case HI_Invariant
    then show thesis using Some assms(1,3) operand_eval [of "g_index g" ie env i] that [of i]
      by (auto simp: placed_ok_def index_instance_def)
  next
    case (HI_InductionAffine scale offset lo hi)
    then have "ie = affine_extreme_instance lo hi 1 0 Strongest" "env lo \<le> i" "i < env hi"
      using Some assms(1,3) by (simp_all add: placed_ok_def index_instance_def)
    then show thesis using extreme_eval(1) [of env lo hi] env that [of "env hi - 1"] by simp
  qed
qed

lemma guards_eval:
  assumes "placed_ok env (g_index g) i kind" and env: "\<And>v. is_i32 (env v)"
    and "guard_operand g kind = Inr le" and "\<And>lo hi. kind \<noteq> Some (HI_Const lo hi)"
  obtains y where "eval_check env le = Some y" "y \<le> i"
proof (cases "\<exists>scale offset lo hi. kind = Some (HI_InductionAffine scale offset lo hi)")
  case True
  then obtain lo hi where "kind = Some (HI_InductionAffine 1 0 lo hi)" "env lo \<le> i" "i < env hi"
    using assms(1) by (auto simp: placed_ok_def)
  then show thesis using extreme_eval(2) [of env lo hi] env assms(3) that [of "env lo"] by (simp add: guard_operand_def)
next
  case False
  then have k: "kind = None \<or> kind = Some HI_Invariant" using assms(4) by (cases kind; cases "the kind") auto
  then have "operand (g_index g) = Inr le" "\<And>u. tv_value (g_index g) = Some u \<Longrightarrow> env u = i"
    using assms(1,3) by (auto simp: guard_operand_def placed_ok_def)
  then have "eval_check env le = Some i" by (rule operand_eval)
  then show thesis using that by blast
qed

lemma classify_hoist_cases:
  assumes "classify_hoist fc g dyn blk frames = (Some (fr, kind), why)"
  obtains deps where "classify_index (last frames) (g_index g) = Inr (kind, deps)" "fr \<in> set frames"
    "hoist_to_preheaders (check_opts fc)"
proof -
  obtain deps k where "classify_index (last frames) (g_index g) = Inr (kind, deps)" "frames \<noteq> []"
      "fr = frames ! walk_outward frames k (length frames - 1)" "hoist_to_preheaders (check_opts fc)"
    using assms
    by (auto simp: classify_hoist_def Let_def and_then_eq_Inr split: if_splits sum.splits prod.splits)
  moreover have "walk_outward frames k n \<le> n" for k n
    by (induction n) (simp_all add: Let_def le_SucI)
  ultimately show thesis using that
    by (metis Suc_diff_1 length_greater_0_conv less_Suc_eq_le nth_mem)
qed

text \<open>
  The run-time facts of one access: the values at the place of the check, the index, the extent. The loop
  before which a check stands is one that runs.
\<close>

definition access_run ::
  "(BlockId \<Rightarrow> Value \<Rightarrow> int) \<Rightarrow> valuation \<Rightarrow> BlockId \<Rightarrow> LoopFrame list \<Rightarrow> TileRustValue option \<Rightarrow> AxisGoals \<Rightarrow> int \<Rightarrow> int \<Rightarrow> bool" where
  "access_run env \<rho> blk frames dyn g i e \<longleftrightarrow>
     is_i32 i \<and> bounds_ok (g_index g) i \<and> term_ok (2 ^ 32) \<rho> (g_index g) i \<and>
     0 \<le> e \<and> is_i32 e \<and> (\<forall>s. g_static_extent g = Some s \<longrightarrow> e = s) \<and>
     (\<forall>b sv v. dyn = Some sv \<longrightarrow> tv_value sv = Some v \<longrightarrow> env b v = e) \<and>
     (\<forall>b v. is_i32 (env b v)) \<and> (\<forall>v. tv_value (g_index g) = Some v \<longrightarrow> env blk v = i) \<and>
     (\<forall>fr \<in> set frames. env (preheader_block fr) (lf_lower fr) < env (preheader_block fr) (lf_upper fr) \<and>
        iteration (env (preheader_block fr)) \<rho> (last frames) (g_index g) i)"

lemma residual_safe:
  assumes "place_residual_check blk g dyn frames fc = Inr (r, fc')" and run: "access_run env \<rho> blk frames dyn g i e"
    and "passes (env (r_block r)) (r_check r)" and "policy_ok (check_opts fc)" and t: "1 \<le> g_tile g"
  shows "in_bounds i (g_tile g) e"
proof -
  obtain hoist why where h: "classify_hoist fc g dyn blk frames = (hoist, why)" by fastforce
  define kind where "kind = map_option snd hoist"
  define low where "low = lower_static fc g kind"
  define gb where "gb = (case hoist of Some (fr, _) \<Rightarrow> if known_non_empty fr then None else Some (lf_lower fr, lf_upper fr) | None \<Rightarrow> None)"
  define b where "b = (case hoist of Some (fr, _) \<Rightarrow> preheader_block fr | None \<Rightarrow> blk)"
  have p: "residual_expr g dyn kind (low = None) gb = Inr (r_check r)" "r_block r = b" "\<And>l. low = Some l \<Longrightarrow> 0 \<le> l"
    using assms(1) unfolding place_residual_check_def h Let_def prod.case
    by (auto simp: and_then_eq_Inr kind_def low_def gb_def b_def split: option.splits if_splits)
  have placed: "placed_ok (env b) (g_index g) i kind"
  proof (cases hoist)
    case None
    then show ?thesis using run by (simp add: placed_ok_def kind_def b_def access_run_def)
  next
    case (Some fk)
    obtain fr k where fk: "fk = (fr, k)" by fastforce
    from h Some fk obtain deps where c: "classify_index (last frames) (g_index g) = Inr (k, deps)" "fr \<in> set frames"
      by (auto elim: classify_hoist_cases)
    have "form_ok (env b) (g_index g) i k"
      by (rule classify_index_sound [OF c(1)]) (use run c(2) Some fk in \<open>auto simp: access_run_def b_def\<close>)
    then show ?thesis using Some fk by (simp add: placed_ok_def kind_def)
  qed
  have env: "\<And>v. is_i32 (env b v)" and e: "0 \<le> e" "is_i32 e" using run by (simp_all add: access_run_def)
  obtain ie where ie: "index_instance g kind = Inr ie" using p(1) by (auto simp: residual_expr_def and_then_eq_Inr)
  obtain x where x: "eval_check (env b) ie = Some x" "i \<le> x" by (rule instances_eval [OF placed env ie])
  have nc: "kind \<noteq> Some (HI_Const lo hi)" if "low = None" for lo hi
  proof
    assume k: "kind = Some (HI_Const lo hi)"
    then obtain fr where "hoist = Some (fr, HI_Const lo hi)" by (auto simp: kind_def)
    with h have "hoist_to_preheaders (check_opts fc)" by (auto elim: classify_hoist_cases)
    with that k assms(4) show False by (auto simp: low_def lower_static_def policy_ok_def split: option.splits)
  qed
  obtain y where y: "\<And>le. low = None \<Longrightarrow> guard_operand g kind = Inr le \<Longrightarrow> eval_check (env b) le = Some y" "low = None \<Longrightarrow> y \<le> i"
  proof (cases "low = None")
    case True
    then obtain le where le: "guard_operand g kind = Inr le" using p(1) by (auto simp: residual_expr_def and_then_eq_Inr)
    show thesis by (rule guards_eval [OF placed env le nc [OF True]]) (use le that in auto)
  qed (use that in auto)
  have ext: "eval_check (env b) se = Some e" if "extent_operand g dyn = Inr se" for se
    using that run by (auto simp: extent_operand_def operand_def access_run_def split: option.splits)
  have "\<not> (case gb of Some (lo, hi) \<Rightarrow> env b hi \<le> env b lo | None \<Rightarrow> False)"
  proof (cases hoist)
    case (Some fk)
    obtain fr k where fk: "fk = (fr, k)" by fastforce
    from h Some fk have "fr \<in> set frames" by (auto elim: classify_hoist_cases)
    then have "env b (lf_lower fr) < env b (lf_upper fr)" using run Some fk by (simp add: access_run_def b_def)
    then show ?thesis using Some fk by (simp add: gb_def)
  qed (simp add: gb_def)
  moreover have "passes (env b) (r_check r) \<longleftrightarrow> (case gb of Some (lo, hi) \<Rightarrow> env b hi \<le> env b lo | None \<Rightarrow> False) \<or>
      ((low = None \<longrightarrow> 0 \<le> y) \<and> x < (e + g_tile g - 1) div g_tile g)"
    by (rule residual_expr_eval [OF p(1) _ y(1) ext e t]) (use ie x in auto)
  ultimately have c: "low = None \<longrightarrow> 0 \<le> y" "x < (e + g_tile g - 1) div g_tile g" using assms(3) p(2) by simp_all
  have "0 \<le> i"
  proof (cases low)
    case None
    then show ?thesis using c(1) y(2) by simp
  next
    case (Some l)
    then have "l \<le> i" using placed run ranged_ok [of "g_index g" _ i]
      by (auto simp: low_def lower_static_def placed_ok_def access_run_def split: option.splits if_splits HoistIndex.splits)
    with p(3) [OF Some] show ?thesis by simp
  qed
  then show ?thesis using below_tiles [OF t, of i e] c(2) x(2) by (simp add: in_bounds_def)
qed

text \<open>A check at the access itself decides the goals exactly.\<close>

lemma in_place_exact:
  assumes "place_residual_check blk g dyn frames fc = Inr (r, fc')" and "r_block r = blk"
    and "fst (classify_hoist fc g dyn blk frames) = None"
    and run: "access_run env \<rho> blk frames dyn g i e" and t: "1 \<le> g_tile g"
  shows "passes (env blk) (r_check r) \<longleftrightarrow> in_bounds i (g_tile g) e"
proof -
  obtain why where h: "classify_hoist fc g dyn blk frames = (None, why)" using assms(3) by (metis fst_conv surj_pair)
  define low where "low = lower_static fc g None"
  have p: "residual_expr g dyn None (low = None) None = Inr (r_check r)" "\<And>l. low = Some l \<Longrightarrow> 0 \<le> l"
    using assms(1) unfolding place_residual_check_def h Let_def prod.case
    by (auto simp: and_then_eq_Inr low_def split: option.splits if_splits)
  have v: "\<And>u. tv_value (g_index g) = Some u \<Longrightarrow> env blk u = i" and e: "0 \<le> e" "is_i32 e" using run by (simp_all add: access_run_def)
  have ext: "eval_check (env blk) se = Some e" if "extent_operand g dyn = Inr se" for se
    using that run by (auto simp: extent_operand_def operand_def access_run_def split: option.splits)
  have "passes (env blk) (r_check r) \<longleftrightarrow> (case None of Some (lo, hi) \<Rightarrow> env blk hi \<le> env blk lo | None \<Rightarrow> False) \<or>
      ((low = None \<longrightarrow> 0 \<le> i) \<and> i < (e + g_tile g - 1) div g_tile g)"
    by (rule residual_expr_eval [OF p(1) _ _ ext e t])
      (auto simp: index_instance_def guard_operand_def intro: operand_eval v)
  moreover have "0 \<le> i" if "low = Some l" for l
    using p(2) [OF that] that run ranged_ok [of "g_index g" _ i]
    by (auto simp: low_def lower_static_def access_run_def split: option.splits if_splits)
  ultimately show ?thesis using below_tiles [OF t, of i e] by (cases low) (auto simp: in_bounds_def)
qed

section \<open>A checked access is in bounds\<close>

text \<open>What the compiler adds while it checks the axes leaves the goals of the other axes as they are.\<close>

definition same_facts :: "FnCompiler \<Rightarrow> FnCompiler \<Rightarrow> bool" where
  "same_facts fc fc' \<longleftrightarrow> assumptions fc' = assumptions fc \<and> param_index fc' = param_index fc \<and>
     param_is_mutable fc' = param_is_mutable fc \<and> valid_params fc' = valid_params fc \<and> check_opts fc' = check_opts fc \<and>
     set (launch_checks fc) \<subseteq> set (launch_checks fc')"

lemma same_facts_refl [simp]: "same_facts fc fc"
  by (simp add: same_facts_def)

lemma same_facts_trans: "same_facts a b \<Longrightarrow> same_facts b c \<Longrightarrow> same_facts a c"
  by (auto simp: same_facts_def)

lemma same_facts_grow: "checks_grow fc fc' \<Longrightarrow> same_facts fc fc'"
proof -
  assume g: "checks_grow fc fc'"
  then obtain cs where "fc' = fc\<lparr>launch_checks := cs\<rparr>" "set (launch_checks fc) \<subseteq> set cs"
    unfolding checks_grow_def by (metis Un_upper1 set_append)
  then show ?thesis by (simp add: same_facts_def)
qed

lemma same_facts_counts [simp]:
  "same_facts fc (count_discharged fc') \<longleftrightarrow> same_facts fc fc'" "same_facts fc (fc'\<lparr>hoisted := n\<rparr>) \<longleftrightarrow> same_facts fc fc'"
  "same_facts fc (fc'\<lparr>in_place := n\<rparr>) \<longleftrightarrow> same_facts fc fc'"
  by (simp_all add: same_facts_def count_discharged_def)

lemma same_facts_goals:
  assumes "same_facts fc fc'"
  shows "form_axis_goals fc' = form_axis_goals fc" "believed_hold \<rho> fc' = believed_hold \<rho> fc"
    "coord_ok \<rho> fc' = coord_ok \<rho> fc" "extent_ok \<rho> fc' = extent_ok \<rho> fc" "checks_hold \<rho> fc' \<Longrightarrow> checks_hold \<rho> fc"
proof -
  have p: "param_index fc' = param_index fc" "valid_params fc' = valid_params fc" using assms by (simp_all add: same_facts_def)
  have "declared_view_extent fc' = declared_view_extent fc" by (intro ext) (simp only: declared_view_extent_def p)
  then show "form_axis_goals fc' = form_axis_goals fc" by (intro ext) (simp only: form_axis_goals_def)
qed (use assms in \<open>auto simp: fun_eq_iff same_facts_def believed_hold_def coord_ok_def extent_ok_def
      extent_atom_def checks_hold_def\<close>)

lemma plain_axis_same:
  assumes "plain_axis g part fc = Inr (d, fc')"
  shows "same_facts fc fc'"
proof -
  have z: "same_facts fc fc1" if "hoist_zero_coordinate_nonempty_extent g part fc = (b, fc1)" for fc fc1 b
    using same_facts_grow [OF zero_grows [OF that]] .
  have p: "same_facts fc fc1" if "discharge_by_axis_provenance g part fc = (b, fc1)" for fc fc1 b
    using same_facts_grow [OF provenance_grows [OF that]] .
  have k: "same_facts fc fc1" if "discharge_by_block_id_axiom g part fc = (b, fc1)" for fc fc1 b
    using same_facts_grow [OF block_id_grows [OF that]] .
  obtain b0 f0 where h0: "hoist_zero_coordinate_nonempty_extent g part fc = (b0, f0)" by fastforce
  obtain b1 f1 where h1: "discharge_by_axis_provenance g part fc = (b1, f1)" by fastforce
  obtain b2 f2 where h2: "discharge_by_block_id_axiom g part f1 = (b2, f2)" by fastforce
  obtain b3 f3 where h3: "hoist_zero_coordinate_nonempty_extent g part f2 = (b3, f3)" by fastforce
  have "same_facts fc f0" "same_facts fc f1" "same_facts fc f2" "same_facts fc f3"
    using z [OF h0] p [OF h1] k [OF h2] z [OF h3] same_facts_trans by blast+
  note same = this
  show ?thesis
  proof (cases "discharge_proofs (check_opts fc) \<and> \<not> b1")
    case True
    then obtain f where f: "fold_static g = (Inr f :: string fault + _)"
      using assms h1 by (auto simp: plain_axis_def Let_def and_then_eq_Inr)
    consider "f = None" | v where "f = Some (Inl v)" | u where "f = Some (Inr u)" by (metis not_None_eq sum.exhaust)
    then show ?thesis using assms True f h1 h2 h3 same by cases (auto simp: plain_axis_def Let_def split: if_splits)
  next
    case False
    then show ?thesis using assms h0 h1 same by (auto simp: plain_axis_def Let_def split: if_splits)
  qed
qed

lemma place_residual_same: "place_residual_check blk g dyn frames fc = Inr (r, fc') \<Longrightarrow> same_facts fc fc'"
  by (auto simp: place_residual_check_def Let_def and_then_eq_Inr split: prod.splits if_splits)

text \<open>The run of all axes: the values \<open>xs\<close> of the coordinates and the extents \<open>es\<close>, axis by axis.\<close>

definition axis_run ::
  "(BlockId \<Rightarrow> Value \<Rightarrow> int) \<Rightarrow> valuation \<Rightarrow> FnCompiler \<Rightarrow> TileRustValue \<Rightarrow> int list \<Rightarrow> TileRustValue list \<Rightarrow> BlockId \<Rightarrow>
   LoopFrame list \<Rightarrow> AxisGoals \<Rightarrow> int \<Rightarrow> int \<Rightarrow> bool" where
  "axis_run env \<rho> fc part static_shape shape_dims blk frames g i e \<longleftrightarrow>
     1 \<le> g_tile g \<and> coord_ok \<rho> fc g part i e \<and> extent_ok \<rho> fc g part e \<and>
     access_run env \<rho> blk frames None g i e \<and>
     (\<forall>d. g_static_extent g = None \<longrightarrow> resolve_dynamic_extent g static_shape shape_dims = Inr d \<longrightarrow>
        access_run env \<rho> blk frames (Some d) g i e)"

lemma place_axis_same: "place_axis ss dims blk frames g d fc = Inr (rs, fc') \<Longrightarrow> same_facts fc fc'"
  by (auto simp: place_axis_def and_then_eq_Inr place_residual_same split: if_splits)

lemma plain_axes_cases:
  assumes "plain_axes_from part st ss dm dims blk frames axis (idx # idxs) fc = Inr (rs, fc')"
  obtains g d fc1 rs1 fc2 rs2 where "form_axis_goals fc part st ss dm axis idx = (Inr g :: string fault + _)"
    "plain_axis g part fc = Inr (d, fc1)" "place_axis ss dims blk frames g d fc1 = Inr (rs1, fc2)"
    "plain_axes_from part st ss dm dims blk frames (axis + 1) idxs fc2 = Inr (rs2, fc')" "rs = rs1 @ rs2"
  using assms by (auto simp: and_then_eq_Inr)

lemma plain_axes_same:
  "plain_axes_from part st ss dm dims blk frames axis idxs fc = Inr (rs, fc') \<Longrightarrow> same_facts fc fc'"
proof (induction idxs arbitrary: axis fc rs)
  case (Cons idx idxs)
  from Cons.prems show ?case
    by (rule plain_axes_cases) (meson Cons.IH plain_axis_same place_axis_same same_facts_trans)
qed simp

lemma one_axis_safe:
  assumes "plain_axis g part fc = Inr (decided, fc1)" and "place_axis ss dims blk frames g decided fc1 = Inr (rs, fc2)"
    and "believed_hold \<rho> fc" and "checks_hold \<rho> fc2" and "execution_model \<rho>" and "policy_ok (check_opts fc)"
    and "\<forall>r \<in> set rs. passes (env (r_block r)) (r_check r)"
    and run: "axis_run env \<rho> fc part ss dims blk frames g i e"
  shows "in_bounds i (g_tile g) e"
proof (cases decided)
  case True
  then have "plain_axis g part fc = Inr (True, fc2)" using assms(1,2) by (simp add: place_axis_def)
  from plain_axis_safe [OF this assms(3,4,5)] run show ?thesis by (auto simp: axis_run_def)
next
  case False
  then obtain dyn r where d: "access_run env \<rho> blk frames dyn g i e"
    and r: "place_residual_check blk g dyn frames fc1 = Inr (r, fc2)" "rs = [r]"
    using assms(2) run by (auto simp: place_axis_def and_then_eq_Inr axis_run_def split: if_splits)
  have "policy_ok (check_opts fc1)" using assms(6) plain_axis_same [OF assms(1)] by (simp add: same_facts_def)
  with residual_safe [OF r(1) d] assms(7) r(2) run show ?thesis by (simp add: axis_run_def)
qed

lemma plain_axes_safe:
  assumes "plain_axes_from part st ss dm dims blk frames axis idxs fc = Inr (rs, fc')"
    and "believed_hold \<rho> fc" and "checks_hold \<rho> fc'" and "execution_model \<rho>" and "policy_ok (check_opts fc)"
    and "\<forall>r \<in> set rs. passes (env (r_block r)) (r_check r)"
    and "\<And>k g. k < length idxs \<Longrightarrow> form_axis_goals fc part st ss dm (axis + k) (idxs ! k) = (Inr g :: string fault + _) \<Longrightarrow>
      axis_run env \<rho> fc part ss dims blk frames g (x (axis + k)) (e (axis + k))"
  shows "\<forall>k < length idxs. in_bounds (x (axis + k)) (st ! (axis + k)) (e (axis + k))"
  using assms
proof (induction idxs arbitrary: axis fc rs)
  case Nil
  then show ?case by simp
next
  case (Cons idx idxs)
  from Cons.prems(1) obtain g d fc1 rs1 fc2 rs2 where
    g: "form_axis_goals fc part st ss dm axis idx = (Inr g :: string fault + _)"
    and a: "plain_axis g part fc = Inr (d, fc1)" "place_axis ss dims blk frames g d fc1 = Inr (rs1, fc2)"
    and rest: "plain_axes_from part st ss dm dims blk frames (axis + 1) idxs fc2 = Inr (rs2, fc')" and rs: "rs = rs1 @ rs2"
    by (rule plain_axes_cases)
  have s: "same_facts fc fc2" "same_facts fc2 fc'"
    using same_facts_trans [OF plain_axis_same [OF a(1)] place_axis_same [OF a(2)]] plain_axes_same [OF rest] .
  note f = same_facts_goals [OF s(1)]
  have run: "axis_run env \<rho> fc part ss dims blk frames g (x axis) (e axis)" using Cons.prems(7) [of 0 g] g by simp
  have "\<forall>r \<in> set rs1. passes (env (r_block r)) (r_check r)" using Cons.prems(6) rs by simp
  from one_axis_safe [OF a Cons.prems(2) same_facts_goals(5) [OF s(2) Cons.prems(3)] Cons.prems(4,5) this run]
  have "in_bounds (x axis) (g_tile g) (e axis)" .
  moreover have "g_tile g = st ! axis" using g by (auto simp: form_axis_goals_def and_then_eq_Inr index_def split: if_splits)
  ultimately have first: "in_bounds (x axis) (st ! axis) (e axis)" by simp
  have "\<forall>k < length idxs. in_bounds (x (axis + 1 + k)) (st ! (axis + 1 + k)) (e (axis + 1 + k))"
  proof (rule Cons.IH [OF rest])
    show "axis_run env \<rho> fc2 part ss dims blk frames h (x (axis + 1 + k)) (e (axis + 1 + k))"
      if "k < length idxs" "form_axis_goals fc2 part st ss dm (axis + 1 + k) (idxs ! k) = (Inr h :: string fault + _)" for k h
      using Cons.prems(7) [of "Suc k" h] that by (simp add: f axis_run_def)
  qed (use Cons.prems s rs f in \<open>auto simp: same_facts_def\<close>)
  with first show ?case by (auto simp: less_Suc_eq_0_disj)
qed

text \<open>
  An access that compiles is in bounds on every axis, when the launch accepted the checks that moved there and
  the checks left in the kernel pass.
\<close>

lemma check_partition_access_safe:
  assumes "check_partition_access part (st, ss, dm) dims blk frames idxs fc = Inr (rs, fc')"
    and "believed_hold \<rho> fc" and "checks_hold \<rho> fc'" and "execution_model \<rho>" and "policy_ok (check_opts fc)"
    and "\<forall>r \<in> set rs. passes (env (r_block r)) (r_check r)"
    and "\<And>k g. k < length idxs \<Longrightarrow> form_axis_goals fc part st ss dm k (idxs ! k) = (Inr g :: string fault + _) \<Longrightarrow>
      axis_run env \<rho> fc part ss dims blk frames g (x k) (e k)"
  shows "\<forall>k < length idxs. in_bounds (x k) (st ! k) (e k)"
proof -
  have "plain_axes_from part st ss dm dims blk frames 0 idxs fc = Inr (rs, fc')"
    using assms(1) by (simp add: check_partition_access_def Let_def split: if_splits)
  from plain_axes_safe [OF this assms(2-6), of x e] assms(7) show ?thesis by simp
qed

end
