(* ===== verification/AccessRun.thy ===== *)
theory AccessRun
  imports Placement
begin

text \<open>
  A kernel that loads from a partition of one parameter, \<open>x\<close>, whose first extent is only known at the launch and whose
  second extent is declared; its launch; and the values of one of its accesses.
\<close>

definition no_facts :: TileRustValue where
  "no_facts = \<lparr>tv_value = None, tv_bounds = None, tv_term = None, tv_floor_div = None, tv_tensor_origin = None,
     tv_partition_axis_origin = None, tv_index_origin = None, tv_bounded_axes = None\<rparr>"

definition sample_fc :: FnCompiler where
  "sample_fc = \<lparr>check_opts = release, assumptions = {}, param_index = [''x'' \<mapsto> 0], param_is_mutable = [False],
     valid_params = [VP_Tensor ''f32'' [-1, 8]], launch_checks = [], deny_in_kernel_checks = False,
     discharged = 0, hoisted = 0, in_place = 0\<rparr>"

definition sample_part :: TileRustValue where
  "sample_part = no_facts\<lparr>tv_value := Some (Value 0), tv_tensor_origin := Some ''x''\<rparr>"

definition sample_indexes :: "TileRustValue list" where
  "sample_indexes =
     [no_facts\<lparr>tv_value := Some (Value 1), tv_bounds := Some (bounds_exact 0)\<rparr>, no_facts\<lparr>tv_value := Some (Value 2)\<rparr>]"

definition sample_dims :: "TileRustValue list" where
  "sample_dims = [no_facts\<lparr>tv_value := Some (Value 3)\<rparr>]"

definition sample_launch :: Launch where
  "sample_launch = \<lparr>param_shapes = [[10, 8]], view_shapes = [[10, 8]], launch_grid = (1, 1, 1)\<rparr>"

fun sample_values :: valuation where
  "sample_values (Dim _ a) = (if a = 0 then 10 else 8)"
| "sample_values (ViewExtent _ a) = (if a = 0 then 10 else 8)"
| "sample_values (TileCount p a t) = ((if a = 0 then 10 else 8) + t - 1) div t"
| "sample_values (NumTileBlocks _) = 1"
| "sample_values (TileBlockId _) = 0"
| "sample_values (Iv _) = 0"

definition sample_env :: "BlockId \<Rightarrow> Value \<Rightarrow> int" where
  "sample_env b v = (if v = Value 2 then 3 else if v = Value 3 then 10 else 0)"

definition sample_access :: "string fault + Residual list \<times> FnCompiler" where
  "sample_access = check_partition_access sample_part ([4, 2], [-1, 8], [0, 1]) sample_dims (BlockId 0) [] sample_indexes sample_fc"

lemma sample_agrees: "agrees (resolve_atom sample_launch) sample_values"
  unfolding agrees_def
proof (intro allI impI)
  fix a v assume r: "resolve_atom sample_launch a = Some v"
  have g: "get_opt xs k = Some y \<longleftrightarrow> k < length xs \<and> xs ! k = y" for xs :: "'b list" and k y
    by (auto simp: get_opt_def split: if_splits)
  show "v = sample_values a"
    using r by (cases a) (auto simp: sample_launch_def extent_at_def g sdiv_nonneg less_Suc_eq split: if_splits option.splits)
qed

lemma sample_model: "execution_model sample_values"
  by (simp add: execution_model_def)

end
