(* ===== verification/Spec2Isabelle.thy ===== *)
theory Spec2Isabelle
  imports Scope RegionChecks VerifierRun DebugRun AccessRun
begin

text \<open>
  A verification of cuTile Rust in two parts: the Tile IR crate \<open>cutile-ir\<close> (the in-memory IR, its verifiers, the
  bytecode writer and the bytecode decoder), and the bounds checks of partition accesses, from the facts the compiler
  (\<open>cutile-compiler\<close>) records about values to the checks the host (\<open>cutile\<close>, \<open>cuda-async\<close>) evaluates at a launch.

  \<^bold>\<open>The program.\<close> A compiler builds a \<open>Module\<close> (\<open>ir/module.rs\<close>): arenas of values, operations,
  blocks and regions that refer to each other by 32-bit handles, plus functions and globals. The
  writer (\<open>bytecode/writer.rs\<close>, \<open>bytecode/op_writer.rs\<close>) turns a module into a file: a header and a
  sequence of aligned sections. While it writes operations it interns strings, types, constants and debug
  attributes in tables, and writes those tables as sections afterwards. The decoder
  (\<open>bytecode/decoder.rs\<close>) collects the sections and prints their contents.

  When the compiler meets a load or store of a tile, it must show for every axis that the coordinate \<open>i\<close> satisfies
  \<open>0 \<le> i\<close> and \<open>i * t < e\<close>, for the tile extent \<open>t\<close> and the tensor extent \<open>e\<close>. It records intervals (\<open>bounds.rs\<close>) and
  linear terms (\<open>cuda-async/src/predicate.rs\<close>) for values (\<open>value_facts.rs\<close>), tries a ladder of proofs
  (\<open>compiler/checks\<close>), turns what depends on launch data into predicates for the host
  (\<open>passes/obligation.rs\<close>, \<open>tile_kernel.rs\<close>), and emits the rest as assertions, before a loop where it can
  (\<open>compiler/checks/placement.rs\<close>).

  \<^bold>\<open>The model.\<close> Each theory follows one source file or one group of its functions.

  \<^item> \<open>Prelude\<close>: results of fallible code, \<open>'e fault + 'a\<close>, where a fault is an error of the source, a panic,
    or the exhaustion of fuel; sequencing; checked indexing and slicing; UTF-8.
  \<^item> \<open>Enums\<close>, \<open>IrTypes\<close>, \<open>Opcode\<close>, \<open>IrModule\<close>, \<open>Builder\<close>: the data of the IR with the source's constructors
    and wire numbers, the module's arenas, and the operation builder.
  \<^item> \<open>Requirements\<close>: which bytecode version each opcode, scalar type, attribute and target needs.
  \<^item> \<open>Encoding\<close>, \<open>Reader\<close>: the byte writer and the byte reader. Integers keep their width, arithmetic wraps
    as in a release build.
  \<^item> \<open>Interning\<close>: the string, type, constant and debug attribute tables.
  \<^item> \<open>Sections\<close>, \<open>TypeSection\<close>, \<open>DebugInfo\<close>: the file header, section headers, and the string, constant, type and
    debug sections, each with its writer and its parser.
  \<^item> \<open>AttrWriter\<close>, \<open>OpWriter\<close>, \<open>Writer\<close>: attributes, the body of each kind of operation, and operations with their
    nested regions, functions, globals and the whole file.
  \<^item> \<open>Decoder\<close>: the global and function sections and \<open>decode_bytecode\<close>.
  \<^item> \<open>Verify\<close>: the dominance verifier and the verifier of value indices of \<open>ir/module.rs\<close>.
  \<^item> \<open>Intervals\<close>, \<open>Terms\<close>, \<open>ValueFacts\<close>: interval arithmetic, canonical terms and predicates, and the facts of values.
  \<^item> \<open>LaunchChecks\<close>, \<open>Obligations\<close>: grids and launch checks on the host; the solver, the declared preconditions, the check
    policies, and the routing of obligations by the function compiler.
  \<^item> \<open>AccessChecks\<close>, \<open>Placement\<close>: the goals of one axis, the proofs, the two ladders, the placement of a check and the
    comparison it makes, and the check of a whole access.

  \<^bold>\<open>The proofs.\<close> The contracts are locales. \<open>codec\<close> (in \<open>Reader\<close>) pairs an encoder with a decoder; every wire
  format of the program that is written and read interprets it. \<open>interner\<close> (in \<open>Interning\<close>) is the contract of the
  three tables that deduplicate. \<open>step_closed\<close> and \<open>frame_rel\<close> (in \<open>StepLogic\<close> and \<open>WriterInv\<close>) carry a property of
  the elementary writer steps to every arm of the operation writer; the invariants of the tables (\<open>WriterInv\<close>) and of the value
  numbering (\<open>Numbering\<close>) are instances. \<open>TypeRoundTrip\<close>, \<open>FileFrames\<close> and \<open>RoundTrip\<close> compose these into the round
  trip of the file. \<open>Faults\<close>, \<open>WriterFuel\<close> and \<open>WriterTotal\<close> show by the locale \<open>faults\<close> which faults the writer avoids:
  with acyclic nesting it returns, and with operands in scope (\<open>Scope\<close>) it finds every operand. \<open>Upgrade\<close> compares the
  writer under two versions, \<open>RegionChecks\<close> follows its checks into nested regions. \<open>DebugRun\<close> treats the debug-info collector as a transition system. \<open>Execution\<close> runs the writer on
  sample modules by rewriting, and \<open>VerifierRun\<close> the verifiers.

  \<open>IntervalSound\<close> proves the intervals with the locale \<open>corner\<close>, the contract of an operator that takes its extremes at the
  corners of the operand ranges; bitwise operators and equality have their own arguments. \<open>TermLaws\<close> proves that terms are
  normal forms, and what predicates state, with the locale \<open>term_algebra\<close>. In \<open>AccessChecks\<close> the locale \<open>proof_source\<close> is the
  contract of a rung of the ladder: it only adds launch checks, and a positive answer implies the goals; the three rungs
  that route obligations interpret it. \<open>Placement\<close> proves that an emitted check bounds the coordinate, and composes all of it
  into the safety of an access; \<open>AccessRun\<close> is a sample kernel with its launch.

  \<^bold>\<open>Bounds and fuel.\<close> Operations nest through handles, so the recursive functions of the writer carry fuel, and
  start with one unit more than the module has operations; a nesting without cycles cannot be deeper. Sizes are
  assumed below \<open>2 ^ 32\<close> bytes where the format stores 32-bit offsets. The analysis of the compiler works on 64-bit integers,
  modelled as integers with the saturation and the overflow tests written out; kernel values wrap at 32 bits.

  \<^bold>\<open>What the access theorems assume.\<close> A valuation gives every atom its value in one block of one launch: extents are not
  negative, a tile count is the rounded-up quotient of its extent, and block ids are below the grid (\<open>execution_model\<close>). The
  facts recorded with a coordinate hold of its run-time value (\<open>coord_ok\<close>); the theorems on intervals and terms show that the
  transfer functions keep this. Provenance recorded by an iteration means that the coordinate is below the tile count it iterates.

  \<^bold>\<open>Parameters.\<close> The rounding of \<open>f64\<close> to 16-bit floats is done by the \<open>half\<close> crate; it is the argument \<open>H\<close> of the
  functions that write floats, and nothing is assumed of it.

  \<^bold>\<open>Not modelled.\<close> The translation of Rust syntax trees to Tile IR and the macros (they work on a third-party syntax
  library), so the access checks start from compiled arguments; the constant folding of the emitted comparison; the CUDA runtime
  wrappers, kernels and benchmarks (calls of the driver); and, of \<open>cutile-ir\<close>, the textual printer \<open>ir/fmt.rs\<close>, the type text
  parser of \<open>ir/types.rs\<close>, the target verifier and the toolchain discovery.
\<close>

section \<open>The whole file\<close>

text \<open>
  C1. A file the writer produces is read back by the decoder: the version, the producer, every global with its
  symbol, type, constant index, alignment and visibility, every function with its kind, name and signature, and one
  list of debug identifiers for each function. The file must be shorter than 4 GiB, since table offsets are 32 bits
  wide, and no kernel may carry optimization hints, which the decoder does not skip.
\<close>

theorem bytecode_round_trip:
  assumes "write_bytecode_version H m v = Inr bytes" and "length bytes < 2 ^ 32"
    and "\<forall>i \<in> set (mod_functions m). hints_free m i"
  shows "\<exists>d. decode_bytecode bytes = Inr d \<and> dump_version d = v \<and>
    dump_producer d = map_option shown (producer m) \<and>
    dump_globals d = map (global_line v) (enumerate 0 (globals m)) \<and>
    list_all2 (function_shown m) (mod_functions m) (dump_functions d) \<and>
    (\<exists>ls ids. dump_debug d = Some (ls, ids) \<and> length ids = length (mod_functions m))"
proof -
  obtain c ges fes pad where w: "written m v c ges fes pad"
    and b: "bytes = header_bytes v
      @ sect_bytes 12 (file_sections m v c (global_payload m ges) (function_payload m fes pad))
      @ [section_id Section_EndOfBytecode]"
    using written_file [OF assms(1)] by blast
  from decode_written [OF w b assms(2,3)] obtain ls as where
    "decode_bytecode bytes = Inr (dump_of m v c ls (map (attr_line (string_names c)) as))"
    "list_all2 (function_shown m) (mod_functions m) ls" by blast
  with w show ?thesis by (auto simp: dump_of_def written_def)
qed

theorem bytecode_round_trip_witness:
  "\<exists>bytes d. write_bytecode_version half0 sample CURRENT = Inr bytes \<and> decode_bytecode bytes = Inr d \<and>
     dump_producer d = Some ''p'' \<and> length (dump_globals d) = 1 \<and> length (dump_functions d) = 1"
proof -
  obtain bytes where b: "write_bytecode_version half0 sample CURRENT = Inr bytes" "length bytes < 2 ^ 32"
    using sample_written by (auto simp: write_bytecode_def split: sum.splits)
  have "\<forall>i \<in> set (mod_functions sample). hints_free sample i"
    by (simp add: hints_free_def hinted_def exec)
  from bytecode_round_trip [OF b this] obtain d where d: "decode_bytecode bytes = Inr d"
     "dump_producer d = map_option shown (producer sample)"
     "dump_globals d = map (global_line CURRENT) (enumerate 0 (globals sample))"
     "list_all2 (function_shown sample) (mod_functions sample) (dump_functions d)" by blast
  moreover have "shown ''p'' = ''p''" by (rule shown_rust_str) code_simp
  moreover have "length (dump_functions d) = 1" using list_all2_lengthD [OF d(4)] by (simp add: sample_sel)
  ultimately show ?thesis using b by (simp add: sample_sel)
qed

section \<open>Partition accesses\<close>

text \<open>
  C2. A partition access that compiles is in bounds on every axis. Each coordinate is either decided by a proof of the
  compiler, or by a check the host evaluates at the launch, or by a check emitted in the kernel; when the declared
  preconditions hold, the host accepted the launch, and the emitted checks pass, then on every axis the coordinate is
  not negative and its tile starts inside the extent. The values of the kernel are 32-bit, the facts recorded for the
  coordinates hold of them, and block ids are below the grid.
\<close>

theorem partition_access_safe:
  assumes "check_partition_access part (st, ss, dm) dims blk frames idxs fc = Inr (rs, fc')"
    and "assumptions fc = from_preconditions facts (param_index fc)"
    and "\<forall>f \<in> set facts. fact_holds \<rho> (param_index fc) f"
    and "validate_launch_checks L (launch_checks fc') = Inr ()" and "agrees (resolve_atom L) \<rho>"
    and "execution_model \<rho>" and "policy_ok (check_opts fc)"
    and "\<forall>r \<in> set rs. passes (env (r_block r)) (r_check r)"
    and "\<And>k g. k < length idxs \<Longrightarrow> form_axis_goals fc part st ss dm k (idxs ! k) = (Inr g :: string fault + _) \<Longrightarrow>
      axis_run env \<rho> fc part ss dims blk frames g (x k) (e k)"
  shows "\<forall>k < length idxs. 0 \<le> x k \<and> x k * (st ! k) < e k"
proof -
  have "believed_hold \<rho> fc" using from_preconditions_sound [OF assms(3)] assms(2) by (simp add: believed_hold_def)
  from check_partition_access_safe [OF assms(1) this validated_hold [OF assms(4,5)] assms(6,7,8), of x e] assms(9)
  show ?thesis by (simp add: in_bounds_def)
qed

theorem partition_access_safe_witness:
  "\<exists>rs fc'. sample_access = Inr (rs, fc') \<and> length (launch_checks fc') = 1 \<and> length rs = 1 \<and>
     0 \<le> (0::int) \<and> (0::int) * 4 < 10 \<and> 0 \<le> (3::int) \<and> (3::int) * 2 < 8"
proof -
  have "case sample_access of
      Inr (rs, fc') \<Rightarrow> length (launch_checks fc') = 1 \<and> length rs = 1 \<and>
        validate_launch_checks sample_launch (launch_checks fc') = Inr () \<and>
        list_all (\<lambda>r. passes (sample_env (r_block r)) (r_check r)) rs
    | Inl _ \<Rightarrow> False" by code_simp
  then obtain rs fc' where r: "sample_access = Inr (rs, fc')" "length (launch_checks fc') = 1" "length rs = 1"
      "validate_launch_checks sample_launch (launch_checks fc') = Inr ()"
      "\<forall>r \<in> set rs. passes (sample_env (r_block r)) (r_check r)"
    by (auto simp: list_all_iff split: sum.splits)
  have "\<forall>k < length sample_indexes. 0 \<le> ([0, 3] ! k :: int) \<and> ([0, 3] ! k) * ([4, 2] ! k) < ([10, 8] ! k :: int)"
  proof (rule partition_access_safe [where facts = "[]", OF r(1) [unfolded sample_access_def] _ _ r(4) sample_agrees sample_model _ r(5)])
    show "assumptions sample_fc = from_preconditions [] (param_index sample_fc)"
      by (simp add: sample_fc_def from_preconditions_def)
    show "policy_ok (check_opts sample_fc)" by (simp add: sample_fc_def policies_ok)
    show "axis_run sample_env sample_values sample_fc sample_part [-1, 8] sample_dims (BlockId 0) [] g ([0, 3] ! k) ([10, 8] ! k)"
      if "k < length sample_indexes"
        "form_axis_goals sample_fc sample_part [4, 2] [-1, 8] [0, 1] k (sample_indexes ! k) = (Inr g :: string fault + _)" for k g
      using that
      by (auto simp: sample_indexes_def less_Suc_eq form_axis_goals_def index_def sample_fc_def sample_part_def no_facts_def
          declared_view_extent_def get_opt_def axis_run_def access_run_def coord_ok_def extent_ok_def extent_atom_def
          bounds_ok_def term_ok_def is_i32_def sample_env_def resolve_dynamic_extent_def sample_dims_def
          bounds_exact_def inside_def wf_bounds_def in_i64_def I64_MIN_def I64_MAX_def)
  qed simp
  then show ?thesis using r by (auto simp: sample_indexes_def)
qed

text \<open>
  C10. A check emitted at the access itself passes exactly when the coordinate is in bounds: the comparison neither wraps
  nor rejects an access that is safe, for every extent and tile of the 32-bit range.
\<close>

theorem in_place_check_exact:
  assumes "place_residual_check blk g dyn frames fc = Inr (r, fc')" and "r_block r = blk"
    and "fst (classify_hoist fc g dyn blk frames) = None"
    and "access_run env \<rho> blk frames dyn g i e" and "1 \<le> g_tile g"
  shows "passes (env blk) (r_check r) \<longleftrightarrow> 0 \<le> i \<and> i * g_tile g < e"
  using in_place_exact [OF assms] by (simp add: in_bounds_def)

theorem in_place_check_exact_witness:
  "\<exists>r::Residual. passes (\<lambda>_. 3) (r_check r) \<and> \<not> passes (\<lambda>_. 5) (r_check r) \<and> r_block r = BlockId 0"
proof -
  let ?g = "\<lparr>g_axis = 1, g_extent_axis = 1, g_tile = 2, g_static_extent = Some 9,
      g_index = no_facts\<lparr>tv_value := Some (Value 2)\<rparr>\<rparr>"
  have c: "fst (classify_hoist sample_fc ?g None (BlockId 0) []) = None" by code_simp
  have "case place_residual_check (BlockId 0) ?g None [] sample_fc of Inr (r, _) \<Rightarrow> r_block r = BlockId 0 | Inl _ \<Rightarrow> False"
    by code_simp
  then obtain r fc' where r: "place_residual_check (BlockId 0) ?g None [] sample_fc = Inr (r, fc')" "r_block r = BlockId 0"
    by (auto split: sum.splits)
  have run: "access_run (\<lambda>_ _. i) sample_values (BlockId 0) [] None ?g i 9" if "is_i32 i" for i
    using that by (simp add: access_run_def no_facts_def bounds_ok_def term_ok_def is_i32_def)
  have "is_i32 3" "is_i32 5" by (simp_all add: is_i32_def)
  note i = this
  have "passes (\<lambda>_. 3) (r_check r)" using in_place_check_exact [OF r c run [OF i(1)]] by simp
  moreover have "\<not> passes (\<lambda>_. 5) (r_check r)" using in_place_check_exact [OF r c run [OF i(2)]] by simp
  ultimately show ?thesis using r(2) by blast
qed



text \<open>
  C12. An obligation that the compiler reports as settled holds in every launch the host accepts, when the declared
  preconditions hold: it was decided, or believed, or added to the checks of the launch.
\<close>

theorem obligation_lowering_sound:
  assumes "lower_obligation p cause fc = (True, fc')"
    and "assumptions fc = from_preconditions facts (param_index fc)"
    and "\<forall>f \<in> set facts. fact_holds \<rho> (param_index fc) f"
    and "validate_launch_checks L (launch_checks fc') = Inr ()" and "agrees (resolve_atom L) \<rho>"
  shows "pred_holds \<rho> p"
proof -
  have "believed_hold \<rho> fc" using from_preconditions_sound [OF assms(3)] assms(2) by (simp add: believed_hold_def)
  from lower_obligation_sound [OF assms(1) this validated_hold [OF assms(4,5)]] show ?thesis .
qed

theorem obligation_lowering_sound_witness:
  "pred_holds sample_values (Nonzero (term_atom (Dim 0 0)))"
proof -
  let ?p = "Nonzero (term_atom (Dim 0 0))"
  have "case lower_obligation ?p ''extent'' sample_fc of
      (b, fc') \<Rightarrow> b \<and> validate_launch_checks sample_launch (launch_checks fc') = Inr ()" by code_simp
  then obtain fc' where r: "lower_obligation ?p ''extent'' sample_fc = (True, fc')"
      "validate_launch_checks sample_launch (launch_checks fc') = Inr ()"
    by (auto split: prod.splits)
  show ?thesis
    by (rule obligation_lowering_sound [where facts = "[]", OF r(1) _ _ r(2) sample_agrees])
      (simp_all add: sample_fc_def from_preconditions_def)
qed


section \<open>Value numbering\<close>



text \<open>
  C4. An operand is written as the position of its value in scope, so a reader that keeps the list of values in scope
  finds the same values again.
\<close>

theorem operands_name_scope:
  assumes "write_operands opn encode_size s = Inr t" and "scoped (fst s) vs"
  shows "\<exists>js. map ((!) vs) js = operands opn \<and> (\<forall>j \<in> set js. j < length vs) \<and> fst t = fst s \<and>
     buf (snd t) = buf (snd s) @ (if encode_size then varint (as_u64 (length (operands opn))) else [])
       @ concat (map (\<lambda>j. varint (as_u64 j)) js)"
proof -
  define s1 where "s1 = (if encode_size then (fst s, write_varint (as_u64 (length (operands opn))) (snd s)) else s)"
  have "for_each (put_operand opn) (operands opn) s1 = Inr t"
    using assms(1) by (auto simp: write_operands_def s1_def act_if_def put_varint_def put_def acts_funs split: if_splits)
  moreover have "scoped (fst s1) vs" using assms(2) by (simp add: s1_def)
  ultimately obtain js where "map ((!) vs) js = operands opn" "\<forall>j \<in> set js. j < length vs"
     "t = (fst s1, fold (\<lambda>j. write_varint (as_u64 j)) js (snd s1))" using put_operands_scoped by blast
  then show ?thesis by (intro exI [of _ js])
     (simp add: s1_def buf_fold_appending [of "\<lambda>j. write_varint (as_u64 j)", OF buf_write_varint] layout_simps)
qed

theorem operands_name_scope_witness:
  "\<exists>t js. write_operands (plain_op Op_AddI [Value 7, Value 4] [] [] []) False
     ((writer_ctx_new sample V13_4)\<lparr>value_map := [Value 4 \<mapsto> 0, Value 7 \<mapsto> 1], next_idx := 2\<rparr>, writer_new) = Inr t \<and>
     map ((!) [Value 4, Value 7]) js = [Value 7, Value 4] \<and>
     buf (snd t) = concat (map (\<lambda>j. varint (as_u64 j)) js)"
proof -
  let ?o = "plain_op Op_AddI [Value 7, Value 4] [] [] []"
  let ?s = "((writer_ctx_new sample V13_4)\<lparr>value_map := [Value 4 \<mapsto> 0, Value 7 \<mapsto> 1], next_idx := 2\<rparr>, writer_new)"
  have "case write_operands ?o False ?s of Inr t \<Rightarrow> True | _ \<Rightarrow> False"
    by (simp add: exec act_if_def cong: eager)
  then obtain t where t: "write_operands ?o False ?s = Inr t" by (auto split: sum.splits)
  have "scoped (fst ?s) [Value 4, Value 7]"
    by (auto simp: scoped_def less_Suc_eq split: if_splits)
  from operands_name_scope [OF t this] obtain js where
    "map ((!) [Value 4, Value 7]) js = operands ?o" "buf (snd t) = buf writer_new @ [] @ concat (map (\<lambda>j. varint (as_u64 j)) js)"
    by auto
  with t show ?thesis by (intro exI [of _ t] exI [of _ js]) (simp add: plain_op_sel buf_writer_new)
qed

section \<open>Tables\<close>

text \<open>
  C5. Writing an operation keeps the string, type and debug tables well formed, and only ever appends to them, so an
  index that was written earlier keeps its meaning.
\<close>

theorem tables_invariant:
  assumes "write_operation H n i s = Inr t" and "tables_ok (fst s)"
  shows "tables_ok (fst t) \<and> tables_extend (fst s) (fst t)"
  using ensuresD [OF write_operation_tables assms(1)] assms(2) by (simp add: tables_frame_def)

theorem tables_invariant_witness:
  "\<exists>t. write_operation half0 1 (OpId 1) (writer_ctx_new sample V13_4, writer_new) = Inr t \<and> tables_ok (fst t)"
proof -
  have "case write_operation half0 1 (OpId 1) (writer_ctx_new sample V13_4, writer_new) of
    Inr t \<Rightarrow> True | _ \<Rightarrow> False"
    by (simp add: One_nat_def exec cong: eager)
  then obtain t where t: "write_operation half0 1 (OpId 1) (writer_ctx_new sample V13_4, writer_new) = Inr t"
    by (auto split: sum.splits)
  have "tables_ok (writer_ctx_new sample V13_4)"
    by (simp add: tables_ok_def writer_ctx_new_def types_wf_new debug_inv_new [OF debug_ok_new])
  with tables_invariant [OF t] t show ?thesis by simp
qed

text \<open>
  C6. The type table, whatever types it was asked for and in whatever order: no type occurs twice, the components of a
  type stand before it, and every type that was asked for keeps the number of its position.
\<close>

theorem type_ids:
  "let m = register_all tys in distinct (ty_list m) \<and>
    (\<forall>i < length (ty_list m). set (register_deps (ty_list m ! i)) \<subseteq> set (take i (ty_list m))) \<and>
    (\<forall>ty \<in> set tys. \<exists>j < length (ty_list m). ty_list m ! j = ty \<and> type_get_or_insert ty m = (as_u64 j, m))"
proof -
  define m where "m = register_all tys"
  have w: "types_wf m" unfolding m_def by (rule register_all_wf)
  have "\<exists>j < length (ty_list m). ty_list m ! j = ty \<and> type_get_or_insert ty m = (as_u64 j, m)" if "ty \<in> set tys" for ty
    using register_all_member [OF that] typs.intern_position [OF w] unfolding in_set_conv_nth m_def [symmetric] by auto
  with typs.keys_distinct [OF w] w show ?thesis by (simp add: Let_def m_def [symmetric] types_wf_def)
qed

theorem type_ids_witness:
  "\<exists>j < length (ty_list (register_all [Ty_Func [] [i32_tile], i32_tile])).
     type_get_or_insert i32_tile (register_all [Ty_Func [] [i32_tile], i32_tile])
       = (as_u64 j, register_all [Ty_Func [] [i32_tile], i32_tile])"
  using type_ids [of "[Ty_Func [] [i32_tile], i32_tile]"] by (auto simp: Let_def)

section \<open>Sections\<close>

text \<open>
  C7. A type section that is written is read back as the text of every type of the table, in order.
\<close>

theorem type_section_round_trip:
  assumes "write_type_section out m v = Inr out'" and "types_wf m" and "ty_list m \<noteq> []"
    and "length out' < 2 ^ 32"
  shows "\<exists>payload. out' = write_section_header out Section_Type (length payload) 4 @ payload \<and>
    parse_type_section (Some payload) v = Inr (map (type_desc None) (ty_list m))"
proof -
  have e: "\<forall>ty \<in> set (ty_list m). encodable v ty" using write_type_section_encodable [OF assms(1)] by blast
  have o: "out' = write_section_header out Section_Type (length (type_payload m v)) 4 @ type_payload m v"
    using write_type_section_eq [OF assms(2) e, of out] assms(1,3) by simp
  then have "length (type_payload m v) < 2 ^ 32" using assms(4) by simp
  with type_payload_size [of m v] have "length (ty_list m) < 2 ^ 32" "length (concat (type_entries m v)) < 2 ^ 32" by linarith+
  with o parse_type_payload [OF assms(2) e assms(3)] show ?thesis by blast
qed

theorem type_section_round_trip_witness:
  "\<exists>out' payload. write_type_section [] (register_all [i32_tile]) V13_3 = Inr out' \<and>
     parse_type_section (Some payload) V13_3 = Inr (map (type_desc None) (ty_list (register_all [i32_tile])))"
proof -
  have "case write_type_section [] (register_all [i32_tile]) V13_3 of Inr out' \<Rightarrow> length out' < 2 ^ 32 | _ \<Rightarrow> False"
    by (simp add: register_all_def exec cong: eager)
  then obtain out' where o: "write_type_section [] (register_all [i32_tile]) V13_3 = Inr out'" "length out' < 2 ^ 32"
    by (auto split: sum.splits)
  have "ty_list (register_all [i32_tile]) \<noteq> []" using register_all_member [of i32_tile "[i32_tile]"] by auto
  with type_section_round_trip [OF o(1) register_all_wf] o show ?thesis by blast
qed

text \<open>
  C8. The debug section of a collector that any sequence of functions and operations has filled is read back as the
  attributes of its table and the identifiers it recorded for each function.
\<close>

theorem debug_section_round_trip:
  assumes "debug_reach ss d" and "length (fst (write_debug_section out d)) < 2 ^ 32"
  shows "\<exists>payload as. fst (write_debug_section out d) = write_section_header out Section_Debug (length payload) 8 @ payload \<and>
    da_entries (ensure_non_empty (attrs d)) = map enc_attr as \<and>
    parse_debug_section payload names = Inr (map (attr_line names) as, per_function d)"
proof -
  have "length (debug_payload d) < 2 ^ 32" using assms(2) by (simp add: write_debug_section_eq)
  with debug_payload_size [of d] have n: "length (per_function d) < 2 ^ 32" "length (concat (per_function d)) < 2 ^ 32"
    "length (da_entries (ensure_non_empty (attrs d))) < 2 ^ 32"
    "length (concat (da_entries (ensure_non_empty (attrs d)))) < 2 ^ 32" by linarith+
  have "debug_ok ss (attrs d)" using debug_reach_inv [OF assms(1)] by (simp add: debug_inv_def)
  from parse_debug_payload [OF this n] obtain as where
    "da_entries (ensure_non_empty (attrs d)) = map enc_attr as"
    "parse_debug_section (debug_payload d) names = Inr (map (attr_line names) as, per_function d)" by blast
  then show ?thesis by (intro exI [of _ "debug_payload d"] exI [of _ as]) (simp add: write_debug_section_eq)
qed

theorem debug_section_round_trip_witness:
  "\<exists>payload as. parse_debug_section payload [] = Inr (map (attr_line []) as, []) \<and> length as = 1"
proof -
  have n: "length (fst (write_debug_section [] debug_new)) < 2 ^ 32" by (simp add: exec cong: eager)
  have "length (da_entries (ensure_non_empty (attrs debug_new))) = 1" by (simp add: exec)
  moreover obtain payload as where "da_entries (ensure_non_empty (attrs debug_new)) = map enc_attr as"
    "parse_debug_section payload [] = Inr (map (attr_line []) as, per_function debug_new)"
    using debug_section_round_trip [OF debug_reach.start n, of "[]"] by blast
  ultimately show ?thesis by (intro exI [of _ payload] exI [of _ as]) (simp add: debug_new_def)
qed

text \<open>
  C9. Every identifier the collector recorded is either the one for a missing attribute or the number of an entry of its
  table, and an entry refers only to entries before it and to strings of the string table.
\<close>

theorem debug_references_resolve:
  assumes "debug_reach ss d"
  shows "(\<forall>l \<in> set (per_function d). l \<noteq> [] \<and> (\<forall>i \<in> set l. unat i \<le> length (da_entries (attrs d)))) \<and>
    (\<forall>j < length (da_entries (attrs d)). entry_resolves ss j (da_entries (attrs d) ! j))"
  using debug_inv_resolves [OF debug_reach_inv [OF assms]] by blast

theorem debug_references_resolve_witness:
  "\<exists>ss d. debug_reach ss d \<and> length (per_function d) = 1 \<and>
     (\<forall>l \<in> set (per_function d). l \<noteq> [] \<and> (\<forall>i \<in> set l. unat i \<le> length (da_entries (attrs d))))"
proof -
  obtain i ss d where b: "begin_function ''k'' None (Loc_FileLineCol ''src/k.rs'' 3 5) strings_new debug_new = (i, ss, d)"
    using prod_cases3 by blast
  have r: "debug_reach ss d" by (rule debug_reach.open_function [OF debug_reach.start b])
  have "length (per_function d) = 1"
    using begin_function_inv [OF debug_inv_new [OF debug_ok_new] b] by (simp add: debug_new_def)
  with debug_references_resolve [OF r] r show ?thesis by blast
qed

text \<open>
  C31. A string section that is written is read back as the strings of the table, in order.
\<close>

theorem string_section_round_trip:
  assumes "write_string_section out m = Inr out'" and "str_map m \<noteq> []" and "length out' < 2 ^ 32"
    and "\<forall>s \<in> fst ` set (str_map m). rust_str s"
  shows "\<exists>payload. out' = write_section_header out Section_String (length payload) 4 @ payload \<and>
    parse_string_section (Some payload) = Inr (map fst (str_map m))"
proof -
  have o: "out' = write_section_header out Section_String (length (string_payload m)) 4 @ string_payload m"
    using assms(1,2) by (simp add: write_string_section_eq)
  then have "length (string_payload m) < 2 ^ 32" using assms(3) by simp
  with string_payload_size [of m] have "parse_string_section (Some (string_payload m)) = Inr (map (shown \<circ> fst) (str_map m))"
    by (intro parse_string_payload assms(2)) linarith+
  moreover have "map (shown \<circ> fst) (str_map m) = map fst (str_map m)" using assms(4) by simp
  ultimately show ?thesis using o by auto
qed

theorem string_section_round_trip_witness:
  "\<exists>out' payload. write_string_section [] \<lparr>str_map = [(''k'', 0), ('''', 1)]\<rparr> = Inr out' \<and>
     parse_string_section (Some payload) = Inr [''k'', '''']"
proof -
  let ?m = "\<lparr>str_map = [(''k'', 0), ('''', 1)]\<rparr>"
  have "case write_string_section [] ?m of Inr out' \<Rightarrow> length out' < 2 ^ 32 | _ \<Rightarrow> False"
    by (simp add: exec cong: eager)
  then obtain out' where o: "write_string_section [] ?m = Inr out'" "length out' < 2 ^ 32" by (auto split: sum.splits)
  have "rust_str ''k''" "rust_str []" by code_simp+
  with string_section_round_trip [OF o(1) _ o(2)] o show ?thesis by auto
qed

text \<open>
  C32. A constant section that is written is read back as the byte strings of the table, in order.
\<close>

theorem constant_section_round_trip:
  assumes "write_constant_section out m = Inr out'" and "const_entries m \<noteq> []" and "length out' < 2 ^ 32"
  shows "\<exists>payload. out' = write_section_header out Section_Constant (length payload) 8 @ payload \<and>
    parse_constant_section (Some payload) = Inr (const_entries m)"
proof -
  have o: "out' = write_section_header out Section_Constant (length (constant_payload m)) 8 @ constant_payload m"
    using assms(1,2) by (simp add: write_constant_section_eq)
  then have l: "length (constant_payload m) < 2 ^ 32" using assms(3) by simp
  then have "length (constant_payload m) < isize_top" by (rule less_trans) simp
  with o l constant_payload_size [of m] parse_constant_payload [of m] assms(2) show ?thesis by auto
qed

theorem constant_section_round_trip_witness:
  "\<exists>out' payload. write_constant_section [] \<lparr>const_entries = [[1, 2, 3], [4]]\<rparr> = Inr out' \<and>
     parse_constant_section (Some payload) = Inr [[1, 2, 3], [4]]"
proof -
  let ?m = "\<lparr>const_entries = [[1, 2, 3], [4]]\<rparr>"
  have "case write_constant_section [] ?m of Inr out' \<Rightarrow> length out' < 2 ^ 32 | _ \<Rightarrow> False"
    by (simp add: exec cong: eager)
  then obtain out' where o: "write_constant_section [] ?m = Inr out'" "length out' < 2 ^ 32" by (auto split: sum.splits)
  with constant_section_round_trip [OF o(1) _ o(2)] show ?thesis by auto
qed

text \<open>
  C33. A section header is read back with its identifier and length, and leaves the payload at a multiple of the
  alignment it asks for.
\<close>

theorem section_header_round_trip:
  assumes "sid \<noteq> Section_EndOfBytecode" and "len < usize_top" and "al > 1"
    and "length (write_section_header out sid len al) + length rest < isize_top"
  shows "\<exists>hdr. write_section_header out sid len al = out @ hdr \<and>
    read_section_header (reader_at out (hdr @ rest))
      = Inr (\<lparr>sh_id = section_id sid, sh_data_len = len\<rparr>, reader_at (out @ hdr) rest) \<and>
    length (out @ hdr) mod unat al = 0"
proof -
  define hdr where "hdr = section_header_bytes (length out) sid len al"
  have w: "write_section_header out sid len al = out @ hdr" by (simp add: write_section_header_eq hdr_def)
  have n: "length out + length (hdr @ rest) < isize_top" using assms(4) w by simp
  then have a: "at (reader_at out (hdr @ rest)) (hdr @ rest)" by (rule at_reader_at)
  have p: "pos (reader_at out (hdr @ rest)) = length out" by (simp add: reader_at_def)
  have "read_section_header (reader_at out (hdr @ rest)) = Inr (\<lparr>sh_id = section_id sid, sh_data_len = len\<rparr>, advance (length hdr) (reader_at out (hdr @ rest)))"
    using read_section_header_at [of "reader_at out (hdr @ rest)" sid len al rest, unfolded p, folded hdr_def] a assms(1,2) by blast
  then have r: "read_section_header (reader_at out (hdr @ rest)) = Inr (\<lparr>sh_id = section_id sid, sh_data_len = len\<rparr>, reader_at (out @ hdr) rest)"
    by (simp only: advance_reader_at)
  have "length out + length hdr < usize_top" using n by simp
  then have "length (out @ hdr) mod unat al = 0"
    using section_header_aligns [OF assms(3), of "length out" sid len] by (simp only: hdr_def length_append)
  with w r show ?thesis by (intro exI [of _ hdr] conjI)
qed

theorem section_header_round_trip_witness:
  "\<exists>hdr. write_section_header [0, 1, 2] Section_Func 300 8 = [0, 1, 2] @ hdr \<and>
    read_section_header (reader_at [0, 1, 2] (hdr @ [7]))
      = Inr (\<lparr>sh_id = section_id Section_Func, sh_data_len = 300\<rparr>, reader_at ([0, 1, 2] @ hdr) [7]) \<and>
    length ([0, 1, 2] @ hdr) mod 8 = 0"
proof -
  have "length (write_section_header [0, 1, 2] Section_Func 300 8) + length [7 :: u8] < isize_top"
    by (simp add: exec cong: eager)
  from section_header_round_trip [OF _ _ _ this] show ?thesis by simp
qed

section \<open>Facts about values\<close>

text \<open>
  C14. The interval computed for an operation holds every result of the operation on members of the operand intervals,
  for all operators, with results past the 64-bit range clamped to its ends.
\<close>

theorem interval_covers:
  assumes "wf_bounds a" and "wf_bounds b" and "inside x a" and "inside y b" and "exact_value bop x y = Some v"
    and "bop \<in> {Bop_CeilDiv, Bop_Div, Bop_TrueDiv, Bop_Rem} \<Longrightarrow> \<not> inside 0 b"
  shows "\<exists>c. bounds_from_bop bop a b = Inr (Some c) \<and> wf_bounds c \<and> inside (sat v) c"
  using bounds_from_bop_covers [OF assms] by (simp add: covers_def)

theorem interval_covers_witness:
  "\<exists>c. bounds_from_bop Bop_Rem (bounds_new (- 7) 20) (bounds_new (- 3) (- 2)) = Inr (Some c) \<and> wf_bounds c \<and> inside (sat (- 1)) c"
  by (rule interval_covers [of _ _ "- 7" "- 2"]) code_simp+

text \<open>
  C15. No interval is computed exactly for shifts and for a division or remainder whose divisor may be zero.
\<close>

theorem interval_undefined:
  assumes "wf_bounds a" and "wf_bounds b"
  shows "bounds_from_bop bop a b = Inr None \<longleftrightarrow>
    bop \<in> {Bop_Shl, Bop_Shr} \<or> bop \<in> {Bop_CeilDiv, Bop_Div, Bop_TrueDiv, Bop_Rem} \<and> inside 0 b"
  using bounds_from_bop_none [OF assms, of bop] by blast

theorem interval_undefined_witness:
  "bounds_from_bop Bop_Div (bounds_new 1 10) (bounds_new (- 1) 2) = Inr None \<and>
   bounds_from_bop Bop_Div (bounds_new 1 10) (bounds_new 1 2) \<noteq> Inr None"
proof -
  have w: "wf_bounds (bounds_new 1 10)" "wf_bounds (bounds_new (- 1) 2)" "wf_bounds (bounds_new 1 2)" by code_simp+
  show ?thesis using interval_undefined [OF w(1,2), of Bop_Div] interval_undefined [OF w(1,3), of Bop_Div]
    by (simp add: inside_def bounds_new_def)
qed

text \<open>
  C16. When the compiler keeps an interval for the result of an operation on a machine type, the operation does not wrap:
  the exact result lies in the interval and in the type, and is the machine result.
\<close>

theorem interval_fact_exact:
  assumes "int_value_domain ty = Some d" and "transfer bop lhs rhs (Some d) = Inr facts" and "sf_bounds facts = Some c"
    and "bounds_ok lhs x" and "bounds_ok rhs y" and "exact_value bop x y = Some v"
  shows "inside v c \<and> inside v d \<and> machine d v = v"
  using transfer_exact [OF assms] by blast

theorem interval_fact_exact_witness:
  "inside 12 (bounds_new 0 20) \<and> inside 12 (bounds_new 0 (2 ^ 32 - 1)) \<and> machine (bounds_new 0 (2 ^ 32 - 1)) 12 = 12"
proof -
  let ?a = "no_facts\<lparr>tv_bounds := Some (bounds_new 0 5)\<rparr>" and ?b = "no_facts\<lparr>tv_bounds := Some (bounds_exact 4)\<rparr>"
  let ?d = "bounds_new 0 (2 ^ 32 - 1)"
  let ?f = "\<lparr>sf_bounds = Some (bounds_new 0 20), sf_term = None, sf_floor_div = None\<rparr>"
  have "int_value_domain ''u32'' = Some ?d" by code_simp
  moreover have "transfer Bop_Mul ?a ?b (Some ?d) = Inr ?f" by code_simp
  moreover have "bounds_ok ?a 3" "bounds_ok ?b 4"
    by (simp_all add: bounds_ok_def bounds_new_def bounds_exact_def wf_bounds_def inside_def in_i64_def I64_MIN_def I64_MAX_def)
  moreover have "exact_value Bop_Mul 3 4 = Some 12" by code_simp
  ultimately show ?thesis using interval_fact_exact [of "''u32''" ?d Bop_Mul ?a ?b ?f "bounds_new 0 20" 3 4 12] by simp
qed

text \<open>
  C17. The linear term kept for the result of an operation agrees with the wrapped 32-bit result modulo the size of the
  type.
\<close>

theorem term_fact_congruent:
  assumes "propagate_term bop lhs rhs = Some t" and "exact_value bop x y = Some v"
    and "term_ok (2 ^ 32) \<rho> lhs x" and "bounds_ok lhs x" and "term_ok (2 ^ 32) \<rho> rhs y" and "bounds_ok rhs y"
  shows "wf_term t \<and> 2 ^ 32 dvd wrap32 v - term_val \<rho> t"
proof -
  have "2 ^ 32 dvd wrap32 v - v"
    unfolding wrap32_def by (metis (no_types, opaque_lifting) add_diff_cancel_right' diff_diff_eq2 diff_add_eq dvd_minus_mod dvd_diff_commute)
  moreover have "wf_term t" "2 ^ 32 dvd v - term_val \<rho> t" using propagate_term_congruent [OF assms] by blast+
  ultimately show ?thesis using dvd_add [of "2 ^ 32" "wrap32 v - v" "v - term_val \<rho> t"] by simp
qed

theorem term_fact_congruent_witness:
  "\<exists>t. propagate_term Bop_Mul (no_facts\<lparr>tv_term := Some (term_atom (Iv 1))\<rparr>) (no_facts\<lparr>tv_bounds := Some (bounds_exact 4)\<rparr>) = Some t \<and>
     2 ^ 32 dvd wrap32 (2 ^ 30 * 4) - term_val (\<lambda>_. 2 ^ 30) t"
proof -
  let ?a = "no_facts\<lparr>tv_term := Some (term_atom (Iv 1))\<rparr>" and ?b = "no_facts\<lparr>tv_bounds := Some (bounds_exact 4)\<rparr>"
  have "propagate_term Bop_Mul ?a ?b \<noteq> None" by code_simp
  then obtain t where t: "propagate_term Bop_Mul ?a ?b = Some t" by blast
  have "exact_value Bop_Mul (2 ^ 30) 4 = Some (2 ^ 30 * 4)" by code_simp
  moreover have "term_ok (2 ^ 32) (\<lambda>_. 2 ^ 30) ?a (2 ^ 30)" "bounds_ok ?a (2 ^ 30)" "term_ok (2 ^ 32) (\<lambda>_. 2 ^ 30) ?b 4" "bounds_ok ?b 4"
    by (simp_all add: no_facts_def term_ok_def bounds_ok_def bounds_exact_def wf_bounds_def inside_def in_i64_def I64_MIN_def I64_MAX_def)
  ultimately show ?thesis using t term_fact_congruent [OF t] by blast
qed

text \<open>
  C18. The range computed for a term from the ranges of its atoms holds its value.
\<close>

theorem term_range_covers:
  assumes "term_range t r = Some c" and "wf_term t" and "\<And>a b. r a = Some b \<Longrightarrow> inside (\<rho> a) b"
  shows "wf_bounds c \<and> inside (term_val \<rho> t) c"
  by (rule term_range_sound [OF assms])

theorem term_range_covers_witness:
  "wf_bounds (bounds_new 3 11) \<and> inside 7 (bounds_new 3 11)"
proof -
  have "term_range (term_affine (Iv 1) 2 3) (\<lambda>_. Some (bounds_new 0 4)) = Some (bounds_new 3 11)" by code_simp
  moreover have "wf_term (term_affine (Iv 1) 2 3)" by code_simp
  ultimately show ?thesis
    using term_range_covers [of "term_affine (Iv 1) 2 3" "\<lambda>_. Some (bounds_new 0 4)" "bounds_new 3 11" "\<lambda>_. 2"]
    by (simp add: inside_def bounds_new_def term_affine_val)
qed

section \<open>Predicates and launches\<close>



text \<open>
  C20. The predicates state what they are named for: equality, strict and weak order, divisibility, and being non-zero.
\<close>

theorem predicate_meaning:
  assumes "wf_term a" and "wf_term b" and "in_i64 d"
  shows "(pred_eq a b = Some p \<longrightarrow> (pred_holds \<rho> p \<longleftrightarrow> term_val \<rho> a = term_val \<rho> b)) \<and>
    (pred_lt a b = Some p \<longrightarrow> (pred_holds \<rho> p \<longleftrightarrow> term_val \<rho> a < term_val \<rho> b)) \<and>
    (pred_le a b = Some p \<longrightarrow> (pred_holds \<rho> p \<longleftrightarrow> term_val \<rho> a \<le> term_val \<rho> b)) \<and>
    (pred_divisible_by a d = Some p \<longrightarrow> (pred_holds \<rho> p \<longleftrightarrow> d dvd term_val \<rho> a)) \<and>
    (pred_holds \<rho> (pred_nonzero a) \<longleftrightarrow> term_val \<rho> a \<noteq> 0)"
  using pred_eq_holds [OF _ assms(1,2)] pred_lt_holds [OF _ assms(1,2)] pred_le_holds [OF _ assms(1,2)]
    pred_nonzero_holds [OF assms(1)] pred_divisible_by_holds [of a d p] assms(1,3) by blast

theorem predicate_meaning_witness:
  "\<exists>p. pred_le (term_atom (TileCount 0 0 4)) (term_atom (TileCount 1 0 4)) = Some p \<and>
     pred_holds (\<lambda>_. 3) p \<and> \<not> pred_holds (\<lambda>a. if a = TileCount 0 0 4 then 4 else 3) p"
proof -
  have "pred_le (term_atom (TileCount 0 0 4)) (term_atom (TileCount 1 0 4)) \<noteq> None" by code_simp
  then obtain p where p: "pred_le (term_atom (TileCount 0 0 4)) (term_atom (TileCount 1 0 4)) = Some p" by blast
  show ?thesis
    using p predicate_meaning [of "term_atom (TileCount 0 0 4)" "term_atom (TileCount 1 0 4)" 0 p "\<lambda>_. 3"]
      predicate_meaning [of "term_atom (TileCount 0 0 4)" "term_atom (TileCount 1 0 4)" 0 p "\<lambda>a. if a = TileCount 0 0 4 then 4 else 3"]
    by simp
qed

text \<open>
  C21. An equality and its mirror image are one predicate, so a declared fact is found in either orientation.
\<close>

theorem equality_symmetric:
  assumes "pred_eq a b = Some p" and "pred_eq b a = Some q" and "wf_term a" and "wf_term b"
  shows "p = q \<and> (entails believed p \<longleftrightarrow> entails believed q)"
  using pred_eq_symmetric [OF assms] by simp

theorem equality_symmetric_witness:
  "\<exists>p. pred_eq (term_atom (Dim 0 1)) (term_atom (Dim 1 0)) = Some p \<and> pred_eq (term_atom (Dim 1 0)) (term_atom (Dim 0 1)) = Some p"
proof -
  have "pred_eq (term_atom (Dim 0 1)) (term_atom (Dim 1 0)) \<noteq> None" "pred_eq (term_atom (Dim 1 0)) (term_atom (Dim 0 1)) \<noteq> None"
    by code_simp+
  then obtain p q where "pred_eq (term_atom (Dim 0 1)) (term_atom (Dim 1 0)) = Some p"
      "pred_eq (term_atom (Dim 1 0)) (term_atom (Dim 0 1)) = Some q" by blast
  with equality_symmetric [OF this] show ?thesis by simp
qed



section \<open>Writing always ends\<close>

text \<open>
  C23. On a module whose nesting of operations has no cycle, the writer returns: it gives the bytes or an error, and never
  runs on. The fuel the model starts with is enough.
\<close>

theorem writer_returns:
  assumes "acyclic_nesting m"
  shows "write_bytecode_version H m v \<noteq> Inl NoFuel"
  using write_bytecode_version_returns [OF assms, of H v] by auto

theorem writer_returns_witness:
  "acyclic_nesting sample \<and> write_bytecode_version half0 sample CURRENT \<noteq> Inl NoFuel"
  using writer_returns [OF sample_acyclic] sample_acyclic by blast

text \<open>
  C27. A file that was written holds no return inside a counted loop at any depth, and one inside a general loop only
  from the version that has it.
\<close>

theorem nested_returns:
  assumes "write_bytecode_version H m v = Inr bytes" and "func \<in> set (mod_functions m)"
    and "(nests m)\<^sup>*\<^sup>* func i" and "(nests m)\<^sup>+\<^sup>+ i j"
    and "op m i = (Inr outer :: lookup_op)" and "op m j = (Inr inner :: lookup_op)" and "opcode inner = Op_Return"
  shows "opcode outer \<noteq> Op_For \<and> (opcode outer = Op_Loop \<longrightarrow> feature_since Feat_LoopReturn \<le> v)"
proof -
  obtain l f where "checked m v l f j" "opcode outer = Op_Loop \<longrightarrow> l" "opcode outer = Op_For \<longrightarrow> f"
    using checked_inside [OF written_checks [OF assms(1,2)] assms(3,4,5)] by blast
  with checked_op [OF _ assms(6)] assms(7) show ?thesis by blast
qed

theorem nested_returns_witness:
  "\<exists>bytes. write_bytecode_version half0 sample CURRENT = Inr bytes \<and> nests sample (OpId 0) (OpId 3) \<and>
     opcode (operations sample ! 0) \<noteq> Op_For"
proof -
  obtain bytes where b: "write_bytecode_version half0 sample CURRENT = Inr bytes"
    using sample_written by (auto simp: write_bytecode_def split: sum.splits)
  have n: "nests sample (OpId 0) (OpId 3)" by (simp add: nests_def exec index_def)
  have "opcode (operations sample ! 0) \<noteq> Op_For"
    using nested_returns [OF b, of "OpId 0" "OpId 0" "OpId 3" "operations sample ! 0" "operations sample ! 3"] n
    by (auto simp: exec index_def tranclp.r_into_trancl)
  with b n show ?thesis by blast
qed

text \<open>
  C28. An operation that can be written for a version can be written for every newer version, and numbers the same values.
\<close>

theorem newer_version_writes:
  assumes "write_operation H n i (c, w) = Inr t" and "ctx_version c \<le> v'"
  shows "\<exists>t'. write_operation H n i (c\<lparr>ctx_version := v'\<rparr>, w) = Inr t' \<and> value_map (fst t') = value_map (fst t)"
proof -
  have "upgrade (c, w) (c\<lparr>ctx_version := v'\<rparr>, w)" using assms(2) by (simp add: upgrade_def)
  from upgradableD [OF write_operation_upgradable this assms(1)] show ?thesis by (auto simp: upgrade_def)
qed

theorem newer_version_writes_witness:
  "\<exists>t'. write_operation half0 1 (OpId 1) ((writer_ctx_new sample V13_2)\<lparr>ctx_version := V13_4\<rparr>, writer_new) = Inr t'"
proof -
  have "case write_operation half0 1 (OpId 1) (writer_ctx_new sample V13_2, writer_new) of
    Inr t \<Rightarrow> True | _ \<Rightarrow> False"
    by (simp add: One_nat_def exec cong: eager)
  then obtain t where "write_operation half0 1 (OpId 1) (writer_ctx_new sample V13_2, writer_new) = Inr t"
    by (auto split: sum.splits)
  moreover have "ctx_version (writer_ctx_new sample V13_2) \<le> V13_4" by (simp add: exec)
  ultimately show ?thesis using newer_version_writes by blast
qed

text \<open>
  C29. An operation or an attribute that the version does not have is refused with the version it needs.
\<close>

theorem version_gates:
  assumes "f = opcode_feature (opcode opn) \<or>
      (\<exists>(n, a) \<in> set (attributes opn). attribute_feature (opcode opn) n a = Some f)"
    and "ctx_version (fst s) < feature_since f"
  shows "\<exists>what needed. write_op_body H R opn s = Inl (Err (RequiresVersion what needed (ctx_version (fst s)))) \<and>
    ctx_version (fst s) < needed"
proof (cases "ctx_version (fst s) < feature_since (opcode_feature (opcode opn))")
  case True
  then show ?thesis by (auto simp: write_op_body_def gate_def require_version_def)
next
  case False
  then obtain n a where a: "(n, a) \<in> set (attributes opn)" "attribute_feature (opcode opn) n a = Some f"
    using assms by auto
  have "\<exists>what needed. for_each (\<lambda>(n, a). case attribute_feature (opcode opn) n a of
       Some f \<Rightarrow> gate (feature_name f) f | None \<Rightarrow> Inr) as s = Inl (Err (RequiresVersion what needed (ctx_version (fst s)))) \<and>
     ctx_version (fst s) < needed" if "(n, a) \<in> set as" for as
    using that
  proof (induction as)
    case (Cons x as)
    show ?case
    proof (cases "x = (n, a)")
      case True
      then show ?thesis using a(2) assms(2) by (simp add: gate_def require_version_def)
    next
      case False
      with Cons show ?thesis
        by (cases x) (auto simp: gate_def require_version_def split: option.split)
    qed
  qed simp
  from this [OF a(1)] False show ?thesis
    by (auto simp: write_op_body_def attribute_gates_def gate_def require_version_def)
qed

theorem version_gates_witness:
  "\<exists>what needed. write_op_body half0 (\<lambda>_ s. Inr s) (plain_op Op_FToI [] [] [(''saturating'', Attr_Bool True)] [])
       (writer_ctx_new sample V13_2, writer_new) = Inl (Err (RequiresVersion what needed V13_2)) \<and> V13_2 < needed"
  using version_gates [of Feat_SaturatingFToI "plain_op Op_FToI [] [] [(''saturating'', Attr_Bool True)] []"
    "(writer_ctx_new sample V13_2, writer_new)" half0 "\<lambda>_ s. Inr s"]
  by (simp add: exec)

section \<open>Verifiers\<close>

text \<open>
  C24. The writer does not miss an operand in a module in which every operand is in scope by the writer's rule.
\<close>

theorem operands_found:
  assumes "list_all (function_scoped m) (mod_functions m)"
  shows "write_bytecode_version H m v \<noteq> Inl (Err (OperandNotFound x oc))"
  using write_bytecode_resolves [OF assms, of H v] by auto

theorem operands_found_witness:
  "list_all (function_scoped sample) (mod_functions sample) \<and>
   write_bytecode_version half0 sample CURRENT \<noteq> Inl (Err (OperandNotFound (Value 2) Op_AddI))"
proof -
  have "list_all (function_scoped sample) (mod_functions sample)"
    by (simp add: function_scoped_def block_scoped_def results_of_def op_results_def exec List.map_filter_simps upt_rec)
  with operands_found [OF this] show ?thesis by blast
qed

text \<open>
  C25. The dominance verifier accepts a module exactly when every operand is visible at its use, where the values visible
  at a program point are defined independently of the verifier's traversal.
\<close>

theorem dominance_verifier_exact:
  assumes "acyclic_nesting m" and "verify_dominance m \<noteq> Inl Panic"
  shows "verify_dominance m = Inr () \<longleftrightarrow> (\<forall>func \<in> set (mod_functions m). function_visible True m func)"
  by (rule verify_dominance_exact [OF assms])

theorem dominance_verifier_exact_witness:
  "verify_dominance sample = Inr () \<and> function_visible True sample (OpId 0)"
proof -
  have v: "verify_dominance sample = Inr ()" by (simp add: exec cong: eager)
  then have "\<forall>func \<in> set (mod_functions sample). function_visible True sample func"
    using dominance_verifier_exact [OF sample_acyclic] by simp
  with v show ?thesis by (simp add: sample_sel)
qed

text \<open>
  C26. Both verifiers accept a module that the writer rejects: an operation in a nested region uses a result of the
  operation that holds the region. The verifiers register the results before the regions, the writer after them.
\<close>

theorem verifiers_accept_unwritable:
  "verify_dominance nested_use = Inr () \<and> verify_bytecode_indices nested_use = Inr () \<and>
   write_bytecode half0 nested_use = Inl (Err (OperandNotFound (Value 0) Op_AddI))"
proof (intro conjI)
  show "verify_dominance nested_use = Inr ()" by (simp add: exec cong: eager)
  show "verify_bytecode_indices nested_use = Inr ()" by (simp add: exec cong: eager)
  show "write_bytecode half0 nested_use = Inl (Err (OperandNotFound (Value 0) Op_AddI))" by (simp add: exec cong: eager)
qed

section \<open>Bytes\<close>

text \<open>
  C30. The two implementations of the variable-length integer write the same bytes.
\<close>

theorem varint_writers_agree:
  "buf (write_varint v w) = push_varint (buf w) v"
  by (simp add: push_varint_eq buf_write_varint)

text \<open>
  C34. A variable-length integer is read back, and takes one to ten bytes.
\<close>

theorem varint_round_trip:
  assumes "length pre + (length (buf (write_varint v writer_new)) + length rest) < isize_top"
  shows "read_varint (reader_at pre (buf (write_varint v writer_new) @ rest))
      = Inr (v, reader_at (pre @ buf (write_varint v writer_new)) rest) \<and>
    1 \<le> length (buf (write_varint v writer_new)) \<and> length (buf (write_varint v writer_new)) \<le> 10"
  using varint.step [of pre v rest] assms varint_length [of v]
  by (simp add: layout_simps Suc_le_eq)

theorem varint_round_trip_witness:
  "read_varint (reader_at [9] (buf (write_varint 300 writer_new) @ [5]))
      = Inr (300, reader_at ([9] @ buf (write_varint 300 writer_new)) [5])"
  using varint_round_trip [of "[9]" 300 "[5]"] by (simp add: exec)

text \<open>
  C35. A signed variable-length integer is read back.
\<close>

theorem signed_varint_round_trip:
  assumes "length pre + (length (buf (write_signed_varint v writer_new)) + length rest) < isize_top"
  shows "read_signed_varint (reader_at pre (buf (write_signed_varint v writer_new) @ rest))
      = Inr (v, reader_at (pre @ buf (write_signed_varint v writer_new)) rest)"
  using signed_varint.step [of pre v rest] assms by (simp add: layout_simps)

theorem signed_varint_round_trip_witness:
  "read_signed_varint (reader_at [] (buf (write_signed_varint (- 3) writer_new)))
      = Inr (- 3, reader_at (buf (write_signed_varint (- 3) writer_new)) [])"
  using signed_varint_round_trip [of "[]" "- 3" "[]"] by (simp add: exec)

section \<open>Building modules\<close>

text \<open>
  C36. The builder adds the operation it describes to the module, and the scan that the verifier and the writer use finds
  for each result the value the builder returned, with its type.
\<close>

theorem built_operation:
  assumes "wf_values m" and "length (operations m) < 2 ^ 32"
    and "length (mod_values m) + length (b_result_types b) \<le> 2 ^ 32"
    and "build b m = ((opid, results), m')"
  shows "wf_values m' \<and> length results = length (b_result_types b) \<and>
    op m' opid = Inr \<lparr>opcode = b_opcode b, operands = b_operands b, result_types = b_result_types b,
      attributes = b_attributes b, op_regions = b_regions b, location = b_location b\<rparr> \<and>
    (\<forall>j < length (b_result_types b). find_op_result m' opid (as_u32 j) = Some (results ! j) \<and>
      value_type m' (results ! j) = Inr (b_result_types b ! j))"
proof (intro conjI allI impI)
  have eqs: "opid = OpId (as_u32 (length (operations m)))"
    "results = map (\<lambda>k. Value (as_u32 k)) [length (mod_values m)..<length (mod_values m) + length (b_result_types b)]"
    "mod_values m' = mod_values m @ fresh_values (OpResult opid) (b_result_types b) 0"
    "operations m' = operations m @ [\<lparr>opcode = b_opcode b, operands = b_operands b, result_types = b_result_types b,
      attributes = b_attributes b, op_regions = b_regions b, location = b_location b\<rparr>]"
    using assms(4) by (auto simp: build_def alloc_op_def alloc_values_eq)
  have n: "unat (as_u32 (length (operations m))) = length (operations m)"
    using assms(2) by (simp add: unat_of_nat)
  show "wf_values m'" using build_wf_values [OF assms(1,2), of b] assms(4) by simp
  show "length results = length (b_result_types b)" by (simp add: eqs(2))
  show "op m' opid = Inr \<lparr>opcode = b_opcode b, operands = b_operands b, result_types = b_result_types b,
      attributes = b_attributes b, op_regions = b_regions b, location = b_location b\<rparr>"
    by (simp add: eqs(1,4) n index_def)
  fix j assume j: "j < length (b_result_types b)"
  show "find_op_result m' opid (as_u32 j) = Some (results ! j)"
    using build_results_found [OF assms(1,2) _ assms(4) j] assms(3) by simp
  have "unat (as_u32 (length (mod_values m) + j)) = length (mod_values m) + j"
    using assms(3) j by (simp add: unat_of_nat del: of_nat_add)
  then show "value_type m' (results ! j) = Inr (b_result_types b ! j)"
    using j by (simp add: eqs(2,3) value_type_def index_def fresh_values_def nth_append)
qed

theorem built_operation_witness:
  "\<exists>m' opid results. build (builder_new Op_GetTileBlockId Loc_Unknown\<lparr>b_result_types := [i32_tile, i32_tile]\<rparr>) (module_new ''m'')
      = ((opid, results), m') \<and> find_op_result m' opid (as_u32 1) = Some (results ! 1) \<and>
      value_type m' (results ! 1) = (Inr i32_tile :: write_error fault + Type)"
proof -
  let ?b = "builder_new Op_GetTileBlockId Loc_Unknown\<lparr>b_result_types := [i32_tile, i32_tile]\<rparr>"
  obtain opid results m' where b: "build ?b (module_new ''m'') = ((opid, results), m')"
    by (metis surj_pair)
  have "1 < length (b_result_types ?b)" by simp
  with built_operation [OF wf_values_new _ _ b] b show ?thesis by (auto simp: module_new_def)
qed


end
